(* ===== verification/RR_Prelude.thy ===== *)
theory RR_Prelude
  imports Main "HOL-Library.Word" "HOL-Library.Monad_Syntax"
begin

text \<open>
  Shared vocabulary of the librr development: the machine types of the C sources, the
  \<^verbatim>\<open>errno\<close> values they use, little-endian object representations, the user-visible
  byte memory, decimal printing, and the generic lemmas on lists, options and words that the
  component theories rely on.

  Throughout, a C function whose result may be undefined or that may never return is a
  function into \<open>option\<close>: \<open>None\<close> means that control does not come back with a defined
  state (a loop that never ends, or a dereference of a pointer that is NULL or freed).
  A theorem that such a function is \<open>Some\<close> is therefore a memory-safety and termination
  statement at once.
\<close>

section \<open>Machine types and constants\<close>

type_synonym u8 = "8 word"
type_synonym u32 = "32 word"
type_synonym i32 = "32 word"
type_synonym u64 = "64 word"

text \<open>The byte memory of the process, as seen by user code and by the wrappers.\<close>

type_synonym mem = "u64 \<Rightarrow> u8"

text \<open>The result of a call into the kernel or libc: \<open>Inl e\<close> is a failure with
  \<^verbatim>\<open>errno = e\<close>, \<open>Inr v\<close> a success.\<close>

type_synonym 'a res = "i32 + 'a"

abbreviation EPERM :: i32 where "EPERM \<equiv> 1"
abbreviation ESRCH :: i32 where "ESRCH \<equiv> 3"
abbreviation EINTR :: i32 where "EINTR \<equiv> 4"
abbreviation EAGAIN :: i32 where "EAGAIN \<equiv> 11"
abbreviation EBUSY :: i32 where "EBUSY \<equiv> 16"
abbreviation EINVAL :: i32 where "EINVAL \<equiv> 22"
abbreviation ERANGE :: i32 where "ERANGE \<equiv> 34"
abbreviation EDEADLK :: i32 where "EDEADLK \<equiv> 35"
abbreviation ENOSYS :: i32 where "ENOSYS \<equiv> 38"
abbreviation ENODATA :: i32 where "ENODATA \<equiv> 61"
abbreviation EPROTO :: i32 where "EPROTO \<equiv> 71"

section \<open>Collections of facts\<close>

named_theorems rr_layout \<open>lengths of object representations\<close>
named_theorems rr_codec \<open>decoding an encoding gives the value back\<close>
named_theorems rr_frame \<open>fields an operation leaves alone\<close>

section \<open>Little-endian object representations\<close>

primrec le_nat :: "nat \<Rightarrow> nat \<Rightarrow> u8 list" where
  "le_nat 0 x = []"
| "le_nat (Suc n) x = of_nat (x mod 256) # le_nat n (x div 256)"

primrec nat_le :: "u8 list \<Rightarrow> nat" where
  "nat_le [] = 0"
| "nat_le (b # bs) = unat b + 256 * nat_le bs"

definition le_bytes :: "nat \<Rightarrow> 'a::len word \<Rightarrow> u8 list" where
  "le_bytes n w = le_nat n (unat w)"

definition le_word :: "u8 list \<Rightarrow> 'a::len word" where
  "le_word bs = of_nat (nat_le bs)"

lemma unat_u8_bound [simp]: "unat (b :: u8) < 256"
  using unsigned_less [of b, where ?'a = nat] by simp

lemma length_le_nat [simp]: "length (le_nat n x) = n"
  by (induction n arbitrary: x) auto

lemma length_le_bytes [simp]: "length (le_bytes n w) = n"
  by (simp add: le_bytes_def)

lemma nat_le_le_nat: "nat_le (le_nat n x) = x mod 256 ^ n"
proof (induction n arbitrary: x)
  case 0
  then show ?case by simp
next
  case (Suc n)
  have b: "unat (of_nat (x mod 256) :: u8) = x mod 256"
    by (simp add: unat_of_nat)
  have "x mod (256 * 256 ^ n) = 256 * (x div 256 mod 256 ^ n) + x mod 256"
    by (rule mod_mult2_eq)
  with Suc b show ?case by simp
qed

lemma nat_le_bound: "nat_le bs < 256 ^ length bs"
proof (induction bs)
  case Nil
  then show ?case by simp
next
  case (Cons b bs)
  have "unat b < 256" by (rule unat_u8_bound)
  with Cons show ?case unfolding nat_le.simps list.size power_Suc add_Suc_right add_0_right by linarith
qed

lemma le_nat_nat_le: "le_nat (length bs) (nat_le bs) = bs"
proof (induction bs)
  case Nil
  then show ?case by simp
next
  case (Cons b bs)
  have "unat b < 256" by (rule unat_u8_bound)
  with Cons show ?case by simp
qed

lemma le_word_le_bytes_ge:
  assumes "2 ^ LENGTH('a) \<le> (256::nat) ^ n"
  shows "le_word (le_bytes n (w :: 'a::len word)) = w"
proof -
  have "unat w < 256 ^ n" 
    using unsigned_less [of w, where ?'a = nat] assms by (rule order_less_le_trans)
  then show ?thesis by (simp add: le_word_def le_bytes_def nat_le_le_nat)
qed

lemma le_word_le_bytes64 [rr_codec, simp]: "le_word (le_bytes 8 (w :: u64)) = w"
  by (rule le_word_le_bytes_ge) simp

lemma le_word_le_bytes32 [rr_codec, simp]: "le_word (le_bytes 4 (w :: u32)) = w"
  by (rule le_word_le_bytes_ge) simp

lemma le_bytes_le_word64: "length bs = 8 \<Longrightarrow> le_bytes 8 (le_word bs :: u64) = bs"
  using nat_le_bound [of bs] le_nat_nat_le [of bs]
  by (simp add: le_bytes_def le_word_def unat_of_nat)

lemma le_bytes_le_word32: "length bs = 4 \<Longrightarrow> le_bytes 4 (le_word bs :: u32) = bs"
  using nat_le_bound [of bs] le_nat_nat_le [of bs]
  by (simp add: le_bytes_def le_word_def unat_of_nat)

section \<open>Fixed-size byte fields\<close>

text \<open>\<open>pad n bs\<close> is what a field of \<open>n\<close> bytes holds after \<^verbatim>\<open>memset\<close> to zero and a
  \<^verbatim>\<open>memcpy\<close> of at most \<open>n\<close> bytes into it.\<close>

definition pad :: "nat \<Rightarrow> u8 list \<Rightarrow> u8 list" where
  "pad n bs = take n bs @ replicate (n - length bs) 0"

lemma length_pad [simp]: "length (pad n bs) = n"
  by (simp add: pad_def)

lemma take_pad: "k \<le> length bs \<Longrightarrow> k \<le> n \<Longrightarrow> take k (pad n bs) = take k bs"
  by (simp add: pad_def min_def)

lemma pad_idem [simp]: "length bs = n \<Longrightarrow> pad n bs = bs"
  by (simp add: pad_def)

text \<open>\<open>field off n bs\<close> are the bytes of the struct member at offset \<open>off\<close> of size \<open>n\<close>.\<close>

definition field :: "nat \<Rightarrow> nat \<Rightarrow> u8 list \<Rightarrow> u8 list" where
  "field off n bs = take n (drop off bs)"

lemma length_field [simp]: "off + n \<le> length bs \<Longrightarrow> length (field off n bs) = n"
  by (simp add: field_def)

lemma field_append1 [simp]: "length xs \<le> off \<Longrightarrow> field off n (xs @ ys) = field (off - length xs) n ys"
  by (simp add: field_def)

lemma field_append0 [simp]: "off + n \<le> length xs \<Longrightarrow> field off n (xs @ ys) = field off n xs"
  by (simp add: field_def)

lemma field_all: "n = length xs \<Longrightarrow> field 0 n xs = xs"
  by (simp add: field_def)

section \<open>The byte memory\<close>

definition read_mem :: "mem \<Rightarrow> u64 \<Rightarrow> nat \<Rightarrow> u8 list" where
  "read_mem m p n = map (\<lambda>i. m (p + of_nat i)) [0..<n]"

definition write_mem :: "u64 \<Rightarrow> u8 list \<Rightarrow> mem \<Rightarrow> mem" where
  "write_mem p bs m = (\<lambda>a. if unat (a - p) < length bs then bs ! unat (a - p) else m a)"

text \<open>\<^verbatim>\<open>memcpy\<close> into the process memory: copying a non-empty range to NULL faults.\<close>

definition memcpy :: "u64 \<Rightarrow> u8 list \<Rightarrow> mem \<Rightarrow> mem option" where
  "memcpy p bs m = (if p = 0 \<and> bs \<noteq> [] then None else Some (write_mem p bs m))"

lemma length_read_mem [simp]: "length (read_mem m p n) = n"
  by (simp add: read_mem_def)

lemma take_read_mem: "k \<le> n \<Longrightarrow> take k (read_mem m p n) = read_mem m p k"
  by (simp add: read_mem_def take_map)

lemma unat_of_nat64: "n < 2 ^ 64 \<Longrightarrow> unat (of_nat n :: u64) = n"
  by (simp add: unat_of_nat)

lemma read_write_mem: "length bs \<le> 2 ^ 64 \<Longrightarrow> read_mem (write_mem p bs m) p (length bs) = bs"
  by (rule nth_equalityI) (auto simp: read_mem_def write_mem_def unat_of_nat)

lemma write_mem_Nil [simp]: "write_mem p [] m = m"
  by (simp add: write_mem_def)

lemma write_mem_outside: "length bs \<le> unat (a - p) \<Longrightarrow> write_mem p bs m a = m a"
  by (simp add: write_mem_def)

lemma write_mem_same:
  assumes "n \<le> 2 ^ 64"
  shows "write_mem p (read_mem m p n) m = m"
proof
  fix a
  show "write_mem p (read_mem m p n) m a = m a"
    by (simp add: write_mem_def read_mem_def)
qed

section \<open>Decimal output\<close>

fun dec_digits :: "nat \<Rightarrow> string" where
  "dec_digits n = (if n < 10 then [char_of (48 + n)] else dec_digits (n div 10) @ [char_of (48 + n mod 10)])"

declare dec_digits.simps [simp del]

definition dec_u64 :: "u64 \<Rightarrow> string" where
  "dec_u64 w = dec_digits (unat w)"

definition dec_i32 :: "i32 \<Rightarrow> string" where
  "dec_i32 w = (if sint w < 0 then CHR ''-'' # dec_digits (nat (- sint w)) else dec_digits (nat (sint w)))"

text \<open>The bytes of a C string, without its terminator.\<close>

definition str_bytes :: "string \<Rightarrow> u8 list" where
  "str_bytes cs = map (\<lambda>c. of_nat (of_char c)) cs"

section \<open>Options and lists\<close>

lemma bind_Some_conv [simp]: "(Option.bind x f = Some y) = (\<exists>a. x = Some a \<and> f a = Some y)"
  by (cases x) auto

lemma distinct_map_the_index:
  "distinct (map f xs) \<Longrightarrow> i < length xs \<Longrightarrow> j < length xs \<Longrightarrow> f (xs ! i) = f (xs ! j) \<Longrightarrow> i = j"
  by (metis distinct_conv_nth length_map nth_map)

end
