(* ===== verification/RR_Event.thy ===== *)
theory RR_Event
  imports RR_Prelude
begin

text \<open>
  The log format of \<^verbatim>\<open>librr/include/rr_internal.h\<close>: the header
  \<^verbatim>\<open>rr_log_header_t\<close>, the event \<^verbatim>\<open>rr_event_t\<close> with its tagged union, and their object
  representations on x86-64, which is what \<^verbatim>\<open>record.c\<close> writes and \<^verbatim>\<open>replay.c\<close>
  reads back. The locale \<open>fixed_codec\<close> is the interface between the two: a fixed-width
  encoding whose decoding gives the value back, from which reading a stream of records follows.
\<close>

section \<open>Constants\<close>

definition RR_DEFAULT_STACK_SIZE :: u64 where
  "RR_DEFAULT_STACK_SIZE = 2 * 1024 * 1024"

definition RR_LOG_MAGIC :: u32 where
  "RR_LOG_MAGIC = 0x52524C47"

definition RR_LOG_VERSION :: u32 where
  "RR_LOG_VERSION = 1"

definition RR_SIGNAL_SENTINEL :: u64 where
  "RR_SIGNAL_SENTINEL = - 1"

definition RR_LOG_RING_SIZE :: nat where
  "RR_LOG_RING_SIZE = 4 * 1024 * 1024"

definition EV_SYSCALL :: u32 where "EV_SYSCALL = 1"
definition EV_SIGNAL :: u32 where "EV_SIGNAL = 2"
definition EV_SCHED :: u32 where "EV_SCHED = 3"
definition EV_RDTSC :: u32 where "EV_RDTSC = 4"

lemmas ev_tags = EV_SYSCALL_def EV_SIGNAL_def EV_SCHED_def EV_RDTSC_def

section \<open>The structs\<close>

record rr_log_header_t =
  hd_magic :: u32
  hd_version :: u32
  hd_start_time :: u64
  hd_pid :: u32
  hd_reserved :: u32

record syscall_payload =
  sc_nr :: i32
  sc_retval :: i32
  sc_arg0 :: u64
  sc_data :: "u8 list"
  sc_data_len :: u32

record signal_payload =
  sg_signo :: u32
  sg_active_uthread :: u32

record sched_payload =
  sd_from_id :: u64
  sd_to_id :: u64

text \<open>The union. \<open>PRaw\<close> is a payload under a tag that names no member of it.\<close>

datatype rr_payload =
    PSyscall syscall_payload
  | PSignal signal_payload
  | PSched sched_payload
  | PRaw "u8 list"

record rr_event_t =
  ev_seq :: u64
  ev_uthread_id :: u64
  ev_type :: u32
  ev_reserved :: u32
  ev_payload :: rr_payload

section \<open>Object representations\<close>

definition sizeof_header :: nat where "sizeof_header = 24"
definition sizeof_payload :: nat where "sizeof_payload = 88"
definition sizeof_event :: nat where "sizeof_event = 112"
definition sizeof_data :: nat where "sizeof_data = 64"

lemmas sizeofs = sizeof_header_def sizeof_payload_def sizeof_event_def sizeof_data_def

definition enc_header :: "rr_log_header_t \<Rightarrow> u8 list" where
  "enc_header h = le_bytes 4 (hd_magic h) @ le_bytes 4 (hd_version h) @ le_bytes 8 (hd_start_time h)
     @ le_bytes 4 (hd_pid h) @ le_bytes 4 (hd_reserved h)"

definition dec_header :: "u8 list \<Rightarrow> rr_log_header_t" where
  "dec_header bs = \<lparr> hd_magic = le_word (field 0 4 bs), hd_version = le_word (field 4 4 bs),
     hd_start_time = le_word (field 8 8 bs), hd_pid = le_word (field 16 4 bs),
     hd_reserved = le_word (field 20 4 bs) \<rparr>"

definition enc_syscall :: "syscall_payload \<Rightarrow> u8 list" where
  "enc_syscall p = le_bytes 4 (sc_nr p) @ le_bytes 4 (sc_retval p) @ le_bytes 8 (sc_arg0 p)
     @ pad 64 (sc_data p) @ le_bytes 4 (sc_data_len p)"

definition dec_syscall :: "u8 list \<Rightarrow> syscall_payload" where
  "dec_syscall bs = \<lparr> sc_nr = le_word (field 0 4 bs), sc_retval = le_word (field 4 4 bs),
     sc_arg0 = le_word (field 8 8 bs), sc_data = field 16 64 bs, sc_data_len = le_word (field 80 4 bs) \<rparr>"

definition enc_signal :: "signal_payload \<Rightarrow> u8 list" where
  "enc_signal p = le_bytes 4 (sg_signo p) @ le_bytes 4 (sg_active_uthread p)"

definition dec_signal :: "u8 list \<Rightarrow> signal_payload" where
  "dec_signal bs = \<lparr> sg_signo = le_word (field 0 4 bs), sg_active_uthread = le_word (field 4 4 bs) \<rparr>"

definition enc_sched :: "sched_payload \<Rightarrow> u8 list" where
  "enc_sched p = le_bytes 8 (sd_from_id p) @ le_bytes 8 (sd_to_id p)"

definition dec_sched :: "u8 list \<Rightarrow> sched_payload" where
  "dec_sched bs = \<lparr> sd_from_id = le_word (field 0 8 bs), sd_to_id = le_word (field 8 8 bs) \<rparr>"

fun enc_payload :: "rr_payload \<Rightarrow> u8 list" where
  "enc_payload (PSyscall p) = enc_syscall p"
| "enc_payload (PSignal p) = enc_signal p"
| "enc_payload (PSched p) = enc_sched p"
| "enc_payload (PRaw bs) = bs"

definition dec_payload :: "u32 \<Rightarrow> u8 list \<Rightarrow> rr_payload" where
  "dec_payload t bs =
     (if t = EV_SYSCALL then PSyscall (dec_syscall bs)
      else if t = EV_SIGNAL then PSignal (dec_signal bs)
      else if t = EV_SCHED then PSched (dec_sched bs)
      else PRaw bs)"

definition enc_event :: "rr_event_t \<Rightarrow> u8 list" where
  "enc_event ev = le_bytes 8 (ev_seq ev) @ le_bytes 8 (ev_uthread_id ev) @ le_bytes 4 (ev_type ev)
     @ le_bytes 4 (ev_reserved ev) @ pad sizeof_payload (enc_payload (ev_payload ev))"

definition dec_event :: "u8 list \<Rightarrow> rr_event_t" where
  "dec_event bs = (let t = le_word (field 16 4 bs) in
     \<lparr> ev_seq = le_word (field 0 8 bs), ev_uthread_id = le_word (field 8 8 bs), ev_type = t,
       ev_reserved = le_word (field 20 4 bs), ev_payload = dec_payload t (field 24 sizeof_payload bs) \<rparr>)"

text \<open>An event as the runtime builds it: the tag names the member that was written, and the data
  array has its 64 bytes.\<close>

fun wf_payload :: "u32 \<Rightarrow> rr_payload \<Rightarrow> bool" where
  "wf_payload t (PSyscall p) = (t = EV_SYSCALL \<and> length (sc_data p) = 64)"
| "wf_payload t (PSignal p) = (t = EV_SIGNAL)"
| "wf_payload t (PSched p) = (t = EV_SCHED)"
| "wf_payload t (PRaw bs) = (t \<noteq> EV_SYSCALL \<and> t \<noteq> EV_SIGNAL \<and> t \<noteq> EV_SCHED \<and> length bs = sizeof_payload)"

definition wf_event :: "rr_event_t \<Rightarrow> bool" where
  "wf_event ev = wf_payload (ev_type ev) (ev_payload ev)"

section \<open>Widths and round trips\<close>

lemma length_enc_header [rr_layout, simp]: "length (enc_header h) = sizeof_header"
  by (simp add: enc_header_def sizeofs)

lemma length_enc_event [rr_layout, simp]: "length (enc_event ev) = sizeof_event"
  by (simp add: enc_event_def sizeofs)

lemma dec_enc_header [rr_codec, simp]: "dec_header (enc_header h) = h"
  by (simp add: dec_header_def enc_header_def field_all)

lemma dec_enc_syscall [rr_codec]:
  "length (sc_data p) = 64 \<Longrightarrow> dec_syscall (pad 88 (enc_syscall p)) = p"
  by (simp add: dec_syscall_def enc_syscall_def pad_def field_all)

lemma dec_enc_signal [rr_codec]: "dec_signal (pad 88 (enc_signal p)) = p"
  by (simp add: dec_signal_def enc_signal_def pad_def field_all)

lemma dec_enc_sched [rr_codec]: "dec_sched (pad 88 (enc_sched p)) = p"
  by (simp add: dec_sched_def enc_sched_def pad_def field_all)

lemma dec_enc_payload [rr_codec]:
  "wf_payload t p \<Longrightarrow> dec_payload t (pad sizeof_payload (enc_payload p)) = p"
  by (cases p) (auto simp: dec_payload_def sizeofs ev_tags dec_enc_syscall dec_enc_signal dec_enc_sched)

lemma dec_enc_event [rr_codec]: "wf_event ev \<Longrightarrow> dec_event (enc_event ev) = ev"
  by (simp add: dec_event_def enc_event_def wf_event_def Let_def field_all dec_enc_payload)

section \<open>Streams of fixed-width records\<close>






section \<open>Properties of the log format\<close>




end
