(* ===== verification/RR_Config.thy ===== *)
theory RR_Config
  imports RR_Event
begin

text \<open>
  The runtime configuration: \<^verbatim>\<open>rr_config_t\<close> with its defaults and mode tests
  (\<^verbatim>\<open>record.c\<close>), and \<^verbatim>\<open>rr_parse_env\<close> of \<^verbatim>\<open>init.c\<close>, which fills it
  from the environment. \<^verbatim>\<open>getenv\<close> is the argument \<open>env\<close>; \<^verbatim>\<open>strtoul\<close> is
  modelled as the C standard describes it for base 10 and a 64-bit \<^verbatim>\<open>unsigned long\<close>.
\<close>

record rr_config_t =
  mode_record :: bool
  mode_replay :: bool
  replay_time_virtual :: bool
  runtime_ready :: bool
  debug :: bool
  stack_size :: u64
  log_path :: string

definition g_rr_config_init :: rr_config_t where
  "g_rr_config_init = \<lparr> mode_record = False, mode_replay = False, replay_time_virtual = True,
     runtime_ready = False, debug = False, stack_size = RR_DEFAULT_STACK_SIZE, log_path = ''rr.log'' \<rparr>"

definition cfg_active :: "rr_config_t \<Rightarrow> bool" where
  "cfg_active c = (mode_record c \<and> runtime_ready c)"

definition cfg_replay_active :: "rr_config_t \<Rightarrow> bool" where
  "cfg_replay_active c = (mode_replay c \<and> runtime_ready c)"

section \<open>strtoul, base 10\<close>

definition is_space :: "char \<Rightarrow> bool" where
  "is_space c = (let n = (of_char c :: nat) in n = 32 \<or> (9 \<le> n \<and> n \<le> 13))"

definition is_digit :: "char \<Rightarrow> bool" where
  "is_digit c = (let n = (of_char c :: nat) in 48 \<le> n \<and> n \<le> 57)"

definition digit_val :: "char \<Rightarrow> nat" where
  "digit_val c = of_char c - 48"

definition digits_val :: "string \<Rightarrow> nat" where
  "digits_val ds = foldl (\<lambda>acc c. 10 * acc + digit_val c) 0 ds"

text \<open>The result is the value, the \<^verbatim>\<open>errno\<close> it sets (0 for none) and the rest of the input
  at \<^verbatim>\<open>end\<close>; with no digits the rest is the whole input.\<close>

definition strtoul :: "string \<Rightarrow> u64 \<times> i32 \<times> string" where
  "strtoul s =
     (let t = dropWhile is_space s;
          neg = (t \<noteq> [] \<and> hd t = CHR ''-'');
          t' = (if t \<noteq> [] \<and> (hd t = CHR ''-'' \<or> hd t = CHR ''+'') then tl t else t);
          ds = takeWhile is_digit t'; rest = dropWhile is_digit t'; n = digits_val ds
      in if ds = [] then (0, 0, s)
         else if 2 ^ 64 \<le> n then (- 1, ERANGE, rest)
         else (if neg then - of_nat n else of_nat n, 0, rest))"

section \<open>rr_parse_env\<close>

definition parse_stack_size :: "string option \<Rightarrow> u64" where
  "parse_stack_size stack =
     (case stack of
        None \<Rightarrow> RR_DEFAULT_STACK_SIZE
      | Some s \<Rightarrow>
          if s = [] then RR_DEFAULT_STACK_SIZE
          else (case strtoul s of (parsed, err, end_ptr) \<Rightarrow>
            if err = 0 \<and> length end_ptr \<noteq> length s \<and> end_ptr = [] \<and> 0 < parsed then parsed
            else RR_DEFAULT_STACK_SIZE))"

definition rr_parse_env :: "(string \<Rightarrow> string option) \<Rightarrow> rr_config_t \<Rightarrow> rr_config_t" where
  "rr_parse_env env c = c\<lparr>
     mode_record := (env ''RR_MODE'' = Some ''record''),
     mode_replay := (env ''RR_MODE'' = Some ''replay''),
     replay_time_virtual := \<not> (env ''RR_REPLAY_TIME'' = Some ''real''),
     log_path := (case env ''RR_LOG'' of Some p \<Rightarrow> if p \<noteq> [] then p else ''rr.log'' | None \<Rightarrow> ''rr.log''),
     debug := (env ''RR_DEBUG'' = Some ''1''),
     stack_size := parse_stack_size (env ''RR_STACK_SIZE'') \<rparr>"

section \<open>Decimal numerals are read back\<close>

lemma of_char_digit: "n < 10 \<Longrightarrow> of_char (char_of (48 + n) :: char) = (48 + n :: nat)"
  by simp

lemma is_digit_char_of: "n < 10 \<Longrightarrow> is_digit (char_of (48 + n :: nat))"
  by (simp add: is_digit_def)

lemma digit_val_char_of: "n < 10 \<Longrightarrow> digit_val (char_of (48 + n :: nat)) = n"
  by (simp add: digit_val_def)

lemma digits_val_snoc: "digits_val (ds @ [c]) = 10 * digits_val ds + digit_val c"
  by (simp add: digits_val_def)

lemma digits_of_dec: "\<forall>c \<in> set (dec_digits n). is_digit c"
proof (induction n rule: dec_digits.induct)
  case (1 n)
  then show ?case
    by (cases "n < 10") (auto simp: dec_digits.simps [of n] is_digit_char_of)
qed

lemma digits_val_dec: "digits_val (dec_digits n) = n"
proof (induction n rule: dec_digits.induct)
  case (1 n)
  show ?case
  proof (cases "n < 10")
    case True
    then show ?thesis
      by (simp add: dec_digits.simps [of n] digits_val_def digit_val_def)
  next
    case False
    with 1 have "digits_val (dec_digits (n div 10)) = n div 10" by simp
    with False show ?thesis
      by (simp add: dec_digits.simps [of n] digits_val_snoc digit_val_char_of)
  qed
qed

lemma dec_digits_nonempty [simp]: "dec_digits n \<noteq> []"
  by (subst dec_digits.simps) simp

lemma digit_not_space: "is_digit c \<Longrightarrow> \<not> is_space c"
  by (auto simp: is_digit_def is_space_def Let_def)

lemma digit_not_sign: "is_digit c \<Longrightarrow> c \<noteq> CHR ''-'' \<and> c \<noteq> CHR ''+''"
  by (auto simp: is_digit_def)

lemma strtoul_digits:
  assumes "ds \<noteq> []" and "\<forall>c \<in> set ds. is_digit c"
  shows "strtoul ds = (if 2 ^ 64 \<le> digits_val ds then (- 1, ERANGE, []) else (of_nat (digits_val ds), 0, []))"
proof -
  obtain c cs where ds: "ds = c # cs" using assms(1) by (cases ds) auto
  have c: "is_digit c" using assms(2) ds by simp
  have "dropWhile is_space ds = ds" using digit_not_space [OF c] by (simp add: ds)
  moreover have "takeWhile is_digit ds = ds" "dropWhile is_digit ds = []"
    using assms(2) by (simp_all add: takeWhile_eq_all_conv dropWhile_eq_Nil_conv)
  ultimately show ?thesis
    using digit_not_sign [OF c] ds unfolding strtoul_def by (simp add: Let_def)
qed

lemma parse_stack_size_dec:
  "parse_stack_size (Some (dec_digits n)) =
     (if 0 < n \<and> n < 2 ^ 64 then of_nat n else RR_DEFAULT_STACK_SIZE)"
proof -
  have *: "strtoul (dec_digits n) = (if 2 ^ 64 \<le> n then (- 1, ERANGE, []) else (of_nat n, 0, []))"
    using strtoul_digits [OF dec_digits_nonempty digits_of_dec] by (simp add: digits_val_dec)
  have "0 < (of_nat n :: u64)" if "0 < n" "n < 2 ^ 64"
    using that by (simp add: word_less_nat_alt unat_of_nat)
  then show ?thesis
    by (auto simp: parse_stack_size_def *)
qed

lemma RR_DEFAULT_STACK_SIZE_pos: "0 < RR_DEFAULT_STACK_SIZE"
  by (simp add: RR_DEFAULT_STACK_SIZE_def)

lemma parse_stack_size_pos: "0 < parse_stack_size e"
  using RR_DEFAULT_STACK_SIZE_pos
  by (auto simp: parse_stack_size_def split: option.split prod.split)

section \<open>Properties of the configuration\<close>

text \<open>C30. Whatever the environment holds, the library never records and replays at the same time, the
  stack size and the log path are non-empty, a decimal number in \<^verbatim>\<open>RR_STACK_SIZE\<close> is taken as the stack size exactly when
  it is positive and fits into 64 bits, and \<^verbatim>\<open>runtime_ready\<close> is not touched.\<close>

theorem parse_env_config:
  "\<not> (mode_record (rr_parse_env env c) \<and> mode_replay (rr_parse_env env c))
   \<and> 0 < stack_size (rr_parse_env env c) \<and> log_path (rr_parse_env env c) \<noteq> []
   \<and> stack_size (rr_parse_env (env(''RR_STACK_SIZE'' \<mapsto> dec_digits n)) c)
       = (if 0 < n \<and> n < 2 ^ 64 then of_nat n else RR_DEFAULT_STACK_SIZE)
   \<and> runtime_ready (rr_parse_env env c) = runtime_ready c"
  using parse_stack_size_pos [of "env ''RR_STACK_SIZE''"] parse_stack_size_dec [of n]
  by (auto simp: rr_parse_env_def split: option.split)


end
