(* ===== verification/RR_RunQueue.thy ===== *)
theory RR_RunQueue
  imports RR_Config
begin

text \<open>
  The data of \<^verbatim>\<open>scheduler.c\<close>: the thread control block \<^verbatim>\<open>uthread_t\<close>, the heap of
  control blocks, and the intrusive singly-linked run queue with its head and tail pointers.
  A pointer to a control block is an optional address (\<open>None\<close> is NULL), and dereferencing NULL
  or a freed block has no defined result. The queue operations are translated pointer by
  pointer; the locale \<open>fifo_queue\<close> is the contract the rest of the runtime relies on, and its
  interpretation shows that the linked list implements a first-in first-out queue.

  The type variable \<open>'c\<close> stands for the saved machine context (\<^verbatim>\<open>ucontext_t\<close>), which no
  operation of this theory inspects.
\<close>

section \<open>Control blocks and the scheduler state\<close>

type_synonym utp = "nat option"

datatype ut_state_t = UT_RUNNABLE | UT_RUNNING | UT_BLOCKED | UT_DONE

record 'c uthread_t =
  ut_id :: u64
  ut_state :: ut_state_t
  ut_ctx :: "'c option"
  ut_stack :: u64
  ut_stack_size :: u64
  ut_tls_block :: u64
  ut_join_waiter :: utp
  ut_retval :: u64
  ut_next :: utp
  ut_io_result :: i32
  ut_io_data_len :: u32
  ut_io_data :: "u8 list"
  ut_start_fn :: u64
  ut_start_arg :: u64
  ut_stack_map :: u64
  ut_stack_map_size :: u64

text \<open>A zeroed control block, as \<^verbatim>\<open>calloc\<close> returns it.\<close>

definition ut_zero :: "'c uthread_t" where
  "ut_zero = \<lparr> ut_id = 0, ut_state = UT_RUNNABLE, ut_ctx = None, ut_stack = 0, ut_stack_size = 0,
     ut_tls_block = 0, ut_join_waiter = None, ut_retval = 0, ut_next = None, ut_io_result = 0,
     ut_io_data_len = 0, ut_io_data = replicate 64 0, ut_start_fn = 0, ut_start_arg = 0,
     ut_stack_map = 0, ut_stack_map_size = 0 \<rparr>"

record 'c sched =
  ut_heap :: "nat \<Rightarrow> 'c uthread_t option"
  ut_brk :: nat
  g_runq_head :: utp
  g_runq_tail :: utp
  g_current :: utp
  g_sched_stack :: u64
  g_sched_running :: bool
  g_threads :: "utp list"
  g_threads_cap :: nat

definition sched_init :: "'c sched" where
  "sched_init = \<lparr> ut_heap = Map.empty, ut_brk = 1, g_runq_head = None, g_runq_tail = None,
     g_current = None, g_sched_stack = 0, g_sched_running = False, g_threads = [], g_threads_cap = 0 \<rparr>"

definition deref :: "'c sched \<Rightarrow> utp \<Rightarrow> 'c uthread_t option" where
  "deref s p = (case p of None \<Rightarrow> None | Some a \<Rightarrow> ut_heap s a)"

definition ut_upd :: "utp \<Rightarrow> ('c uthread_t \<Rightarrow> 'c uthread_t) \<Rightarrow> 'c sched \<Rightarrow> 'c sched option" where
  "ut_upd p f s = (case p of None \<Rightarrow> None | Some a \<Rightarrow>
     (case ut_heap s a of None \<Rightarrow> None | Some u \<Rightarrow> Some (s\<lparr>ut_heap := (ut_heap s)(a \<mapsto> f u)\<rparr>)))"

section \<open>Queue operations\<close>

definition runq_pop_front :: "'c sched \<Rightarrow> (utp \<times> 'c sched) option" where
  "runq_pop_front s =
     (let ut = g_runq_head s in
      if ut = None then Some (None, s)
      else do {
        u \<leftarrow> deref s ut;
        let s = s\<lparr>g_runq_head := ut_next u\<rparr>;
        let s = (if g_runq_head s = None then s\<lparr>g_runq_tail := None\<rparr> else s);
        s \<leftarrow> ut_upd ut (ut_next_update (\<lambda>_. None)) s;
        Some (ut, s)
      })"

definition rr_scheduler_enqueue :: "utp \<Rightarrow> 'c sched \<Rightarrow> 'c sched option" where
  "rr_scheduler_enqueue ut s =
     (if ut = None then Some s
      else do {
        s \<leftarrow> ut_upd ut (ut_next_update (\<lambda>_. None)) s;
        if g_runq_tail s = None then Some (s\<lparr>g_runq_head := ut, g_runq_tail := ut\<rparr>)
        else do {
          s \<leftarrow> ut_upd (g_runq_tail s) (ut_next_update (\<lambda>_. ut)) s;
          Some (s\<lparr>g_runq_tail := ut\<rparr>)
        }
      })"

definition rr_scheduler_current :: "'c sched \<Rightarrow> utp" where
  "rr_scheduler_current s = g_current s"

definition rr_scheduler_set_current :: "utp \<Rightarrow> 'c sched \<Rightarrow> 'c sched" where
  "rr_scheduler_set_current ut s = s\<lparr>g_current := ut\<rparr>"

section \<open>The registry\<close>

text \<open>The loop of \<^verbatim>\<open>rr_scheduler_find\<close> over \<^verbatim>\<open>g_threads\<close>: the outer option is the defined
  result, the inner one the pointer returned.\<close>

fun find_from :: "'c sched \<Rightarrow> u64 \<Rightarrow> utp list \<Rightarrow> utp option" where
  "find_from s i [] = Some None"
| "find_from s i (None # ps) = find_from s i ps"
| "find_from s i (Some a # ps) =
     (case ut_heap s a of None \<Rightarrow> None
      | Some u \<Rightarrow> if ut_id u = i then Some (Some a) else find_from s i ps)"

definition rr_scheduler_find :: "u64 \<Rightarrow> 'c sched \<Rightarrow> utp option" where
  "rr_scheduler_find i s = find_from s i (g_threads s)"

definition rr_scheduler_unregister_all :: "'c sched \<Rightarrow> 'c sched" where
  "rr_scheduler_unregister_all s = s\<lparr>g_threads := [], g_threads_cap := 0\<rparr>"

text \<open>\<open>data\<close> is the source range of the copy, \<open>None\<close> for NULL.\<close>

definition rr_scheduler_wake_by_id ::
  "u64 \<Rightarrow> i32 \<Rightarrow> u8 list option \<Rightarrow> u32 \<Rightarrow> 'c sched \<Rightarrow> 'c sched option" where
  "rr_scheduler_wake_by_id i io_result data data_len s =
     do {
       ut \<leftarrow> rr_scheduler_find i s;
       if ut = None then Some s
       else do {
         u \<leftarrow> deref s ut;
         if ut_state u \<noteq> UT_BLOCKED then Some s
         else do {
           s \<leftarrow> ut_upd ut (\<lambda>u. u\<lparr>ut_io_result := io_result, ut_io_data_len := 0\<rparr>) s;
           s \<leftarrow> (case data of
                   None \<Rightarrow> Some s
                 | Some bs \<Rightarrow>
                     if 0 < data_len then
                       (let copy_len = (if 64 < data_len then 64 else data_len)
                        in ut_upd ut (\<lambda>u. u\<lparr>ut_io_data := take (unat copy_len) bs @ drop (unat copy_len) (ut_io_data u),
                                             ut_io_data_len := copy_len\<rparr>) s)
                     else Some s);
           s \<leftarrow> ut_upd ut (ut_state_update (\<lambda>_. UT_RUNNABLE)) s;
           rr_scheduler_enqueue ut s
         }
       }
     }"

section \<open>State changes of the running thread\<close>

text \<open>
  The part of \<^verbatim>\<open>rr_scheduler_yield_current\<close>, \<^verbatim>\<open>rr_scheduler_block_current\<close> and
  \<^verbatim>\<open>rr_scheduler_exit_current\<close> before \<^verbatim>\<open>swapcontext\<close>. The Boolean tells whether the
  function went on to \<^verbatim>\<open>swapcontext\<close>; \<open>ctx\<close> is the context that the swap saves.
\<close>

definition rr_scheduler_yield_current :: "'c \<Rightarrow> 'c sched \<Rightarrow> (bool \<times> 'c sched) option" where
  "rr_scheduler_yield_current ctx s =
     (let cur = g_current s in
      if cur = None \<or> \<not> g_sched_running s then Some (False, s)
      else do {
        s \<leftarrow> ut_upd cur (ut_state_update (\<lambda>_. UT_RUNNABLE)) s;
        s \<leftarrow> rr_scheduler_enqueue cur s;
        s \<leftarrow> ut_upd cur (ut_ctx_update (\<lambda>_. Some ctx)) s;
        Some (True, s)
      })"

definition rr_scheduler_block_current :: "'c \<Rightarrow> 'c sched \<Rightarrow> (bool \<times> 'c sched) option" where
  "rr_scheduler_block_current ctx s =
     (let cur = g_current s in
      if cur = None \<or> \<not> g_sched_running s then Some (False, s)
      else do {
        s \<leftarrow> ut_upd cur (ut_state_update (\<lambda>_. UT_BLOCKED)) s;
        s \<leftarrow> ut_upd cur (ut_ctx_update (\<lambda>_. Some ctx)) s;
        Some (True, s)
      })"

text \<open>The test for a joining thread in \<^verbatim>\<open>rr_scheduler_exit_current\<close>.\<close>

definition wake_joiner :: "utp \<Rightarrow> 'c sched \<Rightarrow> 'c sched option" where
  "wake_joiner jw s =
     (if jw = None then Some s
      else do {
        w \<leftarrow> deref s jw;
        if ut_state w = UT_BLOCKED then do {
          s \<leftarrow> ut_upd jw (ut_state_update (\<lambda>_. UT_RUNNABLE)) s;
          rr_scheduler_enqueue jw s
        } else Some s
      })"

definition rr_scheduler_exit_current :: "'c \<Rightarrow> u64 \<Rightarrow> 'c sched \<Rightarrow> (bool \<times> 'c sched) option" where
  "rr_scheduler_exit_current ctx retval s =
     (let cur = g_current s in
      if cur = None \<or> \<not> g_sched_running s then Some (False, s)
      else do {
        s \<leftarrow> ut_upd cur (\<lambda>u. u\<lparr>ut_retval := retval, ut_state := UT_DONE\<rparr>) s;
        u \<leftarrow> deref s cur;
        s \<leftarrow> wake_joiner (ut_join_waiter u) s;
        s \<leftarrow> ut_upd cur (ut_ctx_update (\<lambda>_. Some ctx)) s;
        Some (True, s)
      })"

text \<open>The two assignments of \<^verbatim>\<open>scheduler_loop\<close> that make \<open>next\<close> the running thread.\<close>

definition make_current :: "utp \<Rightarrow> 'c sched \<Rightarrow> 'c sched option" where
  "make_current next s = ut_upd next (ut_state_update (\<lambda>_. UT_RUNNING)) (rr_scheduler_set_current next s)"

section \<open>The linked list as a list\<close>

text \<open>\<open>chain nx p xs\<close>: following \<open>nx\<close> from \<open>p\<close> visits exactly \<open>xs\<close> and ends in NULL.\<close>

primrec chain :: "(nat \<Rightarrow> utp) \<Rightarrow> utp \<Rightarrow> nat list \<Rightarrow> bool" where
  "chain nx p [] = (p = None)"
| "chain nx p (a # as) = (p = Some a \<and> chain nx (nx a) as)"

definition next_of :: "'c sched \<Rightarrow> nat \<Rightarrow> utp" where
  "next_of s a = Option.bind (ut_heap s a) ut_next"

definition runq :: "'c sched \<Rightarrow> nat list \<Rightarrow> bool" where
  "runq s xs \<longleftrightarrow> chain (next_of s) (g_runq_head s) xs
     \<and> g_runq_tail s = (if xs = [] then None else Some (last xs))
     \<and> set xs \<subseteq> dom (ut_heap s)"

text \<open>What a control block is apart from its queue link, and the states that differ in links and
  queue ends only.\<close>

definition unlinked :: "(nat \<Rightarrow> 'c uthread_t option) \<Rightarrow> nat \<Rightarrow> 'c uthread_t option" where
  "unlinked h a = map_option (ut_next_update (\<lambda>_. None)) (h a)"

definition links_only :: "'c sched \<Rightarrow> 'c sched \<Rightarrow> bool" where
  "links_only s s' \<longleftrightarrow> (\<exists>h p t. s' = s\<lparr>ut_heap := h, g_runq_head := p, g_runq_tail := t\<rparr>
     \<and> unlinked h = unlinked (ut_heap s))"

lemma chain_unique: "chain nx p xs \<Longrightarrow> chain nx p ys \<Longrightarrow> xs = ys"
proof (induction xs arbitrary: p ys)
  case Nil
  then show ?case by (cases ys) auto
next
  case (Cons a xs)
  then show ?case by (cases ys) auto
qed

lemma chain_append: "chain nx p (xs @ a # ys) \<Longrightarrow> chain nx (Some a) (a # ys)"
  by (induction xs arbitrary: p) auto

lemma chain_distinct: "chain nx p xs \<Longrightarrow> distinct xs"
proof (induction xs arbitrary: p)
  case Nil
  then show ?case by simp
next
  case (Cons a xs)
  have "a \<notin> set xs"
  proof
    assume "a \<in> set xs"
    then obtain us vs where xs: "xs = us @ a # vs" by (meson split_list)
    from Cons.prems have "chain nx (nx a) (us @ a # vs)" and "chain nx (Some a) (a # xs)"
      by (simp_all add: xs)
    then have "chain nx (Some a) (a # vs)" and "chain nx (Some a) (a # xs)"
      by (blast intro: chain_append)+
    then have "vs = xs" by (blast dest: chain_unique)
    with xs show False by simp
  qed
  with Cons show ?case by auto
qed

lemma chain_cong: "(\<And>a. a \<in> set xs \<Longrightarrow> nx a = nx' a) \<Longrightarrow> chain nx p xs = chain nx' p xs"
  by (induction xs arbitrary: p) auto

lemma chain_upd [simp]: "a \<notin> set xs \<Longrightarrow> chain (nx(a := q)) p xs = chain nx p xs"
  by (rule chain_cong) auto

lemma chain_snoc:
  assumes "chain nx p xs" and "xs \<noteq> []" and "a \<notin> set xs"
  shows "chain (nx(a := None, last xs := Some a)) p (xs @ [a])"
  using assms
proof (induction xs arbitrary: p)
  case Nil
  then show ?case by simp
next
  case (Cons b xs)
  show ?case
  proof (cases "xs = []")
    case True
    with Cons.prems show ?thesis by auto
  next
    case False
    have "distinct (b # xs)" using Cons.prems(1) by (rule chain_distinct)
    then have "b \<noteq> last xs" using False by auto
    moreover have "b \<noteq> a" using Cons.prems(3) by auto
    ultimately show ?thesis using Cons False by auto
  qed
qed

section \<open>Facts about single updates\<close>

lemma deref_Some [simp]: "deref s (Some a) = ut_heap s a"
  by (simp add: deref_def)

lemma deref_None [simp]: "deref s None = None"
  by (simp add: deref_def)

lemma ut_upd_Some [simp]:
  "ut_heap s a = Some u \<Longrightarrow> ut_upd (Some a) f s = Some (s\<lparr>ut_heap := (ut_heap s)(a \<mapsto> f u)\<rparr>)"
  by (simp add: ut_upd_def)

lemma next_of_upd:
  "next_of (s\<lparr>ut_heap := (ut_heap s)(a \<mapsto> u)\<rparr>) = (next_of s)(a := ut_next u)"
  by (auto simp: next_of_def)

lemma next_of_cong: "ut_heap s = ut_heap s' \<Longrightarrow> next_of s = next_of s'"
  by (simp add: next_of_def fun_eq_iff)

lemma unlinked_link [simp]: "h a = Some u \<Longrightarrow> unlinked (h(a \<mapsto> u\<lparr>ut_next := p\<rparr>)) = unlinked h"
  by (rule ext) (auto simp: unlinked_def)

lemma unlinked_field:
  assumes "unlinked h = unlinked h'" and "\<And>u. f (u\<lparr>ut_next := None\<rparr>) = f u"
  shows "map_option f (h a) = map_option f (h' a)"
proof -
  have "map_option f (unlinked h a) = map_option f (h a)" for h
    using assms(2) by (cases "h a") (simp_all add: unlinked_def)
  with assms(1) show ?thesis by metis
qed

lemma unlinked_dom: "unlinked h = unlinked h' \<Longrightarrow> dom h = dom h'"
proof -
  have "dom (unlinked h) = dom h" for h :: "nat \<Rightarrow> 'a uthread_t option"
    by (auto simp: unlinked_def)
  then show "unlinked h = unlinked h' \<Longrightarrow> dom h = dom h'" by metis
qed

lemma links_only_refl [simp]: "links_only s s"
proof -
  have "s = s\<lparr>ut_heap := ut_heap s, g_runq_head := g_runq_head s, g_runq_tail := g_runq_tail s\<rparr>" by simp
  then show ?thesis unfolding links_only_def by blast
qed

lemma links_onlyI:
  "unlinked h = unlinked (ut_heap s) \<Longrightarrow> links_only s (s\<lparr>ut_heap := h, g_runq_head := p, g_runq_tail := t\<rparr>)"
  by (auto simp: links_only_def)

lemma links_only_frame:
  assumes "links_only s s'"
  shows "ut_brk s' = ut_brk s" "g_current s' = g_current s" "g_sched_stack s' = g_sched_stack s"
    "g_sched_running s' = g_sched_running s" "g_threads s' = g_threads s" "g_threads_cap s' = g_threads_cap s"
    "unlinked (ut_heap s') = unlinked (ut_heap s)" "dom (ut_heap s') = dom (ut_heap s)"
proof -
  obtain h p t where s': "s' = s\<lparr>ut_heap := h, g_runq_head := p, g_runq_tail := t\<rparr>"
    and h: "unlinked h = unlinked (ut_heap s)"
    using assms by (auto simp: links_only_def)
  show "ut_brk s' = ut_brk s" "g_current s' = g_current s" "g_sched_stack s' = g_sched_stack s"
    "g_sched_running s' = g_sched_running s" "g_threads s' = g_threads s" "g_threads_cap s' = g_threads_cap s"
    "unlinked (ut_heap s') = unlinked (ut_heap s)" "dom (ut_heap s') = dom (ut_heap s)"
    using h unlinked_dom [OF h] by (simp_all add: s')
qed

section \<open>The queue operations on the list\<close>

lemma runq_unique: "runq s xs \<Longrightarrow> runq s ys \<Longrightarrow> xs = ys"
  by (auto simp: runq_def dest: chain_unique)

lemma runq_distinct: "runq s xs \<Longrightarrow> distinct xs"
  by (auto simp: runq_def dest: chain_distinct)

lemma runq_cong:
  assumes "runq s xs" and "g_runq_head s' = g_runq_head s" and "g_runq_tail s' = g_runq_tail s"
    and "dom (ut_heap s') = dom (ut_heap s)" and "\<And>a. a \<in> set xs \<Longrightarrow> next_of s' a = next_of s a"
  shows "runq s' xs"
  using assms chain_cong [of xs "next_of s'" "next_of s"] by (simp add: runq_def)

lemma enqueue_empty:
  assumes "runq s []" and "ut_heap s a = Some u"
  shows "rr_scheduler_enqueue (Some a) s = Some (s\<lparr>ut_heap := (ut_heap s)(a \<mapsto> u\<lparr>ut_next := None\<rparr>),
    g_runq_head := Some a, g_runq_tail := Some a\<rparr>)"
  using assms by (simp add: rr_scheduler_enqueue_def runq_def)

lemma enqueue_nonempty:
  assumes "runq s xs" and "xs \<noteq> []" and "a \<notin> set xs" and "ut_heap s a = Some u" and "ut_heap s (last xs) = Some v"
  shows "rr_scheduler_enqueue (Some a) s = Some (s\<lparr>ut_heap := (ut_heap s)(a \<mapsto> u\<lparr>ut_next := None\<rparr>,
    last xs \<mapsto> v\<lparr>ut_next := Some a\<rparr>), g_runq_tail := Some a\<rparr>)"
proof -
  have "last xs \<noteq> a" using assms(2,3) by auto
  then show ?thesis using assms by (simp add: rr_scheduler_enqueue_def runq_def)
qed

lemma enqueue_runq:
  assumes q: "runq s xs" and dom: "a \<in> dom (ut_heap s)" and new: "a \<notin> set xs"
  shows "\<exists>s'. rr_scheduler_enqueue (Some a) s = Some s' \<and> runq s' (xs @ [a]) \<and> links_only s s'"
proof (cases "xs = []")
  case True
  obtain u where u: "ut_heap s a = Some u" using dom by auto
  define s' where "s' = s\<lparr>ut_heap := (ut_heap s)(a \<mapsto> u\<lparr>ut_next := None\<rparr>), g_runq_head := Some a, g_runq_tail := Some a\<rparr>"
  have "rr_scheduler_enqueue (Some a) s = Some s'"
    using enqueue_empty u q True by (simp add: s'_def)
  moreover have "runq s' (xs @ [a])" by (simp add: True runq_def s'_def next_of_def)
  moreover have "links_only s s'" unfolding s'_def using u by (intro links_onlyI) simp
  ultimately show ?thesis by blast
next
  case False
  obtain u where u: "ut_heap s a = Some u" using dom by auto
  have "last xs \<in> dom (ut_heap s)" using q last_in_set [OF False] unfolding runq_def by blast
  then obtain v where v: "ut_heap s (last xs) = Some v" by auto
  have ne: "last xs \<noteq> a" using False new by auto
  define h where "h = (ut_heap s)(a \<mapsto> u\<lparr>ut_next := None\<rparr>, last xs \<mapsto> v\<lparr>ut_next := Some a\<rparr>)"
  define s' where "s' = s\<lparr>ut_heap := h, g_runq_head := g_runq_head s, g_runq_tail := Some a\<rparr>"
  have "rr_scheduler_enqueue (Some a) s = Some s'"
    using enqueue_nonempty [OF q False new u v] by (simp add: s'_def h_def)
  moreover have "next_of s' = (next_of s)(a := None, last xs := Some a)"
    using ne by (auto simp: s'_def h_def next_of_def)
  with q False new have "runq s' (xs @ [a])"
    using chain_snoc [of "next_of s" "g_runq_head s" xs a] u v by (auto simp: runq_def s'_def h_def)
  moreover have "unlinked h = unlinked (ut_heap s)"
    using u v ne by (simp add: h_def)
  then have "links_only s s'" unfolding s'_def by (rule links_onlyI)
  ultimately show ?thesis by blast
qed

lemma pop_empty: "runq s [] \<Longrightarrow> runq_pop_front s = Some (None, s)"
  by (simp add: runq_pop_front_def runq_def)

lemma pop_runq:
  assumes q: "runq s (a # xs)"
  shows "\<exists>s'. runq_pop_front s = Some (Some a, s') \<and> runq s' xs \<and> links_only s s'"
proof -
  obtain u where u: "ut_heap s a = Some u" using q by (auto simp: runq_def)
  have hd: "g_runq_head s = Some a" and ch: "chain (next_of s) (ut_next u) xs"
    using q u by (simp_all add: runq_def next_of_def)
  have nin: "a \<notin> set xs" using runq_distinct [OF q] by simp
  define t where "t = (if ut_next u = None then None else g_runq_tail s)"
  define s' where "s' = s\<lparr>ut_heap := (ut_heap s)(a \<mapsto> u\<lparr>ut_next := None\<rparr>), g_runq_head := ut_next u, g_runq_tail := t\<rparr>"
  have emp: "ut_next u = None \<longleftrightarrow> xs = []" using ch by (cases xs) auto
  have "runq_pop_front s = Some (Some a, s')"
    using hd u by (cases "ut_next u") (simp_all add: runq_pop_front_def s'_def t_def Let_def)
  moreover have "next_of s' = (next_of s)(a := None)" by (auto simp: s'_def next_of_def)
  with ch nin have "chain (next_of s') (ut_next u) xs" by simp
  with q emp have "runq s' xs" by (auto simp: runq_def s'_def t_def)
  moreover have "links_only s s'" unfolding s'_def using u by (intro links_onlyI) simp
  ultimately show ?thesis by blast
qed

section \<open>The contract: a first-in first-out queue\<close>

text \<open>Generic clients: enqueue a list of elements, and dequeue a given number of them.\<close>

primrec enq_all :: "('a \<Rightarrow> 'q \<Rightarrow> 'q option) \<Rightarrow> 'a list \<Rightarrow> 'q \<Rightarrow> 'q option" where
  "enq_all enq [] q = Some q"
| "enq_all enq (x # xs) q = do { q \<leftarrow> enq x q; enq_all enq xs q }"

primrec deq_n :: "('q \<Rightarrow> ('a option \<times> 'q) option) \<Rightarrow> nat \<Rightarrow> 'q \<Rightarrow> ('a option list \<times> 'q) option" where
  "deq_n deq 0 q = Some ([], q)"
| "deq_n deq (Suc n) q = do { (x, q) \<leftarrow> deq q; (xs, q) \<leftarrow> deq_n deq n q; Some (x # xs, q) }"

locale fifo_queue =
  fixes enq :: "'a \<Rightarrow> 'q \<Rightarrow> 'q option"
    and deq :: "'q \<Rightarrow> ('a option \<times> 'q) option"
    and rep :: "'q \<Rightarrow> 'a list \<Rightarrow> bool"
    and valid :: "'q \<Rightarrow> 'a set"
  assumes rep_unique: "rep q xs \<Longrightarrow> rep q ys \<Longrightarrow> xs = ys"
    and rep_distinct: "rep q xs \<Longrightarrow> distinct xs"
    and enq_rep: "rep q xs \<Longrightarrow> x \<in> valid q \<Longrightarrow> x \<notin> set xs \<Longrightarrow>
      \<exists>q'. enq x q = Some q' \<and> rep q' (xs @ [x]) \<and> valid q' = valid q"
    and deq_Nil: "rep q [] \<Longrightarrow> deq q = Some (None, q)"
    and deq_Cons: "rep q (x # xs) \<Longrightarrow> \<exists>q'. deq q = Some (Some x, q') \<and> rep q' xs \<and> valid q' = valid q"
begin

lemma enq_all_rep:
  "rep q xs \<Longrightarrow> set ys \<subseteq> valid q \<Longrightarrow> distinct (xs @ ys) \<Longrightarrow>
   \<exists>q'. enq_all enq ys q = Some q' \<and> rep q' (xs @ ys) \<and> valid q' = valid q"
proof (induction ys arbitrary: q xs)
  case Nil
  then show ?case by simp
next
  case (Cons y ys)
  then obtain q1 where q1: "enq y q = Some q1" "rep q1 (xs @ [y])" "valid q1 = valid q"
    using enq_rep [of q xs y] by auto
  with Cons.prems Cons.IH [of q1 "xs @ [y]"] show ?case by auto
qed

lemma deq_n_rep:
  "rep q (xs @ ys) \<Longrightarrow> \<exists>q'. deq_n deq (length xs) q = Some (map Some xs, q') \<and> rep q' ys \<and> valid q' = valid q"
proof (induction xs arbitrary: q)
  case Nil
  then show ?case by simp
next
  case (Cons x xs)
  then obtain q1 where q1: "deq q = Some (Some x, q1)" "rep q1 (xs @ ys)" "valid q1 = valid q"
    using deq_Cons [of q x "xs @ ys"] by auto
  with Cons.IH [of q1] show ?case by auto
qed

lemma fifo_order:
  assumes "rep q []" and "set ys \<subseteq> valid q" and "distinct ys"
  shows "\<exists>q' q''. enq_all enq ys q = Some q' \<and> deq_n deq (length ys) q' = Some (map Some ys, q'') \<and> rep q'' []"
proof -
  obtain q' where q': "enq_all enq ys q = Some q'" "rep q' ([] @ ys)"
    using enq_all_rep [of q "[]" ys] assms by auto
  then show ?thesis using deq_n_rep [of q' ys "[]"] by auto
qed

end

interpretation rq: fifo_queue "\<lambda>a. rr_scheduler_enqueue (Some a)" runq_pop_front runq "\<lambda>s. dom (ut_heap s)"
proof unfold_locales
  show "runq q xs \<Longrightarrow> runq q ys \<Longrightarrow> xs = ys" for q :: "'a sched" and xs ys
    by (rule runq_unique)
  show "runq q xs \<Longrightarrow> distinct xs" for q :: "'a sched" and xs
    by (rule runq_distinct)
  show "runq q [] \<Longrightarrow> runq_pop_front q = Some (None, q)" for q :: "'a sched"
    by (rule pop_empty)
next
  fix q :: "'a sched" and xs x
  assume "runq q xs" "x \<in> dom (ut_heap q)" "x \<notin> set xs"
  then show "\<exists>q'. rr_scheduler_enqueue (Some x) q = Some q' \<and> runq q' (xs @ [x]) \<and> dom (ut_heap q') = dom (ut_heap q)"
    using enqueue_runq links_only_frame(8) by blast
next
  fix q :: "'a sched" and x xs
  assume "runq q (x # xs)"
  then show "\<exists>q'. runq_pop_front q = Some (Some x, q') \<and> runq q' xs \<and> dom (ut_heap q') = dom (ut_heap q)"
    using pop_runq links_only_frame(8) by blast
qed

section \<open>Property of the run queue\<close>

text \<open>C16. The intrusive linked list is a FIFO queue: queueing any distinct threads with live control blocks on an empty
  run queue never fails, and popping as many times returns them in the order they were queued and leaves the
  queue empty.\<close>

theorem run_queue_fifo:
  assumes "runq s []" and "set as \<subseteq> dom (ut_heap s)" and "distinct as"
  shows "\<exists>s' s''. enq_all (\<lambda>a. rr_scheduler_enqueue (Some a)) as s = Some s'
    \<and> deq_n runq_pop_front (length as) s' = Some (map Some as, s'') \<and> runq s'' []"
  using assms by (rule rq.fifo_order)

theorem run_queue_fifo_witness:
  "\<exists>s' s''. enq_all (\<lambda>a. rr_scheduler_enqueue (Some a)) [2, 1]
       ((sched_init :: nat sched)\<lparr>ut_heap := [1 \<mapsto> ut_zero, 2 \<mapsto> ut_zero]\<rparr>) = Some s'
    \<and> deq_n runq_pop_front 2 s' = Some ([Some 2, Some 1], s'') \<and> runq s'' []"
  using run_queue_fifo [of "(sched_init :: nat sched)\<lparr>ut_heap := [1 \<mapsto> ut_zero, 2 \<mapsto> ut_zero]\<rparr>" "[2, 1]"]
  by (simp add: runq_def sched_init_def eval_nat_numeral)

end
