(* ===== verification/RR_SchedSpec.thy ===== *)
theory RR_SchedSpec
  imports RR_RunQueue
begin

text \<open>
  What the scheduler promises, and that \<^verbatim>\<open>scheduler.c\<close> keeps it. The abstract scheduler has a
  list of runnable threads, a state per thread, the current thread and who waits for whom; its
  operations are one line each. \<open>refines\<close> relates a concrete scheduler state (heap, links,
  queue ends) to the abstract one, and every concrete operation is shown to be defined and to
  refine its abstract counterpart. The invariant and the bounded-waiting property are proved on
  the abstract system, by rule induction over its step relation.
\<close>

section \<open>The abstract scheduler\<close>

record aspec =
  aq :: "nat list"
  ast :: "nat \<Rightarrow> ut_state_t option"
  acur :: utp
  ajw :: "nat \<Rightarrow> utp"
  aret :: "nat \<Rightarrow> u64 option"

definition spec_yield :: "nat \<Rightarrow> aspec \<Rightarrow> aspec" where
  "spec_yield c A = A\<lparr>ast := (ast A)(c \<mapsto> UT_RUNNABLE), aq := aq A @ [c]\<rparr>"

definition spec_block :: "nat \<Rightarrow> aspec \<Rightarrow> aspec" where
  "spec_block c A = A\<lparr>ast := (ast A)(c \<mapsto> UT_BLOCKED)\<rparr>"

definition spec_wake :: "nat \<Rightarrow> aspec \<Rightarrow> aspec" where
  "spec_wake a A = (if ast A a = Some UT_BLOCKED
     then A\<lparr>ast := (ast A)(a \<mapsto> UT_RUNNABLE), aq := aq A @ [a]\<rparr> else A)"

definition spec_exit :: "nat \<Rightarrow> u64 \<Rightarrow> aspec \<Rightarrow> aspec" where
  "spec_exit c v A =
     (let A' = A\<lparr>ast := (ast A)(c \<mapsto> UT_DONE), aret := (aret A)(c \<mapsto> v)\<rparr>
      in case ajw A c of None \<Rightarrow> A' | Some w \<Rightarrow> spec_wake w A')"

definition spec_dispatch :: "nat \<Rightarrow> aspec \<Rightarrow> aspec" where
  "spec_dispatch c A = A\<lparr>aq := tl (aq A), acur := Some c, ast := (ast A)(c \<mapsto> UT_RUNNING)\<rparr>"

definition spec_spawn :: "nat \<Rightarrow> aspec \<Rightarrow> aspec" where
  "spec_spawn a A = A\<lparr>ast := (ast A)(a \<mapsto> UT_RUNNABLE), ajw := (ajw A)(a := None),
     aret := (aret A)(a \<mapsto> 0), aq := aq A @ [a]\<rparr>"

definition spec_joinwait :: "nat \<Rightarrow> nat \<Rightarrow> aspec \<Rightarrow> aspec" where
  "spec_joinwait t c A = A\<lparr>ajw := (ajw A)(t := Some c)\<rparr>"

text \<open>The scheduler invariant: the queue holds exactly the runnable threads, each once; at most the
  current thread is running; pointers lead to live threads.\<close>

definition ainv :: "aspec \<Rightarrow> bool" where
  "ainv A \<longleftrightarrow> distinct (aq A) \<and> (\<forall>a. a \<in> set (aq A) \<longleftrightarrow> ast A a = Some UT_RUNNABLE)
     \<and> (\<forall>a. ast A a = Some UT_RUNNING \<longrightarrow> acur A = Some a)
     \<and> (\<forall>c. acur A = Some c \<longrightarrow> ast A c \<noteq> None)
     \<and> (\<forall>a w. ajw A a = Some w \<longrightarrow> ast A w \<noteq> None)"

definition arunning :: "aspec \<Rightarrow> nat \<Rightarrow> bool" where
  "arunning A c \<longleftrightarrow> acur A = Some c \<and> ast A c = Some UT_RUNNING"

definition aidle :: "aspec \<Rightarrow> bool" where
  "aidle A \<longleftrightarrow> (\<forall>a. ast A a \<noteq> Some UT_RUNNING)"

section \<open>Its steps\<close>

datatype slabel = AYield nat | ABlock nat | AExit nat u64 | AWake nat | ADispatch nat | ASpawn nat | AJoin nat nat

inductive astep :: "aspec \<Rightarrow> slabel \<Rightarrow> aspec \<Rightarrow> bool" where
  yield: "arunning A c \<Longrightarrow> astep A (AYield c) (spec_yield c A)"
| block: "arunning A c \<Longrightarrow> astep A (ABlock c) (spec_block c A)"
| exit: "arunning A c \<Longrightarrow> astep A (AExit c v) (spec_exit c v A)"
| spawn: "arunning A c \<Longrightarrow> a \<notin> dom (ast A) \<Longrightarrow> astep A (ASpawn a) (spec_spawn a A)"
| joinwait: "arunning A c \<Longrightarrow> t \<in> dom (ast A) \<Longrightarrow> astep A (AJoin t c) (spec_joinwait t c A)"
| wake: "aidle A \<Longrightarrow> a \<in> dom (ast A) \<Longrightarrow> astep A (AWake a) (spec_wake a A)"
| dispatch: "aidle A \<Longrightarrow> aq A = c # cs \<Longrightarrow> astep A (ADispatch c) (spec_dispatch c A)"

inductive_cases astepE: "astep A l A'"

inductive arun :: "aspec \<Rightarrow> slabel list \<Rightarrow> aspec \<Rightarrow> bool" where
  nil: "arun A [] A"
| cons: "astep A l A1 \<Longrightarrow> arun A1 ls A2 \<Longrightarrow> arun A (l # ls) A2"

inductive_cases arun_NilE [elim!]: "arun A [] A'"
inductive_cases arun_ConsE [elim!]: "arun A (l # ls) A'"

section \<open>The invariant\<close>

lemmas spec_defs = spec_yield_def spec_block_def spec_exit_def spec_wake_def spec_dispatch_def
  spec_spawn_def spec_joinwait_def Let_def

lemma ainv_wake: "ainv A \<Longrightarrow> ainv (spec_wake a A)"
  by (auto simp: ainv_def spec_wake_def)

lemma ainv_done:
  assumes "ainv A" and "arunning A c"
  shows "ainv (A\<lparr>ast := (ast A)(c \<mapsto> UT_DONE), aret := r\<rparr>)"
  using assms by (auto simp: ainv_def arunning_def)

lemma ainv_exit: "ainv A \<Longrightarrow> arunning A c \<Longrightarrow> ainv (spec_exit c v A)"
  by (auto simp: spec_exit_def Let_def intro!: ainv_wake ainv_done split: option.split)

lemma ainv_yield: "ainv A \<Longrightarrow> arunning A c \<Longrightarrow> ainv (spec_yield c A)"
  by (auto simp: ainv_def arunning_def spec_yield_def)

lemma ainv_block: "ainv A \<Longrightarrow> arunning A c \<Longrightarrow> ainv (spec_block c A)"
  by (auto simp: ainv_def arunning_def spec_block_def)

lemma ainv_spawn: "ainv A \<Longrightarrow> a \<notin> dom (ast A) \<Longrightarrow> ainv (spec_spawn a A)"
  by (auto simp: ainv_def spec_spawn_def)

lemma ainv_joinwait: "ainv A \<Longrightarrow> c \<in> dom (ast A) \<Longrightarrow> ainv (spec_joinwait t c A)"
  by (auto simp: ainv_def spec_joinwait_def)

lemma ainv_dispatch:
  assumes "ainv A" and "aidle A" and "aq A = c # cs"
  shows "ainv (spec_dispatch c A)"
  using assms by (fastforce simp: ainv_def aidle_def spec_dispatch_def)

lemma astep_inv: "astep A l A' \<Longrightarrow> ainv A \<Longrightarrow> ainv A'"
proof (induction rule: astep.induct)
  case (joinwait A c t)
  then show ?case by (auto simp: arunning_def intro: ainv_joinwait)
qed (blast intro: ainv_yield ainv_block ainv_exit ainv_spawn ainv_wake ainv_dispatch)+

lemma arun_inv: "arun A ls A' \<Longrightarrow> ainv A \<Longrightarrow> ainv A'"
  by (induction rule: arun.induct) (auto intro: astep_inv)

lemma arun_append: "arun A xs B \<Longrightarrow> arun B ys C \<Longrightarrow> arun A (xs @ ys) C"
  by (induction rule: arun.induct) (auto intro: arun.intros)

lemma arun_split:
  assumes "arun A (xs @ ys) C"
  obtains B where "arun A xs B" "arun B ys C"
  using assms by (induction xs arbitrary: A thesis) (auto intro: arun.intros)

section \<open>Bounded waiting\<close>

text \<open>The threads that a run dispatches, in order.\<close>

fun dispatch_order :: "slabel list \<Rightarrow> nat list" where
  "dispatch_order [] = []"
| "dispatch_order (ADispatch c # ls) = c # dispatch_order ls"
| "dispatch_order (_ # ls) = dispatch_order ls"

lemma dispatch_order_append [simp]: "dispatch_order (xs @ ys) = dispatch_order xs @ dispatch_order ys"
  by (induction xs rule: dispatch_order.induct) simp_all

lemma spec_exit_queue: "\<exists>zs. aq (spec_exit c v A) = aq A @ zs"
  by (simp add: spec_exit_def spec_wake_def Let_def split: option.split)

text \<open>The queue is first in, first out over any run: what was queued and what is added is what is dispatched, in this
  order, and what remains.\<close>

lemma astep_fifo: "astep A l A' \<Longrightarrow> \<exists>new. aq A @ new = dispatch_order [l] @ aq A'"
proof (induction rule: astep.induct)
  case (exit A c v)
  then show ?case using spec_exit_queue [of c v A] by auto
qed (auto simp: spec_defs)

lemma arun_fifo: "arun A ls A' \<Longrightarrow> \<exists>new. aq A @ new = dispatch_order ls @ aq A'"
proof (induction rule: arun.induct)
  case (cons A l A1 ls A2)
  obtain xs ys where "aq A @ xs = dispatch_order [l] @ aq A1" "aq A1 @ ys = dispatch_order ls @ aq A2"
    using astep_fifo [OF cons.hyps(1)] cons.IH by blast
  then have "aq A @ (xs @ ys) = dispatch_order ([l] @ ls) @ aq A2" by (metis append.assoc dispatch_order_append)
  then show ?case by auto
qed simp

section \<open>The refinement relation\<close>

definition refines :: "'c sched \<Rightarrow> aspec \<Rightarrow> bool" where
  "refines s A \<longleftrightarrow> runq s (aq A) \<and> acur A = g_current s
     \<and> ast A = (\<lambda>a. map_option ut_state (ut_heap s a))
     \<and> ajw A = (\<lambda>a. Option.bind (ut_heap s a) ut_join_waiter)
     \<and> aret A = (\<lambda>a. map_option ut_retval (ut_heap s a))"

definition sched_abs :: "'c sched \<Rightarrow> nat list \<Rightarrow> aspec" where
  "sched_abs s xs = \<lparr> aq = xs, ast = (\<lambda>a. map_option ut_state (ut_heap s a)), acur = g_current s,
     ajw = (\<lambda>a. Option.bind (ut_heap s a) ut_join_waiter), aret = (\<lambda>a. map_option ut_retval (ut_heap s a)) \<rparr>"

lemma refines_abs: "runq s xs \<Longrightarrow> refines s (sched_abs s xs)"
  by (simp add: refines_def sched_abs_def)

lemma refines_unique: "refines s A \<Longrightarrow> refines s B \<Longrightarrow> A = B"
  by (rule aspec.equality) (auto simp: refines_def dest: runq_unique)

lemma refinesD:
  assumes "refines s A"
  shows "runq s (aq A)" "acur A = g_current s" "ast A a = map_option ut_state (ut_heap s a)"
    "ajw A a = Option.bind (ut_heap s a) ut_join_waiter" "aret A a = map_option ut_retval (ut_heap s a)"
    "dom (ast A) = dom (ut_heap s)"
  using assms by (auto simp: refines_def dom_def)

lemma links_only_fields:
  assumes "links_only s s'"
  shows "map_option ut_state (ut_heap s' a) = map_option ut_state (ut_heap s a)"
    and "map_option ut_retval (ut_heap s' a) = map_option ut_retval (ut_heap s a)"
    and "Option.bind (ut_heap s' a) ut_join_waiter = Option.bind (ut_heap s a) ut_join_waiter"
    and "map_option ut_id (ut_heap s' a) = map_option ut_id (ut_heap s a)"
proof -
  have u: "unlinked (ut_heap s') = unlinked (ut_heap s)" using assms by (rule links_only_frame)
  show "map_option ut_state (ut_heap s' a) = map_option ut_state (ut_heap s a)"
    and "map_option ut_retval (ut_heap s' a) = map_option ut_retval (ut_heap s a)"
    and "map_option ut_id (ut_heap s' a) = map_option ut_id (ut_heap s a)"
    by (rule unlinked_field [OF u], simp)+
  have "map_option ut_join_waiter (ut_heap s' a) = map_option ut_join_waiter (ut_heap s a)"
    by (rule unlinked_field [OF u]) simp
  then show "Option.bind (ut_heap s' a) ut_join_waiter = Option.bind (ut_heap s a) ut_join_waiter"
    by (cases "ut_heap s a"; cases "ut_heap s' a") auto
qed

lemma refines_links:
  assumes "refines s A" and "links_only s s'" and "runq s' xs"
  shows "refines s' (A\<lparr>aq := xs\<rparr>)"
  using assms links_only_fields [OF assms(2)] links_only_frame(2) [OF assms(2)]
  by (simp add: refines_def)

text \<open>Updating one control block, leaving its link alone.\<close>

lemma runq_upd:
  assumes "runq s xs" and "ut_heap s a = Some u" and "ut_next u' = ut_next u"
  shows "runq (s\<lparr>ut_heap := (ut_heap s)(a \<mapsto> u')\<rparr>) xs"
proof (rule runq_cong [OF assms(1)])
  show "dom (ut_heap (s\<lparr>ut_heap := (ut_heap s)(a \<mapsto> u')\<rparr>)) = dom (ut_heap s)" using assms(2) by auto
  show "next_of (s\<lparr>ut_heap := (ut_heap s)(a \<mapsto> u')\<rparr>) b = next_of s b" for b
    using assms(2,3) by (simp add: next_of_def)
qed simp_all

lemma runq_set_current [simp]: "runq (s\<lparr>g_current := p\<rparr>) xs = runq s xs"
proof -
  have "next_of (s\<lparr>g_current := p\<rparr>) = next_of s" by (rule next_of_cong) simp
  then show ?thesis by (simp add: runq_def)
qed

lemma refines_enqueue:
  assumes "refines s A" and "a \<in> dom (ut_heap s)" and "a \<notin> set (aq A)"
  shows "\<exists>s'. rr_scheduler_enqueue (Some a) s = Some s' \<and> refines s' (A\<lparr>aq := aq A @ [a]\<rparr>) \<and> links_only s s'"
  using enqueue_runq [OF refinesD(1) [OF assms(1)] assms(2,3)] refines_links [OF assms(1)] by blast

lemma refines_upd:
  assumes "refines s A" and "ut_heap s a = Some u" and "ut_next u' = ut_next u"
  shows "refines (s\<lparr>ut_heap := (ut_heap s)(a \<mapsto> u')\<rparr>)
    (A\<lparr>ast := (ast A)(a \<mapsto> ut_state u'), ajw := (ajw A)(a := ut_join_waiter u'), aret := (aret A)(a \<mapsto> ut_retval u')\<rparr>)"
  using assms runq_upd [OF refinesD(1) [OF assms(1)] assms(2,3)]
  by (auto simp: refines_def)

text \<open>The same for updates that the abstraction does not see.\<close>

lemma refines_upd_hidden:
  assumes "refines s A" and "ut_heap s a = Some u" and "ut_next u' = ut_next u" and "ut_state u' = ut_state u"
    and "ut_join_waiter u' = ut_join_waiter u" and "ut_retval u' = ut_retval u"
  shows "refines (s\<lparr>ut_heap := (ut_heap s)(a \<mapsto> u')\<rparr>) A"
  using assms runq_upd [OF refinesD(1) [OF assms(1)] assms(2,3)]
  by (auto simp: refines_def fun_eq_iff)

lemma refines_upd_state:
  assumes "refines s A" and "ut_heap s a = Some u"
  shows "refines (s\<lparr>ut_heap := (ut_heap s)(a \<mapsto> u\<lparr>ut_state := st\<rparr>)\<rparr>) (A\<lparr>ast := (ast A)(a \<mapsto> st)\<rparr>)"
  using assms runq_upd [OF refinesD(1) [OF assms(1)] assms(2), of "u\<lparr>ut_state := st\<rparr>"]
  by (auto simp: refines_def fun_eq_iff)

lemma refines_upd_done:
  assumes "refines s A" and "ut_heap s a = Some u"
  shows "refines (s\<lparr>ut_heap := (ut_heap s)(a \<mapsto> u\<lparr>ut_retval := v, ut_state := st\<rparr>)\<rparr>)
    (A\<lparr>ast := (ast A)(a \<mapsto> st), aret := (aret A)(a \<mapsto> v)\<rparr>)"
  using assms runq_upd [OF refinesD(1) [OF assms(1)] assms(2), of "u\<lparr>ut_retval := v, ut_state := st\<rparr>"]
  by (auto simp: refines_def fun_eq_iff)

section \<open>Every operation refines its specification\<close>

lemma links_only_lookup:
  "links_only s s' \<Longrightarrow> ut_heap s a = Some u \<Longrightarrow> \<exists>p. ut_heap s' a = Some (u\<lparr>ut_next := p\<rparr>)"
proof -
  assume l: "links_only s s'" and u: "ut_heap s a = Some u"
  have "unlinked (ut_heap s') a = unlinked (ut_heap s) a" using links_only_frame(7) [OF l] by simp
  with u obtain u' where u': "ut_heap s' a = Some u'" "u'\<lparr>ut_next := None\<rparr> = u\<lparr>ut_next := None\<rparr>"
    by (auto simp: unlinked_def)
  have "u' = (u'\<lparr>ut_next := None\<rparr>)\<lparr>ut_next := ut_next u'\<rparr>" by simp
  also have "\<dots> = u\<lparr>ut_next := ut_next u'\<rparr>" using u'(2) by simp
  finally show ?thesis using u'(1) by metis
qed

lemma refines_set_ctx:
  assumes "refines s A" and "a \<in> dom (ut_heap s)"
  shows "\<exists>s'. ut_upd (Some a) (ut_ctx_update (\<lambda>_. Some ctx)) s = Some s' \<and> refines s' A"
proof -
  obtain u where u: "ut_heap s a = Some u" using assms(2) by auto
  have "refines (s\<lparr>ut_heap := (ut_heap s)(a \<mapsto> u\<lparr>ut_ctx := Some ctx\<rparr>)\<rparr>) A"
    using assms(1) u by (rule refines_upd_hidden) simp_all
  with u show ?thesis by simp
qed

lemma refines_running:
  assumes "refines s A" and "arunning A c"
  obtains u where "ut_heap s c = Some u" "ut_state u = UT_RUNNING" "g_current s = Some c"
  using assms refinesD(2,3) [OF assms(1)] by (auto simp: arunning_def)

lemma refines_dom: "refines s A \<Longrightarrow> ast A a \<noteq> None \<Longrightarrow> a \<in> dom (ut_heap s)"
  using refinesD(3) [of s A a] by auto

text \<open>Making a thread that is not queued runnable and queueing it.\<close>

lemma refines_make_runnable:
  assumes r: "refines s A" and inv: "ainv A" and a: "a \<in> dom (ut_heap s)" and st: "ast A a \<noteq> Some UT_RUNNABLE"
  shows "\<exists>s' s''. ut_upd (Some a) (ut_state_update (\<lambda>_. UT_RUNNABLE)) s = Some s'
    \<and> rr_scheduler_enqueue (Some a) s' = Some s''
    \<and> refines s'' (A\<lparr>ast := (ast A)(a \<mapsto> UT_RUNNABLE), aq := aq A @ [a]\<rparr>)"
proof -
  obtain u where u: "ut_heap s a = Some u" using a by auto
  define s' where "s' = s\<lparr>ut_heap := (ut_heap s)(a \<mapsto> u\<lparr>ut_state := UT_RUNNABLE\<rparr>)\<rparr>"
  have r': "refines s' (A\<lparr>ast := (ast A)(a \<mapsto> UT_RUNNABLE)\<rparr>)"
    unfolding s'_def using r u by (rule refines_upd_state)
  have "a \<notin> set (aq A)" using inv st by (auto simp: ainv_def)
  then show ?thesis using refines_enqueue [OF r', of a] u by (auto simp: s'_def)
qed

lemma yield_refines:
  assumes r: "refines s A" and inv: "ainv A" and run: "arunning A c" and sr: "g_sched_running s"
  shows "\<exists>s'. rr_scheduler_yield_current ctx s = Some (True, s') \<and> refines s' (spec_yield c A)"
proof -
  obtain u where u: "ut_heap s c = Some u" "ut_state u = UT_RUNNING" "g_current s = Some c"
    using r run by (rule refines_running)
  have "ast A c \<noteq> Some UT_RUNNABLE" using run by (simp add: arunning_def)
  then obtain s1 s2 where s12: "ut_upd (Some c) (ut_state_update (\<lambda>_. UT_RUNNABLE)) s = Some s1"
    "rr_scheduler_enqueue (Some c) s1 = Some s2" "refines s2 (spec_yield c A)"
    using refines_make_runnable [OF r inv, of c] u by (auto simp: spec_yield_def)
  have "c \<in> dom (ut_heap s2)" using refines_dom [OF s12(3), of c] by (simp add: spec_yield_def)
  then obtain s3 where "ut_upd (Some c) (ut_ctx_update (\<lambda>_. Some ctx)) s2 = Some s3" "refines s3 (spec_yield c A)"
    using refines_set_ctx [OF s12(3)] by blast
  with s12 u(3) sr show ?thesis by (simp add: rr_scheduler_yield_current_def)
qed

lemma block_refines:
  assumes r: "refines s A" and run: "arunning A c" and sr: "g_sched_running s"
  shows "\<exists>s'. rr_scheduler_block_current ctx s = Some (True, s') \<and> refines s' (spec_block c A)"
proof -
  obtain u where u: "ut_heap s c = Some u" "ut_state u = UT_RUNNING" "g_current s = Some c"
    using r run by (rule refines_running)
  define s1 where "s1 = s\<lparr>ut_heap := (ut_heap s)(c \<mapsto> u\<lparr>ut_state := UT_BLOCKED\<rparr>)\<rparr>"
  have r1: "refines s1 (spec_block c A)"
    unfolding s1_def spec_block_def using r u(1) by (rule refines_upd_state)
  then obtain s2 where "ut_upd (Some c) (ut_ctx_update (\<lambda>_. Some ctx)) s1 = Some s2" "refines s2 (spec_block c A)"
    using refines_set_ctx [OF r1, of c] by (auto simp: s1_def)
  with u sr show ?thesis by (simp add: rr_scheduler_block_current_def s1_def)
qed

lemma wake_joiner_refines:
  assumes r: "refines s A" and inv: "ainv A" and w: "\<And>w. jw = Some w \<Longrightarrow> ast A w \<noteq> None"
  shows "\<exists>s'. wake_joiner jw s = Some s' \<and> refines s' (case jw of None \<Rightarrow> A | Some w \<Rightarrow> spec_wake w A)"
proof (cases jw)
  case None
  then show ?thesis using r by (simp add: wake_joiner_def)
next
  case (Some a)
  then have a: "a \<in> dom (ut_heap s)" using w refines_dom [OF r] by blast
  then obtain u where u: "ut_heap s a = Some u" by auto
  have st: "ast A a = Some (ut_state u)" using refinesD(3) [OF r, of a] u by simp
  show ?thesis
  proof (cases "ut_state u = UT_BLOCKED")
    case True
    then have "ast A a \<noteq> Some UT_RUNNABLE" using st by simp
    from refines_make_runnable [OF r inv a this] show ?thesis
      using Some u True st by (auto simp: wake_joiner_def spec_wake_def)
  next
    case False
    then show ?thesis using Some u st r by (simp add: wake_joiner_def spec_wake_def)
  qed
qed

lemma exit_refines:
  assumes r: "refines s A" and inv: "ainv A" and run: "arunning A c" and sr: "g_sched_running s"
  shows "\<exists>s'. rr_scheduler_exit_current ctx v s = Some (True, s') \<and> refines s' (spec_exit c v A)"
proof -
  obtain u where u: "ut_heap s c = Some u" "ut_state u = UT_RUNNING" "g_current s = Some c"
    using r run by (rule refines_running)
  define A1 where "A1 = A\<lparr>ast := (ast A)(c \<mapsto> UT_DONE), aret := (aret A)(c \<mapsto> v)\<rparr>"
  define s1 where "s1 = s\<lparr>ut_heap := (ut_heap s)(c \<mapsto> u\<lparr>ut_retval := v, ut_state := UT_DONE\<rparr>)\<rparr>"
  have r1: "refines s1 A1" unfolding s1_def A1_def using r u(1) by (rule refines_upd_done)
  have inv1: "ainv A1" unfolding A1_def using inv run by (rule ainv_done)
  have jw: "ajw A c = ut_join_waiter u" using refinesD(4) [OF r, of c] u by simp
  have "ast A1 w \<noteq> None" if "ut_join_waiter u = Some w" for w
    using inv jw that unfolding ainv_def A1_def by simp
  from wake_joiner_refines [where jw = "ut_join_waiter u", OF r1 inv1 this]
  obtain s2 where s2: "wake_joiner (ut_join_waiter u) s1 = Some s2" "refines s2 (spec_exit c v A)"
    by (auto simp: spec_exit_def A1_def [symmetric] jw Let_def)
  have "ast (spec_exit c v A) c \<noteq> None"
    by (simp add: spec_exit_def spec_wake_def Let_def split: option.split)
  from refines_set_ctx [OF s2(2) refines_dom [OF s2(2) this]]
  obtain s' where "ut_upd (Some c) (ut_ctx_update (\<lambda>_. Some ctx)) s2 = Some s'" "refines s' (spec_exit c v A)" by blast
  then show ?thesis using u sr s2(1) by (simp add: rr_scheduler_exit_current_def s1_def)
qed

lemma make_current_refines:
  assumes r: "refines s (A\<lparr>aq := xs\<rparr>)" and c: "c \<in> dom (ut_heap s)" and q: "aq A = c # xs"
  shows "\<exists>s'. make_current (Some c) s = Some s' \<and> refines s' (spec_dispatch c A)"
proof -
  obtain u where u: "ut_heap s c = Some u" using c by auto
  have "refines (s\<lparr>g_current := Some c\<rparr>) (A\<lparr>aq := xs, acur := Some c\<rparr>)"
    using r by (simp add: refines_def)
  from refines_upd_state [OF this, of c u UT_RUNNING] u q show ?thesis
    by (simp add: make_current_def rr_scheduler_set_current_def spec_dispatch_def)
qed

text \<open>The dispatcher never has to skip a queued thread: what it pops is runnable.\<close>

lemma pop_refines:
  assumes r: "refines s A" and inv: "ainv A" and q: "aq A = c # xs"
  shows "\<exists>s' u. runq_pop_front s = Some (Some c, s') \<and> refines s' (A\<lparr>aq := xs\<rparr>) \<and> links_only s s'
    \<and> ut_heap s' c = Some u \<and> ut_state u = UT_RUNNABLE"
proof -
  obtain s' where s': "runq_pop_front s = Some (Some c, s')" "runq s' xs" "links_only s s'"
    using pop_runq refinesD(1) [OF r] q by metis
  have r': "refines s' (A\<lparr>aq := xs\<rparr>)" using r s'(3,2) by (rule refines_links)
  have "ast A c = Some UT_RUNNABLE" using inv q by (auto simp: ainv_def)
  then have "map_option ut_state (ut_heap s' c) = Some UT_RUNNABLE" using refinesD(3) [OF r', of c] by simp
  with s' r' show ?thesis by auto
qed

lemma pop_refines_empty: "refines s A \<Longrightarrow> aq A = [] \<Longrightarrow> runq_pop_front s = Some (None, s)"
  using pop_empty refinesD(1) by metis

section \<open>Properties of the scheduler\<close>

text \<open>A concrete scheduler state: thread 1 runs, thread 2 is queued, thread 3 is blocked joining thread 1.\<close>

definition sample_ut :: "u64 \<Rightarrow> ut_state_t \<Rightarrow> utp \<Rightarrow> nat uthread_t" where
  "sample_ut i st jw = ut_zero\<lparr>ut_id := i, ut_state := st, ut_join_waiter := jw\<rparr>"

definition sample_sched :: "nat sched" where
  "sample_sched = sched_init\<lparr>ut_heap := [1 \<mapsto> sample_ut 1 UT_RUNNING (Some 3), 2 \<mapsto> sample_ut 2 UT_RUNNABLE None,
     3 \<mapsto> sample_ut 3 UT_BLOCKED None], ut_brk := 4, g_runq_head := Some 2, g_runq_tail := Some 2, g_current := Some 1,
     g_sched_running := True, g_threads := [Some 1, Some 2, Some 3], g_threads_cap := 16\<rparr>"

lemmas sample_defs = sample_sched_def sample_ut_def sched_init_def ut_zero_def

lemma sample_refines: "refines sample_sched (sched_abs sample_sched [2])"
  by (rule refines_abs) (simp add: runq_def next_of_def sample_defs)

lemma sample_states:
  "ast (sched_abs sample_sched [2]) = [1 \<mapsto> UT_RUNNING, 2 \<mapsto> UT_RUNNABLE, 3 \<mapsto> UT_BLOCKED]"
  by (auto simp: sched_abs_def sample_defs)

lemma sample_ainv: "ainv (sched_abs sample_sched [2])"
  unfolding ainv_def sample_states by (auto simp: sched_abs_def sample_defs split: if_splits)

lemma sample_running: "arunning (sched_abs sample_sched [2]) 1"
  unfolding arunning_def sample_states by (simp add: sched_abs_def sample_defs)

text \<open>In every run of the scheduler, from any state with the invariant, the queue holds exactly the runnable threads,
  each once; at most the current thread is running; and the current thread and every joining thread exist.\<close>

lemma scheduler_invariant:
  assumes "arun A ls A'" and "ainv A"
  shows "ainv A' \<and> distinct (aq A') \<and> set (aq A') = {a. ast A' a = Some UT_RUNNABLE}
    \<and> card {a. ast A' a = Some UT_RUNNING} \<le> 1"
proof -
  have inv: "ainv A'" using assms by (rule arun_inv)
  have "{a. ast A' a = Some UT_RUNNING} \<subseteq> (case acur A' of None \<Rightarrow> {} | Some c \<Rightarrow> {c})"
    using inv by (auto simp: ainv_def)
  then have "card {a. ast A' a = Some UT_RUNNING} \<le> card (case acur A' of None \<Rightarrow> {} | Some c \<Rightarrow> {c})"
    by (rule card_mono [rotated]) (simp split: option.split)
  also have "\<dots> \<le> 1" by (simp split: option.split)
  finally show ?thesis using inv by (auto simp: ainv_def)
qed

text \<open>Bounded waiting: a thread that is in the queue with \<open>k\<close> threads before it is the one dispatched by the
  dispatch after exactly \<open>k\<close> others, whatever yields, blocks, exits, wake-ups, creations and joins happen in
  between.\<close>

lemma bounded_waiting:
  assumes "arun A (ls @ [ADispatch c]) A'" and "k < length (aq A)" and "length (dispatch_order ls) = k"
  shows "c = aq A ! k"
proof -
  obtain B where B: "arun A ls B" "arun B [ADispatch c] A'" using assms(1) by (rule arun_split)
  obtain new where "aq A @ new = dispatch_order ls @ aq B" using arun_fifo [OF B(1)] by blast
  moreover have "aq B = c # aq A'" using B(2) by (auto elim: astepE simp: spec_dispatch_def)
  ultimately have "(aq A @ new) ! k = c" using assms(3) by (simp add: nth_append)
  then show ?thesis using assms(2) by (simp add: nth_append)
qed

text \<open>C5. The C code implements the abstract scheduler: with a running current thread, yielding, blocking and
  exiting never follow a null or dangling pointer, switch to the dispatcher, and change heap, links and queue
  ends exactly as the specification says; the invariant holds afterwards.\<close>

theorem scheduler_refinement:
  assumes "refines s A" and "ainv A" and "arunning A c" and "g_sched_running s"
  shows "(\<exists>s'. rr_scheduler_yield_current ctx s = Some (True, s') \<and> refines s' (spec_yield c A) \<and> ainv (spec_yield c A))
    \<and> (\<exists>s'. rr_scheduler_block_current ctx s = Some (True, s') \<and> refines s' (spec_block c A) \<and> ainv (spec_block c A))
    \<and> (\<exists>s'. rr_scheduler_exit_current ctx v s = Some (True, s') \<and> refines s' (spec_exit c v A) \<and> ainv (spec_exit c v A))"
  using yield_refines [OF assms, of ctx] block_refines [OF assms(1,3,4), of ctx] exit_refines [OF assms, of ctx v]
    ainv_yield [OF assms(2,3)] ainv_block [OF assms(2,3)] ainv_exit [OF assms(2,3), of v]
  by blast

theorem scheduler_refinement_witness:
  "\<exists>s'. rr_scheduler_exit_current 0 7 sample_sched = Some (True, s') \<and> refines s' (spec_exit 1 7 (sched_abs sample_sched [2]))"
  using scheduler_refinement [OF sample_refines sample_ainv sample_running, of 0 7]
  by (auto simp: sample_defs)

text \<open>C17. A thread that exits is marked done with its return value, and the thread that waits in a join for it is
  put at the end of the run queue.\<close>

theorem exit_wakes_joiner:
  assumes "refines s A" and "ainv A" and "arunning A c" and "g_sched_running s" and "ajw A c = Some w" and "ast A w = Some UT_BLOCKED"
  shows "\<exists>s'. rr_scheduler_exit_current ctx v s = Some (True, s') \<and> runq s' (aq A @ [w])
    \<and> map_option ut_state (ut_heap s' w) = Some UT_RUNNABLE
    \<and> map_option ut_state (ut_heap s' c) = Some UT_DONE \<and> map_option ut_retval (ut_heap s' c) = Some v"
proof -
  obtain s' where s': "rr_scheduler_exit_current ctx v s = Some (True, s')" "refines s' (spec_exit c v A)"
    using exit_refines [OF assms(1-4)] by blast
  have "w \<noteq> c" using assms(3,6) by (auto simp: arunning_def)
  then have "spec_exit c v A = A\<lparr>ast := (ast A)(c \<mapsto> UT_DONE, w \<mapsto> UT_RUNNABLE), aret := (aret A)(c \<mapsto> v), aq := aq A @ [w]\<rparr>"
    using assms(5,6) by (simp add: spec_exit_def spec_wake_def Let_def)
  then show ?thesis
    using s'(1) refinesD(1) [OF s'(2)] refinesD(3) [OF s'(2), of w] refinesD(3,5) [OF s'(2), of c] \<open>w \<noteq> c\<close> by auto
qed

theorem exit_wakes_joiner_witness:
  "\<exists>s'. rr_scheduler_exit_current 0 7 sample_sched = Some (True, s') \<and> runq s' [2, 3]
    \<and> map_option ut_state (ut_heap s' 3) = Some UT_RUNNABLE \<and> map_option ut_retval (ut_heap s' 1) = Some 7"
proof -
  have a: "aq (sched_abs sample_sched [2]) = [2]" "ajw (sched_abs sample_sched [2]) 1 = Some 3" "g_sched_running sample_sched"
    by (simp_all add: sched_abs_def sample_defs)
  have b: "ast (sched_abs sample_sched [2]) 3 = Some UT_BLOCKED" by (simp add: sample_states)
  show ?thesis using exit_wakes_joiner [OF sample_refines sample_ainv sample_running a(3,2) b, of 0 7] a(1) by auto
qed

end
