(* ===== verification/RR_Registry.thy ===== *)
theory RR_Registry
  imports RR_SchedSpec
begin

text \<open>
  The thread registry of \<^verbatim>\<open>scheduler.c\<close>: \<^verbatim>\<open>rr_scheduler_find\<close> over the growable array
  \<^verbatim>\<open>g_threads\<close>, the wake-up by thread id that I/O completions use, and the fields that the
  queue and state operations leave alone. The three growable arrays of the library
  (\<^verbatim>\<open>g_threads\<close>, \<^verbatim>\<open>g_allocated\<close>, \<^verbatim>\<open>g_guard_pages\<close>) share the code pattern that
  \<open>grow_push\<close> models and the contract of the locale \<open>growable_table\<close>.
\<close>

section \<open>Growable arrays\<close>

definition grow_cap :: "nat \<Rightarrow> nat" where
  "grow_cap cap = (if cap = 0 then 16 else cap * 2)"

text \<open>\<open>alloc\<close> is \<^verbatim>\<open>realloc\<close> of a number of bytes; it is called only when the array is full. The result
  is the \<^verbatim>\<open>errno\<close> of a failure, or the new items and capacity.\<close>

definition grow_push ::
  "(nat \<Rightarrow> 'w \<Rightarrow> unit res \<times> 'w) \<Rightarrow> nat \<Rightarrow> 'a \<Rightarrow> 'a list \<Rightarrow> nat \<Rightarrow> 'w \<Rightarrow> ('a list \<times> nat) res \<times> 'w" where
  "grow_push alloc sz x xs cap w =
     (if length xs = cap then
        (case alloc (grow_cap cap * sz) w of
           (Inl e, w) \<Rightarrow> (Inl e, w)
         | (Inr _, w) \<Rightarrow> (Inr (xs @ [x], grow_cap cap), w))
      else (Inr (xs @ [x], cap), w))"

lemma grow_push_ok: "grow_push alloc sz x xs cap w = (Inr (ys, cap'), w') \<Longrightarrow> ys = xs @ [x]"
  by (auto simp: grow_push_def split: if_splits prod.splits sum.splits)

lemma grow_push_cap:
  "grow_push alloc sz x xs cap w = (Inr (ys, cap'), w') \<Longrightarrow> length xs \<le> cap \<Longrightarrow> length ys \<le> cap'"
  by (cases xs) (auto simp: grow_push_def grow_cap_def split: if_splits prod.splits sum.splits)

lemma grow_push_room: "length xs < cap \<Longrightarrow> grow_push alloc sz x xs cap w = (Inr (xs @ [x], cap), w)"
  by (simp add: grow_push_def)

text \<open>The contract of a table that grows by doubling: \<open>push\<close> either fails and keeps the items, or adds
  the new item at the end; \<open>items\<close> and \<open>cap\<close> read a state.\<close>

locale growable_table =
  fixes push :: "'a \<Rightarrow> 's \<Rightarrow> int \<times> 's"
    and items :: "'s \<Rightarrow> 'a list"
    and cap :: "'s \<Rightarrow> nat"
  assumes push_rc: "push x s = (rc, s') \<Longrightarrow> rc = 0 \<or> rc = -1"
    and push_fail: "push x s = (-1, s') \<Longrightarrow> items s' = items s \<and> cap s' = cap s"
    and push_ok: "push x s = (0, s') \<Longrightarrow> items s' = items s @ [x]"
    and push_cap: "push x s = (0, s') \<Longrightarrow> length (items s) \<le> cap s \<Longrightarrow> length (items s') \<le> cap s'"
begin

lemma push_keeps_prefix: "push x s = (rc, s') \<Longrightarrow> \<exists>ys. items s' = items s @ ys"
  using push_rc push_fail push_ok by fastforce

lemma push_bounded: "push x s = (rc, s') \<Longrightarrow> length (items s) \<le> cap s \<Longrightarrow> length (items s') \<le> cap s'"
  using push_rc push_fail push_cap by metis

end

section \<open>The registry invariant and lookup\<close>

definition ids :: "'c sched \<Rightarrow> nat \<Rightarrow> u64 option" where
  "ids s a = map_option ut_id (ut_heap s a)"

definition reg_ok :: "'c sched \<Rightarrow> bool" where
  "reg_ok s \<longleftrightarrow> (\<exists>ps. g_threads s = map Some ps \<and> distinct ps \<and> set ps = dom (ut_heap s))
     \<and> (\<forall>a b i. ids s a = Some i \<longrightarrow> ids s b = Some i \<longrightarrow> a = b)"

lemma ids_dom: "ids s a = Some i \<Longrightarrow> a \<in> dom (ut_heap s)"
  by (auto simp: ids_def)

lemma find_from_find:
  "set ps \<subseteq> dom (ut_heap s) \<Longrightarrow> find_from s i (map Some ps) = Some (List.find (\<lambda>a. ids s a = Some i) ps)"
  by (induction ps) (auto simp: ids_def)

lemma find_correct:
  assumes "reg_ok s"
  obtains r where "rr_scheduler_find i s = Some r" "\<And>a. r = Some a \<longleftrightarrow> ids s a = Some i"
proof -
  from assms obtain ps where ps: "g_threads s = map Some ps" "set ps = dom (ut_heap s)"
    and inj: "\<And>a b. ids s a = Some i \<Longrightarrow> ids s b = Some i \<Longrightarrow> a = b"
    unfolding reg_ok_def by blast
  let ?r = "List.find (\<lambda>a. ids s a = Some i) ps"
  have "rr_scheduler_find i s = Some ?r"
    using find_from_find [of ps s i] ps by (simp add: rr_scheduler_find_def)
  moreover have "?r = Some a \<longleftrightarrow> ids s a = Some i" for a
  proof (cases ?r)
    case None
    then have "\<forall>b \<in> set ps. ids s b \<noteq> Some i" by (auto simp: find_None_iff)
    with ps ids_dom [of s a i] None show ?thesis by auto
  next
    case (Some b)
    then have "ids s b = Some i" by (auto simp: find_Some_iff)
    with Some inj [of a b] show ?thesis by auto
  qed
  ultimately show ?thesis by (rule that)
qed

section \<open>Waking by id\<close>

lemma wake_refines:
  assumes reg: "reg_ok s" and r: "refines s A" and inv: "ainv A" and i: "ids s a = Some i"
  shows "\<exists>s'. rr_scheduler_wake_by_id i res None 0 s = Some s' \<and> refines s' (spec_wake a A)
    \<and> (ast A a = Some UT_BLOCKED \<longrightarrow> map_option ut_io_result (ut_heap s' a) = Some res)
    \<and> (ast A a \<noteq> Some UT_BLOCKED \<longrightarrow> s' = s)"
proof -
  obtain f where "rr_scheduler_find i s = Some f" "\<And>a. f = Some a \<longleftrightarrow> ids s a = Some i"
    using find_correct [OF reg, of i] by blast
  with i have f: "rr_scheduler_find i s = Some (Some a)" by simp
  obtain u where u: "ut_heap s a = Some u" using ids_dom [OF i] by auto
  have st: "ast A a = Some (ut_state u)" using refinesD(3) [OF r, of a] u by simp
  show ?thesis
  proof (cases "ut_state u = UT_BLOCKED")
    case False
    then show ?thesis using f u st r by (simp add: rr_scheduler_wake_by_id_def spec_wake_def)
  next
    case True
    define s1 where "s1 = s\<lparr>ut_heap := (ut_heap s)(a \<mapsto> u\<lparr>ut_io_result := res, ut_io_data_len := 0\<rparr>)\<rparr>"
    have r1: "refines s1 A" unfolding s1_def using r u by (rule refines_upd_hidden) simp_all
    define s2 where "s2 = s1\<lparr>ut_heap := (ut_heap s1)(a \<mapsto> u\<lparr>ut_io_result := res, ut_io_data_len := 0, ut_state := UT_RUNNABLE\<rparr>)\<rparr>"
    have u1: "ut_heap s1 a = Some (u\<lparr>ut_io_result := res, ut_io_data_len := 0\<rparr>)" by (simp add: s1_def)
    have r2: "refines s2 (A\<lparr>ast := (ast A)(a \<mapsto> UT_RUNNABLE)\<rparr>)"
      unfolding s2_def using refines_upd_state [OF r1 u1] by simp
    have "a \<notin> set (aq A)" using inv st True by (auto simp: ainv_def)
    moreover have "a \<in> dom (ut_heap s2)" by (simp add: s2_def)
    ultimately obtain s3 where s3: "rr_scheduler_enqueue (Some a) s2 = Some s3"
      "refines s3 (A\<lparr>ast := (ast A)(a \<mapsto> UT_RUNNABLE), aq := aq A @ [a]\<rparr>)" "links_only s2 s3"
      using refines_enqueue [OF r2, of a] by auto
    have "rr_scheduler_wake_by_id i res None 0 s = Some s3"
      using f u True s3(1) by (simp add: rr_scheduler_wake_by_id_def s1_def s2_def)
    moreover have "map_option ut_io_result (ut_heap s3 a) = map_option ut_io_result (ut_heap s2 a)"
      by (rule unlinked_field [OF links_only_frame(7) [OF s3(3)]]) simp
    ultimately show ?thesis using s3(2) st True by (simp add: spec_wake_def s2_def)
  qed
qed

lemma wake_unknown:
  assumes "reg_ok s" and "\<And>a. ids s a \<noteq> Some i"
  shows "rr_scheduler_wake_by_id i res data len s = Some s"
proof -
  obtain f where f: "rr_scheduler_find i s = Some f" "\<And>a. f = Some a \<longleftrightarrow> ids s a = Some i"
    using find_correct [OF assms(1), of i] by blast
  with assms(2) have "f = None" by (cases f) auto
  with f(1) show ?thesis by (simp add: rr_scheduler_wake_by_id_def)
qed

section \<open>What the operations leave alone\<close>

definition reg :: "'c sched \<Rightarrow> utp list \<times> nat \<times> (nat \<Rightarrow> u64 option) \<times> nat \<times> bool \<times> u64" where
  "reg s = (g_threads s, g_threads_cap s, ids s, ut_brk s, g_sched_running s, g_sched_stack s)"

lemma reg_ids: "reg s' = reg s \<Longrightarrow> ids s' = ids s"
  by (simp add: reg_def)

lemma dom_ids: "dom (ids s) = dom (ut_heap s)"
  by (auto simp: ids_def)

lemma ids_dom_eq: "ids s' = ids s \<Longrightarrow> dom (ut_heap s') = dom (ut_heap s)"
  by (metis dom_ids)

lemma reg_ok_frame: "reg s' = reg s \<Longrightarrow> reg_ok s' = reg_ok s"
  using ids_dom_eq [of s' s] by (simp add: reg_ok_def reg_def)

lemma reg_upd: "ut_upd p f s = Some s' \<Longrightarrow> (\<And>u. ut_id (f u) = ut_id u) \<Longrightarrow> reg s' = reg s"
  by (auto simp: ut_upd_def reg_def ids_def fun_eq_iff split: option.splits)

lemma reg_head [simp]: "reg (s\<lparr>g_runq_head := p\<rparr>) = reg s"
  by (simp add: reg_def ids_def fun_eq_iff)

lemma reg_tail [simp]: "reg (s\<lparr>g_runq_tail := p\<rparr>) = reg s"
  by (simp add: reg_def ids_def fun_eq_iff)

lemma reg_current [simp]: "reg (s\<lparr>g_current := p\<rparr>) = reg s"
  by (simp add: reg_def ids_def fun_eq_iff)

text \<open>\<open>keeps r m\<close>: whatever state \<open>m\<close> returns has registry \<open>r\<close>. One rule per way of composing
  scheduler code.\<close>

definition keeps :: "utp list \<times> nat \<times> (nat \<Rightarrow> u64 option) \<times> nat \<times> bool \<times> u64 \<Rightarrow> 'c sched option \<Rightarrow> bool" where
  "keeps r m \<longleftrightarrow> (\<forall>s'. m = Some s' \<longrightarrow> reg s' = r)"

lemma keepsD: "keeps r m \<Longrightarrow> m = Some s' \<Longrightarrow> reg s' = r"
  by (simp add: keeps_def)

lemma keeps_Some [rr_frame]: "reg s = r \<Longrightarrow> keeps r (Some s)"
  by (simp add: keeps_def)

lemma keeps_bind [rr_frame]: "keeps r m \<Longrightarrow> (\<And>s. reg s = r \<Longrightarrow> keeps r (f s)) \<Longrightarrow> keeps r (Option.bind m f)"
  by (auto simp: keeps_def)

lemma keeps_bind_other [rr_frame]: "(\<And>x. keeps r (f x)) \<Longrightarrow> keeps r (Option.bind m f)"
  by (auto simp: keeps_def)

lemma keeps_if [rr_frame]: "(b \<Longrightarrow> keeps r m) \<Longrightarrow> (\<not> b \<Longrightarrow> keeps r n) \<Longrightarrow> keeps r (if b then m else n)"
  by simp

lemma keeps_upd [rr_frame]: "reg s = r \<Longrightarrow> (\<And>u. ut_id (f u) = ut_id u) \<Longrightarrow> keeps r (ut_upd p f s)"
  using reg_upd [of p f s] by (simp add: keeps_def)

lemma keeps_enqueue [rr_frame]: "reg s = r \<Longrightarrow> keeps r (rr_scheduler_enqueue p s)"
  unfolding rr_scheduler_enqueue_def
  by (rule keeps_if keeps_bind keeps_upd keeps_Some | simp | assumption)+

lemma reg_enqueue: "rr_scheduler_enqueue p s = Some s' \<Longrightarrow> reg s' = reg s"
  using keeps_enqueue [OF refl] by (rule keepsD)

lemma map_snd_bind: "map_option snd (Option.bind m f) = Option.bind m (\<lambda>x. map_option snd (f x))"
  by (cases m) auto

lemma keeps_snd: "keeps r (map_option snd m) \<Longrightarrow> m = Some (b, s') \<Longrightarrow> reg s' = r"
  by (simp add: keeps_def)

lemmas keeps_pair = Let_def map_snd_bind if_distrib [of "map_option snd"]

lemmas keeps_rules = keeps_if keeps_upd keeps_Some keeps_enqueue keeps_bind

lemma reg_pop: "runq_pop_front s = Some (p, s') \<Longrightarrow> reg s' = reg s"
proof (rule keeps_snd)
  show "keeps (reg s) (map_option snd (runq_pop_front s))"
    unfolding runq_pop_front_def keeps_pair
    by (rule keeps_if keeps_bind_other keeps_bind keeps_upd keeps_Some | simp)+
qed

lemma reg_yield: "rr_scheduler_yield_current ctx s = Some (b, s') \<Longrightarrow> reg s' = reg s"
proof (rule keeps_snd)
  show "keeps (reg s) (map_option snd (rr_scheduler_yield_current ctx s))"
    unfolding rr_scheduler_yield_current_def keeps_pair
    by (rule keeps_rules | simp | assumption)+
qed

lemma reg_block: "rr_scheduler_block_current ctx s = Some (b, s') \<Longrightarrow> reg s' = reg s"
proof (rule keeps_snd)
  show "keeps (reg s) (map_option snd (rr_scheduler_block_current ctx s))"
    unfolding rr_scheduler_block_current_def keeps_pair
    by (rule keeps_rules | simp | assumption)+
qed

text \<open>The wake-up of a joining thread inside \<^verbatim>\<open>rr_scheduler_exit_current\<close>.\<close>

lemma keeps_wake_joiner: "reg s = r \<Longrightarrow> keeps r (wake_joiner jw s)"
  unfolding wake_joiner_def
  by (rule keeps_if, erule keeps_Some, rule keeps_bind_other, rule keeps_if)
    (rule keeps_rules | simp | assumption)+

lemma reg_exit: "rr_scheduler_exit_current ctx v s = Some (b, s') \<Longrightarrow> reg s' = reg s"
proof (rule keeps_snd)
  show "keeps (reg s) (map_option snd (rr_scheduler_exit_current ctx v s))"
    unfolding rr_scheduler_exit_current_def keeps_pair
    by (rule keeps_if keeps_upd keeps_Some keeps_wake_joiner keeps_bind | simp | assumption
        | rule keeps_bind_other)+
qed

lemma reg_make_current: "make_current p s = Some s' \<Longrightarrow> reg s' = reg s"
  using keeps_upd [of "s\<lparr>g_current := p\<rparr>" "reg s" "ut_state_update (\<lambda>_. UT_RUNNING)" p]
  by (auto simp: make_current_def rr_scheduler_set_current_def dest: keepsD)

lemma reg_wake: "rr_scheduler_wake_by_id i r None 0 s = Some s' \<Longrightarrow> reg s' = reg s"
proof (rule keepsD)
  show "keeps (reg s) (rr_scheduler_wake_by_id i r None 0 s)"
    unfolding rr_scheduler_wake_by_id_def option.case
    by (rule keeps_bind_other, rule keeps_if, rule keeps_Some, rule refl, rule keeps_bind_other, rule keeps_if,
        rule keeps_Some, rule refl) (rule keeps_rules | simp | assumption)+
qed

section \<open>Saved contexts\<close>

definition ctxof :: "'c sched \<Rightarrow> nat \<Rightarrow> 'c option" where
  "ctxof s a = Option.bind (ut_heap s a) ut_ctx"

lemma ctxof_cong: "ut_heap s' = ut_heap s \<Longrightarrow> ctxof s' = ctxof s"
  by (simp add: ctxof_def fun_eq_iff)

lemma ctxof_upd: "ut_upd p f s = Some s' \<Longrightarrow> (\<And>u. ut_ctx (f u) = ut_ctx u) \<Longrightarrow> ctxof s' = ctxof s"
  by (auto simp: ut_upd_def ctxof_def fun_eq_iff split: option.splits)

lemma ctxof_set: "ut_upd (Some a) (ut_ctx_update (\<lambda>_. Some c)) s = Some s' \<Longrightarrow> ctxof s' = (ctxof s)(a \<mapsto> c)"
  by (auto simp: ut_upd_def ctxof_def fun_eq_iff split: option.splits)

lemma ctxof_next: "ut_upd p (ut_next_update (\<lambda>_. q)) s = Some s' \<Longrightarrow> ctxof s' = ctxof s"
  by (erule ctxof_upd) simp

lemma ctxof_state: "ut_upd p (ut_state_update (\<lambda>_. q)) s = Some s' \<Longrightarrow> ctxof s' = ctxof s"
  by (erule ctxof_upd) simp

lemma ctxof_done: "ut_upd p (\<lambda>u. u\<lparr>ut_retval := v, ut_state := q\<rparr>) s = Some s' \<Longrightarrow> ctxof s' = ctxof s"
  by (erule ctxof_upd) simp

lemma ctxof_fields [simp]:
  "ctxof (s\<lparr>g_runq_head := p\<rparr>) = ctxof s" "ctxof (s\<lparr>g_runq_tail := p\<rparr>) = ctxof s" "ctxof (s\<lparr>g_current := p\<rparr>) = ctxof s"
  by (rule ctxof_cong, simp)+

lemma ctxof_enqueue: "rr_scheduler_enqueue p s = Some s' \<Longrightarrow> ctxof s' = ctxof s"
  by (auto simp: rr_scheduler_enqueue_def dest!: ctxof_next split: if_splits)

lemma ctxof_pop: "runq_pop_front s = Some (p, s') \<Longrightarrow> ctxof s' = ctxof s"
  by (auto simp: runq_pop_front_def Let_def dest!: ctxof_next split: if_splits)

lemma ctxof_make_current: "make_current p s = Some s' \<Longrightarrow> ctxof s' = ctxof s"
  by (auto simp: make_current_def rr_scheduler_set_current_def dest!: ctxof_state)

lemma ctxof_yield:
  "rr_scheduler_yield_current c s = Some (True, s') \<Longrightarrow> g_current s = Some a \<Longrightarrow> ctxof s' = (ctxof s)(a \<mapsto> c)"
  by (auto simp: rr_scheduler_yield_current_def Let_def dest!: ctxof_state ctxof_enqueue ctxof_set split: if_splits)

lemma ctxof_block:
  "rr_scheduler_block_current c s = Some (True, s') \<Longrightarrow> g_current s = Some a \<Longrightarrow> ctxof s' = (ctxof s)(a \<mapsto> c)"
  by (auto simp: rr_scheduler_block_current_def Let_def dest!: ctxof_state ctxof_set split: if_splits)

lemma ctxof_heap: "ctxof (s\<lparr>ut_heap := (ut_heap s)(a \<mapsto> u)\<rparr>) = (ctxof s)(a := ut_ctx u)"
  by (simp add: ctxof_def fun_eq_iff)

lemma ctxof_same: "ut_heap s a = Some u \<Longrightarrow> (ctxof s)(a := ut_ctx u) = ctxof s"
  by (auto simp: ctxof_def)

lemma ctxof_wake_joiner: "wake_joiner jw s = Some s' \<Longrightarrow> ctxof s' = ctxof s"
  by (auto simp: wake_joiner_def ctxof_heap ctxof_same dest!: ctxof_enqueue split: if_splits)

lemma ctxof_exit:
  "rr_scheduler_exit_current c v s = Some (True, s') \<Longrightarrow> g_current s = Some a \<Longrightarrow> ctxof s' = (ctxof s)(a \<mapsto> c)"
  by (auto simp: rr_scheduler_exit_current_def Let_def dest!: ctxof_done ctxof_wake_joiner ctxof_set split: if_splits)

lemma ctxof_wake: "rr_scheduler_wake_by_id i r None 0 s = Some s' \<Longrightarrow> ctxof s' = ctxof s"
  by (auto simp: rr_scheduler_wake_by_id_def ctxof_heap ctxof_same dest!: ctxof_state ctxof_enqueue split: if_splits)

end
