(* ===== verification/RR_State.thy ===== *)
theory RR_State
  imports RR_Registry
begin

text \<open>
  The surroundings of librr and its whole state.

  Everything librr calls but does not contain (the Linux kernel, libc's own system-call
  functions, liburing, the allocator's success or failure) is the record \<open>'w os\<close>, an argument of
  every definition that uses it. Its functions act on an abstract world of type \<open>'w\<close>; what the
  runtime relies on is stated where it is used, as named hypotheses about these functions.

  The record \<open>('c, 'w) rr\<close> gathers the static variables of the translation units, the
  \<^verbatim>\<open>errno\<close> variable, the byte memory of the process and the world. \<open>'c\<close> is the type of saved
  thread contexts.
\<close>

section \<open>Calls out of the library\<close>

text \<open>The intercepted libc functions with their C arguments; pointers are addresses.\<close>

datatype libc_call =
    CRead int u64 u64
  | CWrite int u64 u64
  | CRecv int u64 u64 int
  | CSend int u64 u64 int
  | CAccept int u64 u64
  | CConnect int u64 u32
  | COpenat int u64 int "u32 option"
  | CClose int
  | CNanosleep u64 u64
  | CClockGettime int u64
  | CGettimeofday u64 u64
  | CGetpid
  | CGetuid
  | CUname u64
  | CStat u64 u64
  | CFstat int u64
  | CLstat u64 u64
  | CGetcwd u64 u64

text \<open>Submission and completion queue entries, as far as librr fills and reads them.
  \<open>cq_stores\<close> lists what the kernel has stored into the process memory for the completed
  operation.\<close>

datatype sqe_op =
    SqRead int u64 u32 u64
  | SqWrite int u64 u32 u64
  | SqRecv int u64 u64 int
  | SqSend int u64 u64 int
  | SqAccept int u64 u64 int
  | SqConnect int u64 u32
  | SqOpenat int u64 int u32
  | SqClose int

record sqe =
  sq_op :: sqe_op
  sq_user_data :: u64

record cqe =
  cq_user_data :: u64
  cq_res :: i32
  cq_stores :: "(u64 \<times> u8 list) list"

record 'w os =
  os_dlsym :: "string \<Rightarrow> bool"
  os_write :: "int \<Rightarrow> u8 list \<Rightarrow> 'w \<Rightarrow> nat res \<times> 'w"
  os_read :: "int \<Rightarrow> nat \<Rightarrow> 'w \<Rightarrow> (u8 list) res \<times> 'w"
  os_open_log :: "string \<Rightarrow> 'w \<Rightarrow> int res \<times> 'w"
  os_open_ro :: "string \<Rightarrow> 'w \<Rightarrow> int res \<times> 'w"
  os_close :: "int \<Rightarrow> 'w \<Rightarrow> 'w"
  os_mmap :: "u64 \<Rightarrow> bool \<Rightarrow> 'w \<Rightarrow> u64 res \<times> 'w"
  os_mprotect_rw :: "u64 \<Rightarrow> u64 \<Rightarrow> 'w \<Rightarrow> unit res \<times> 'w"
  os_munmap :: "u64 \<Rightarrow> u64 \<Rightarrow> 'w \<Rightarrow> 'w"
  os_alloc :: "nat \<Rightarrow> 'w \<Rightarrow> unit res \<times> 'w"
  os_getcontext :: "'w \<Rightarrow> unit res \<times> 'w"
  os_set_fs :: "u64 \<Rightarrow> 'w \<Rightarrow> unit res \<times> 'w"
  os_get_fs :: "'w \<Rightarrow> u64 res \<times> 'w"
  os_sizeof_ucontext :: nat
  os_pagesize :: u64
  os_sigstksz :: u64
  os_sigaltstack :: "u64 \<Rightarrow> u64 \<Rightarrow> 'w \<Rightarrow> unit res \<times> 'w"
  os_sigaction_segv :: "'w \<Rightarrow> unit res \<times> 'w"
  os_sigblock :: "nat set \<Rightarrow> 'w \<Rightarrow> unit res \<times> 'w"
  os_signalfd :: "nat set \<Rightarrow> 'w \<Rightarrow> int res \<times> 'w"
  os_siginfo_addr :: u64
  os_expirations_addr :: u64
  os_ts_addr :: u64
  os_timerfd_create :: "'w \<Rightarrow> int res \<times> 'w"
  os_timerfd_settime :: "int \<Rightarrow> u8 list \<Rightarrow> 'w \<Rightarrow> unit res \<times> 'w"
  os_uring_init :: "u32 \<Rightarrow> 'w \<Rightarrow> bool \<times> 'w"
  os_uring_exit :: "'w \<Rightarrow> 'w"
  os_get_sqe :: "'w \<Rightarrow> nat option \<times> 'w"
  os_prep_sqe :: "nat \<Rightarrow> sqe \<Rightarrow> 'w \<Rightarrow> 'w"
  os_submit :: "'w \<Rightarrow> i32 \<times> 'w"
  os_wait_cqe :: "'w \<Rightarrow> (i32 \<times> cqe option) \<times> 'w"
  os_cqe_seen :: "'w \<Rightarrow> 'w"
  os_real :: "libc_call \<Rightarrow> mem \<Rightarrow> 'w \<Rightarrow> int res \<times> mem \<times> 'w"

section \<open>The static variables\<close>

text \<open>\<^verbatim>\<open>record.c\<close>. \<open>g_ring\<close> is the address of the mapped buffer, \<open>None\<close> for NULL, and
  \<open>g_ring_buf\<close> its bytes; \<open>g_ring_used\<close> counts the used prefix.\<close>

record rec_state =
  g_rr_seq :: u64
  g_log_fd :: int
  g_ring :: "u64 option"
  g_ring_buf :: "nat \<Rightarrow> u8"
  g_ring_used :: nat
  rec_real_write :: bool
  rec_real_open :: bool
  rec_real_close :: bool

text \<open>\<^verbatim>\<open>replay.c\<close>.\<close>

record replay_state =
  g_replay_fd :: int
  g_expected_seq :: u64
  g_replay_header_ok :: bool
  rpl_real_read :: bool
  rpl_real_open :: bool
  rpl_real_close :: bool

text \<open>\<^verbatim>\<open>io_uring.c\<close>; the ring itself is part of the world, and \<^verbatim>\<open>g_signal_info\<close> lies in the
  process memory at \<open>os_siginfo_addr\<close>.\<close>

record io_state =
  g_ring_ready :: bool
  g_signal_fd :: int

text \<open>\<^verbatim>\<open>signal.c\<close>.\<close>

record guard_page_t =
  gp_start :: u64
  gp_size :: u64
  gp_utid :: u64

record sig_state =
  g_altstack_sp :: u64
  g_altstack_size :: u64
  g_signalfd :: int
  g_guard_pages :: "guard_page_t list"
  g_guard_cap :: nat

text \<open>\<^verbatim>\<open>uthread.c\<close>.\<close>

record uthread_state =
  g_next_id :: u64
  g_scheduler_tls :: u64
  g_allocated :: "utp list"
  g_allocated_cap :: nat

record ('c, 'w) rr =
  cfg :: rr_config_t
  sch :: "'c sched"
  rcd :: rec_state
  rpl :: replay_state
  iou :: io_state
  sigs :: sig_state
  uth :: uthread_state
  errno :: i32
  umem :: mem
  world :: 'w

text \<open>The values of the statics when the library is loaded.\<close>

definition rr_load :: "mem \<Rightarrow> 'w \<Rightarrow> ('c, 'w) rr" where
  "rr_load m w = \<lparr>
     cfg = g_rr_config_init,
     sch = sched_init,
     rcd = \<lparr> g_rr_seq = 0, g_log_fd = -1, g_ring = None, g_ring_buf = (\<lambda>_. 0), g_ring_used = 0,
             rec_real_write = False, rec_real_open = False, rec_real_close = False \<rparr>,
     rpl = \<lparr> g_replay_fd = -1, g_expected_seq = 1, g_replay_header_ok = False,
             rpl_real_read = False, rpl_real_open = False, rpl_real_close = False \<rparr>,
     iou = \<lparr> g_ring_ready = False, g_signal_fd = -1 \<rparr>,
     sigs = \<lparr> g_altstack_sp = 0, g_altstack_size = 0, g_signalfd = -1, g_guard_pages = [], g_guard_cap = 0 \<rparr>,
     uth = \<lparr> g_next_id = 1, g_scheduler_tls = 0, g_allocated = [], g_allocated_cap = 0 \<rparr>,
     errno = 0, umem = m, world = w \<rparr>"

section \<open>Access to the state\<close>

text \<open>Apply a call that acts on the world.\<close>

definition kcall :: "('w \<Rightarrow> 'a \<times> 'w) \<Rightarrow> ('c, 'w) rr \<Rightarrow> 'a \<times> ('c, 'w) rr" where
  "kcall f s = (case f (world s) of (r, w) \<Rightarrow> (r, s\<lparr>world := w\<rparr>))"

text \<open>The same for a call that may fail and then sets \<^verbatim>\<open>errno\<close>; \<open>None\<close> is the failure.\<close>

definition kres :: "('w \<Rightarrow> 'a res \<times> 'w) \<Rightarrow> ('c, 'w) rr \<Rightarrow> 'a option \<times> ('c, 'w) rr" where
  "kres f s = (case f (world s) of
       (Inl e, w) \<Rightarrow> (None, s\<lparr>errno := e, world := w\<rparr>)
     | (Inr v, w) \<Rightarrow> (Some v, s\<lparr>world := w\<rparr>))"

definition kdo :: "('w \<Rightarrow> 'w) \<Rightarrow> ('c, 'w) rr \<Rightarrow> ('c, 'w) rr" where
  "kdo f s = s\<lparr>world := f (world s)\<rparr>"

text \<open>Apply a scheduler operation.\<close>

definition on_sched :: "('c sched \<Rightarrow> 'c sched option) \<Rightarrow> ('c, 'w) rr \<Rightarrow> ('c, 'w) rr option" where
  "on_sched f s = do { x \<leftarrow> f (sch s); Some (s\<lparr>sch := x\<rparr>) }"

definition on_sched_ret :: "('c sched \<Rightarrow> ('a \<times> 'c sched) option) \<Rightarrow> ('c, 'w) rr \<Rightarrow> ('a \<times> ('c, 'w) rr) option" where
  "on_sched_ret f s = do { (r, x) \<leftarrow> f (sch s); Some (r, s\<lparr>sch := x\<rparr>) }"

text \<open>\<^verbatim>\<open>rr_scheduler_current() ? rr_scheduler_current()->id : 0\<close>.\<close>

definition current_id :: "('c, 'w) rr \<Rightarrow> u64 option" where
  "current_id s = (case rr_scheduler_current (sch s) of None \<Rightarrow> Some 0
     | Some a \<Rightarrow> map_option ut_id (deref (sch s) (Some a)))"

definition rr_active :: "('c, 'w) rr \<Rightarrow> bool" where
  "rr_active s = cfg_active (cfg s)"

definition rr_replay_active :: "('c, 'w) rr \<Rightarrow> bool" where
  "rr_replay_active s = cfg_replay_active (cfg s)"

definition rr_mark_runtime_ready :: "('c, 'w) rr \<Rightarrow> ('c, 'w) rr" where
  "rr_mark_runtime_ready s = s\<lparr>cfg := (cfg s)\<lparr>runtime_ready := True\<rparr>\<rparr>"

text \<open>A call of libc's own function: the C return value (-1 or, for \<^verbatim>\<open>getcwd\<close>, NULL on failure)
  and \<^verbatim>\<open>errno\<close>.\<close>

definition real_call :: "'w os \<Rightarrow> libc_call \<Rightarrow> int \<Rightarrow> ('c, 'w) rr \<Rightarrow> int \<times> ('c, 'w) rr" where
  "real_call os c failv s =
     (case os_real os c (umem s) (world s) of
        (Inl e, m, w) \<Rightarrow> (failv, s\<lparr>errno := e, umem := m, world := w\<rparr>)
      | (Inr v, m, w) \<Rightarrow> (v, s\<lparr>umem := m, world := w\<rparr>))"

text \<open>A store through a pointer into the process memory.\<close>

definition copy_to :: "u64 \<Rightarrow> u8 list \<Rightarrow> ('c, 'w) rr \<Rightarrow> ('c, 'w) rr option" where
  "copy_to p bs s = do { m \<leftarrow> memcpy p bs (umem s); Some (s\<lparr>umem := m\<rparr>) }"

section \<open>log.c\<close>

text \<open>\<open>msg\<close> is the formatted message, what \<^verbatim>\<open>vsnprintf\<close> would print in full.\<close>

definition rr_debugf :: "'w os \<Rightarrow> string \<Rightarrow> ('c, 'w) rr \<Rightarrow> ('c, 'w) rr" where
  "rr_debugf os msg s =
     (if \<not> debug (cfg s) then s
      else let n = length msg in
        if n \<le> 0 then s
        else let n = (if n \<ge> 512 then 511 else n)
             in (case os_write os 2 (str_bytes (take n msg)) (world s) of
                   (Inl e, w) \<Rightarrow> s\<lparr>errno := e, world := w\<rparr>
                 | (Inr k, w) \<Rightarrow> s\<lparr>world := w\<rparr>))"

section \<open>Frame facts\<close>

lemma kcall_eq: "kcall f s = (fst (f (world s)), s\<lparr>world := snd (f (world s))\<rparr>)"
  by (simp add: kcall_def split: prod.split)

lemma rr_debugf_quiet [simp]: "\<not> debug (cfg s) \<Longrightarrow> rr_debugf os msg s = s"
  by (simp add: rr_debugf_def)

lemma rr_debugf_frame [simp]:
  "cfg (rr_debugf os msg s) = cfg s" "sch (rr_debugf os msg s) = sch s" "rcd (rr_debugf os msg s) = rcd s"
  "rpl (rr_debugf os msg s) = rpl s" "iou (rr_debugf os msg s) = iou s" "sigs (rr_debugf os msg s) = sigs s"
  "uth (rr_debugf os msg s) = uth s" "umem (rr_debugf os msg s) = umem s"
  by (simp_all add: rr_debugf_def Let_def split: prod.split sum.split)

lemma rr_active_cong: "cfg s = cfg t \<Longrightarrow> rr_active s = rr_active t"
  by (simp add: rr_active_def)

section \<open>Hypotheses about the environment\<close>

text \<open>Allocation succeeds.\<close>

definition alloc_ok :: "'w os \<Rightarrow> bool" where
  "alloc_ok os \<longleftrightarrow> (\<forall>n w. \<exists>w'. os_alloc os n w = (Inr (), w'))"

text \<open>The log file is written by the runtime alone: no other call changes its content \<open>fl\<close>.\<close>

definition log_private :: "'w os \<Rightarrow> ('w \<Rightarrow> u8 list) \<Rightarrow> bool" where
  "log_private os fl \<longleftrightarrow> (\<forall>w.
     (\<forall>n b. fl (snd (os_mmap os n b w)) = fl w) \<and> (\<forall>a n. fl (snd (os_mprotect_rw os a n w)) = fl w)
     \<and> (\<forall>a n. fl (os_munmap os a n w) = fl w) \<and> (\<forall>n. fl (snd (os_alloc os n w)) = fl w)
     \<and> fl (snd (os_getcontext os w)) = fl w \<and> (\<forall>b. fl (snd (os_set_fs os b w)) = fl w) \<and> fl (snd (os_get_fs os w)) = fl w
     \<and> (\<forall>fd. fl (os_close os fd w) = fl w) \<and> fl (snd (os_timerfd_create os w)) = fl w
     \<and> (\<forall>fd sp. fl (snd (os_timerfd_settime os fd sp w)) = fl w) \<and> fl (snd (os_get_sqe os w)) = fl w
     \<and> (\<forall>i q. fl (os_prep_sqe os i q w) = fl w) \<and> fl (snd (os_submit os w)) = fl w \<and> fl (snd (os_wait_cqe os w)) = fl w
     \<and> fl (os_cqe_seen os w) = fl w \<and> fl (os_uring_exit os w) = fl w
     \<and> (\<forall>c m. fl (snd (snd (os_real os c m w))) = fl w))"

lemma log_privateD:
  assumes "log_private os fl"
  shows "fl (snd (os_mmap os n b w)) = fl w" "fl (snd (os_mprotect_rw os a k w)) = fl w" "fl (os_munmap os a k w) = fl w"
    "fl (snd (os_alloc os j w)) = fl w" "fl (snd (os_getcontext os w)) = fl w" "fl (snd (os_set_fs os b' w)) = fl w"
    "fl (snd (os_get_fs os w)) = fl w" "fl (os_close os fd w) = fl w" "fl (snd (os_timerfd_create os w)) = fl w"
    "fl (snd (os_timerfd_settime os fd sp w)) = fl w" "fl (snd (os_get_sqe os w)) = fl w" "fl (os_prep_sqe os i q w) = fl w"
    "fl (snd (os_submit os w)) = fl w" "fl (snd (os_wait_cqe os w)) = fl w" "fl (os_cqe_seen os w) = fl w"
    "fl (os_uring_exit os w) = fl w" "fl (snd (snd (os_real os c m w))) = fl w"
  using assms unfolding log_private_def by blast+

lemma kres_cases:
  obtains (fail) e w where "kres f s = (None, s\<lparr>errno := e, world := w\<rparr>)" "f (world s) = (Inl e, w)"
  | (ok) v w where "kres f s = (Some v, s\<lparr>world := w\<rparr>)" "f (world s) = (Inr v, w)"
proof -
  obtain r w where "f (world s) = (r, w)" by (cases "f (world s)")
  then show ?thesis using fail ok by (cases r) (auto simp: kres_def)
qed

text \<open>\<open>quiet os w w'\<close>: from \<open>w\<close> to \<open>w'\<close> no log that is private to the runtime has changed.\<close>

definition quiet :: "'w os \<Rightarrow> 'w \<Rightarrow> 'w \<Rightarrow> bool" where
  "quiet os w w' \<longleftrightarrow> (\<forall>fl. log_private os fl \<longrightarrow> fl w' = fl w)"

lemma quiet_refl [simp]: "quiet os w w"
  by (simp add: quiet_def)

lemma quiet_trans [trans]: "quiet os u v \<Longrightarrow> quiet os v w \<Longrightarrow> quiet os u w"
  unfolding quiet_def by metis

lemma quietD: "quiet os w w' \<Longrightarrow> log_private os fl \<Longrightarrow> fl w' = fl w"
  by (simp add: quiet_def)

lemma quiet_kdo [simp]:
  "quiet os u (os_munmap os a k w) = quiet os u w" "quiet os u (os_close os fd w) = quiet os u w"
  "quiet os u (os_prep_sqe os i q w) = quiet os u w" "quiet os u (os_cqe_seen os w) = quiet os u w"
  "quiet os u (os_uring_exit os w) = quiet os u w"
  by (simp_all add: quiet_def log_privateD)

lemma quiet_calls:
  "os_mmap os n b w = (mr, w') \<Longrightarrow> quiet os w w'" "os_mprotect_rw os a k w = (ur, w') \<Longrightarrow> quiet os w w'"
  "os_alloc os j w = (ur, w') \<Longrightarrow> quiet os w w'" "os_getcontext os w = (ur, w') \<Longrightarrow> quiet os w w'"
  "os_set_fs os b' w = (ur, w') \<Longrightarrow> quiet os w w'" "os_get_fs os w = (mr, w') \<Longrightarrow> quiet os w w'"
  "os_timerfd_create os w = (ir, w') \<Longrightarrow> quiet os w w'" "os_timerfd_settime os fd sp w = (ur, w') \<Longrightarrow> quiet os w w'"
  "os_get_sqe os w = (sr, w') \<Longrightarrow> quiet os w w'" "os_submit os w = (wr, w') \<Longrightarrow> quiet os w w'"
  "os_wait_cqe os w = (cr, w') \<Longrightarrow> quiet os w w'" "os_real os c m w = (ir, m', w') \<Longrightarrow> quiet os w w'"
  unfolding quiet_def by (metis log_privateD snd_conv)+

end
