(* ===== verification/RR_Record.thy ===== *)
theory RR_Record
  imports RR_State
begin

text \<open>
  The recording side, \<^verbatim>\<open>record.c\<close>: the write loop, the log ring and its flush, sequence
  numbers and the three kinds of log events. (\<^verbatim>\<open>rr_record_init\<close> calls two of the wrapped libc
  functions and is in \<open>RR_Init\<close>.) The locale \<open>log_sink\<close> is the contract the rest of the runtime
  relies on: appending adds bytes to the logical log, flushing makes it durable; it is
  interpreted on the ring buffer under the hypothesis \<open>write_ok\<close> on the kernel's
  \<^verbatim>\<open>write\<close>.
\<close>

section \<open>Writing to the log file\<close>

definition rr_resolve_real_io :: "'w os \<Rightarrow> ('c, 'w) rr \<Rightarrow> int \<times> ('c, 'w) rr" where
  "rr_resolve_real_io os s =
     (let r = rcd s;
          r = (if \<not> rec_real_write r then r\<lparr>rec_real_write := os_dlsym os ''write''\<rparr> else r);
          r = (if \<not> rec_real_open r then r\<lparr>rec_real_open := os_dlsym os ''open''\<rparr> else r);
          r = (if \<not> rec_real_close r then r\<lparr>rec_real_close := os_dlsym os ''close''\<rparr> else r)
      in (if rec_real_write r \<and> rec_real_open r \<and> rec_real_close r then 0 else -1, s\<lparr>rcd := r\<rparr>))"

text \<open>The loop of \<^verbatim>\<open>rr_write_direct\<close>: the result is its return code and \<^verbatim>\<open>errno\<close>. It need
  not end when \<^verbatim>\<open>write\<close> keeps failing with \<^verbatim>\<open>EINTR\<close>.\<close>

partial_function (option) write_loop ::
  "'w os \<Rightarrow> int \<Rightarrow> u8 list \<Rightarrow> nat \<Rightarrow> i32 \<Rightarrow> 'w \<Rightarrow> (int \<times> i32 \<times> 'w) option" where
  "write_loop os fd bs written err w =
     (if written < length bs then
        (case os_write os fd (drop written bs) w of
           (Inl e, w) \<Rightarrow> if e = EINTR then write_loop os fd bs written e w else Some (-1, e, w)
         | (Inr rc, w) \<Rightarrow> if rc = 0 then Some (-1, err, w) else write_loop os fd bs (written + rc) err w)
      else Some (0, err, w))"

definition rr_write_direct :: "'w os \<Rightarrow> u8 list \<Rightarrow> ('c, 'w) rr \<Rightarrow> (int \<times> ('c, 'w) rr) option" where
  "rr_write_direct os bs s =
     do { (rc, e, w) \<leftarrow> write_loop os (g_log_fd (rcd s)) bs 0 (errno s) (world s);
          Some (rc, s\<lparr>errno := e, world := w\<rparr>) }"

section \<open>The ring\<close>

definition ring_bytes :: "rec_state \<Rightarrow> u8 list" where
  "ring_bytes r = map (g_ring_buf r) [0..<g_ring_used r]"

definition ring_put :: "nat \<Rightarrow> u8 list \<Rightarrow> (nat \<Rightarrow> u8) \<Rightarrow> (nat \<Rightarrow> u8)" where
  "ring_put off bs f = (\<lambda>i. if off \<le> i \<and> i < off + length bs then bs ! (i - off) else f i)"

definition msg_flush_failed :: string where
  "msg_flush_failed = ''[rr] failed flushing log buffer'' @ [CHR 0x0A]"

definition rr_record_flush :: "'w os \<Rightarrow> ('c, 'w) rr \<Rightarrow> ('c, 'w) rr option" where
  "rr_record_flush os s =
     (if g_log_fd (rcd s) < 0 \<or> g_ring (rcd s) = None \<or> g_ring_used (rcd s) = 0 then Some s
      else do {
        (rc, s) \<leftarrow> rr_write_direct os (ring_bytes (rcd s)) s;
        let s = (if rc \<noteq> 0 then rr_debugf os msg_flush_failed s else s);
        Some (s\<lparr>rcd := (rcd s)\<lparr>g_ring_used := 0\<rparr>\<rparr>)
      })"

definition rr_record_append :: "'w os \<Rightarrow> u8 list \<Rightarrow> ('c, 'w) rr \<Rightarrow> ('c, 'w) rr option" where
  "rr_record_append os entry s =
     (if g_ring (rcd s) = None then Some s
      else if length entry > RR_LOG_RING_SIZE then do {
        s \<leftarrow> rr_record_flush os s;
        (rc, s) \<leftarrow> rr_write_direct os entry s;
        Some s
      }
      else do {
        s \<leftarrow> (if g_ring_used (rcd s) + length entry > RR_LOG_RING_SIZE then rr_record_flush os s else Some s);
        let r = rcd s;
        Some (s\<lparr>rcd := r\<lparr>g_ring_buf := ring_put (g_ring_used r) entry (g_ring_buf r),
                         g_ring_used := g_ring_used r + length entry\<rparr>\<rparr>)
      })"

definition rr_record_shutdown :: "'w os \<Rightarrow> ('c, 'w) rr \<Rightarrow> ('c, 'w) rr option" where
  "rr_record_shutdown os s =
     do {
       s \<leftarrow> rr_record_flush os s;
       let s = (if 0 \<le> g_log_fd (rcd s) \<and> rec_real_close (rcd s)
                then (kdo (os_close os (g_log_fd (rcd s))) s)\<lparr>rcd := (rcd s)\<lparr>g_log_fd := -1\<rparr>\<rparr> else s);
       Some (case g_ring (rcd s) of None \<Rightarrow> s
             | Some a \<Rightarrow> (kdo (os_munmap os a (of_nat RR_LOG_RING_SIZE)) s)\<lparr>rcd := (rcd s)\<lparr>g_ring := None\<rparr>\<rparr>)
     }"

section \<open>Log events\<close>

definition rr_next_seq :: "('c, 'w) rr \<Rightarrow> u64 \<times> ('c, 'w) rr" where
  "rr_next_seq s = (let r = (rcd s)\<lparr>g_rr_seq := g_rr_seq (rcd s) + 1\<rparr> in (g_rr_seq r, s\<lparr>rcd := r\<rparr>))"

definition syscall_event :: "u64 \<Rightarrow> u64 \<Rightarrow> i32 \<Rightarrow> i32 \<Rightarrow> u64 \<Rightarrow> u8 list \<Rightarrow> rr_event_t" where
  "syscall_event sq utid nr retval arg0 bs =
     \<lparr> ev_seq = sq, ev_uthread_id = utid, ev_type = EV_SYSCALL, ev_reserved = 0,
       ev_payload = PSyscall \<lparr> sc_nr = nr, sc_retval = retval, sc_arg0 = arg0,
         sc_data = pad sizeof_data bs, sc_data_len = of_nat (length bs) \<rparr> \<rparr>"

text \<open>The bytes that \<^verbatim>\<open>rr_log_syscall\<close> copies: none from NULL, at most 64 otherwise.\<close>

definition logged_data :: "mem \<Rightarrow> u64 \<Rightarrow> u32 \<Rightarrow> u8 list" where
  "logged_data m data data_len =
     (if data \<noteq> 0 \<and> 0 < data_len
      then (let capped = (if unat data_len > sizeof_data then sizeof_data else unat data_len)
            in read_mem m data capped)
      else [])"

definition rr_log_syscall ::
  "'w os \<Rightarrow> i32 \<Rightarrow> i32 \<Rightarrow> u64 \<Rightarrow> u64 \<Rightarrow> u32 \<Rightarrow> ('c, 'w) rr \<Rightarrow> ('c, 'w) rr option" where
  "rr_log_syscall os nr retval arg0 data data_len s =
     (if \<not> rr_active s then Some s
      else do {
        let (sq, s) = rr_next_seq s;
        utid \<leftarrow> current_id s;
        let ev = syscall_event sq utid nr retval arg0 (logged_data (umem s) data data_len);
        rr_record_append os (enc_event ev) s
      })"

definition signal_event :: "u64 \<Rightarrow> u64 \<Rightarrow> u32 \<Rightarrow> u32 \<Rightarrow> rr_event_t" where
  "signal_event sq utid signo active =
     \<lparr> ev_seq = sq, ev_uthread_id = utid, ev_type = EV_SIGNAL, ev_reserved = 0,
       ev_payload = PSignal \<lparr> sg_signo = signo, sg_active_uthread = active \<rparr> \<rparr>"

definition rr_log_signal :: "'w os \<Rightarrow> u32 \<Rightarrow> u32 \<Rightarrow> ('c, 'w) rr \<Rightarrow> ('c, 'w) rr option" where
  "rr_log_signal os signo active s =
     (if \<not> rr_active s then Some s
      else do {
        let (sq, s) = rr_next_seq s;
        utid \<leftarrow> current_id s;
        rr_record_append os (enc_event (signal_event sq utid signo active)) s
      })"

definition sched_event :: "u64 \<Rightarrow> u64 \<Rightarrow> u64 \<Rightarrow> rr_event_t" where
  "sched_event sq from_id to_id =
     \<lparr> ev_seq = sq, ev_uthread_id = to_id, ev_type = EV_SCHED, ev_reserved = 0,
       ev_payload = PSched \<lparr> sd_from_id = from_id, sd_to_id = to_id \<rparr> \<rparr>"

definition rr_log_sched :: "'w os \<Rightarrow> u64 \<Rightarrow> u64 \<Rightarrow> ('c, 'w) rr \<Rightarrow> ('c, 'w) rr option" where
  "rr_log_sched os from_id to_id s =
     (if \<not> mode_record (cfg s) then Some s
      else do {
        let (sq, s) = rr_next_seq s;
        rr_record_append os (enc_event (sched_event sq from_id to_id)) s
      })"

section \<open>What the log functions change\<close>

text \<open>Apart from \<^verbatim>\<open>errno\<close> and the world, only the ring.\<close>

definition log_frame :: "('c, 'w) rr \<Rightarrow> ('c, 'w) rr \<Rightarrow> bool" where
  "log_frame s s' \<longleftrightarrow> (\<exists>e w b u. s' = s\<lparr>errno := e, world := w, rcd := (rcd s)\<lparr>g_ring_buf := b, g_ring_used := u\<rparr>\<rparr>)"

lemma log_frame_refl [simp]: "log_frame s s"
proof -
  have "s = s\<lparr>errno := errno s, world := world s, rcd := (rcd s)\<lparr>g_ring_buf := g_ring_buf (rcd s), g_ring_used := g_ring_used (rcd s)\<rparr>\<rparr>"
    by simp
  then show ?thesis unfolding log_frame_def by blast
qed

lemma log_frameI: "log_frame s (s\<lparr>errno := e, world := w, rcd := (rcd s)\<lparr>g_ring_buf := b, g_ring_used := u\<rparr>\<rparr>)"
  by (auto simp: log_frame_def)

lemma log_frame_trans: "log_frame s t \<Longrightarrow> log_frame t u \<Longrightarrow> log_frame s u"
  unfolding log_frame_def by (elim exE) (simp, metis)

lemma log_frameD:
  assumes "log_frame s s'"
  shows "cfg s' = cfg s" "sch s' = sch s" "rpl s' = rpl s" "iou s' = iou s" "sigs s' = sigs s" "uth s' = uth s"
    "umem s' = umem s" "g_log_fd (rcd s') = g_log_fd (rcd s)" "g_ring (rcd s') = g_ring (rcd s)"
    "g_rr_seq (rcd s') = g_rr_seq (rcd s)" "rec_real_close (rcd s') = rec_real_close (rcd s)"
  using assms by (auto simp: log_frame_def)

lemma log_frame_errno_world: "log_frame s (s\<lparr>errno := e, world := w\<rparr>)"
proof -
  have "s\<lparr>errno := e, world := w\<rparr> = s\<lparr>errno := e, world := w,
      rcd := (rcd s)\<lparr>g_ring_buf := g_ring_buf (rcd s), g_ring_used := g_ring_used (rcd s)\<rparr>\<rparr>" by simp
  then show ?thesis unfolding log_frame_def by blast
qed

lemma log_frame_used: "log_frame s (s\<lparr>rcd := (rcd s)\<lparr>g_ring_used := u\<rparr>\<rparr>)"
proof -
  have "s\<lparr>rcd := (rcd s)\<lparr>g_ring_used := u\<rparr>\<rparr> = s\<lparr>errno := errno s, world := world s,
      rcd := (rcd s)\<lparr>g_ring_buf := g_ring_buf (rcd s), g_ring_used := u\<rparr>\<rparr>" by simp
  then show ?thesis unfolding log_frame_def by blast
qed

lemma log_frame_put: "log_frame s (s\<lparr>rcd := (rcd s)\<lparr>g_ring_buf := b, g_ring_used := u\<rparr>\<rparr>)"
proof -
  have "s\<lparr>rcd := (rcd s)\<lparr>g_ring_buf := b, g_ring_used := u\<rparr>\<rparr> = s\<lparr>errno := errno s, world := world s,
      rcd := (rcd s)\<lparr>g_ring_buf := b, g_ring_used := u\<rparr>\<rparr>" by simp
  then show ?thesis unfolding log_frame_def by blast
qed

lemma log_frame_world: "log_frame s (s\<lparr>world := w\<rparr>)"
  using log_frame_errno_world [where s = s and e = "errno s" and w = w] by simp

lemma rr_debugf_log_frame: "log_frame s (rr_debugf os msg s)"
  by (simp add: rr_debugf_def Let_def log_frame_errno_world log_frame_world split: prod.split sum.split)

lemma write_direct_frame: "rr_write_direct os bs s = Some (rc, s') \<Longrightarrow> log_frame s s'"
  by (auto simp: rr_write_direct_def log_frame_errno_world)

lemma flush_frame:
  assumes "rr_record_flush os s = Some s'"
  shows "log_frame s s'"
proof (cases "g_log_fd (rcd s) < 0 \<or> g_ring (rcd s) = None \<or> g_ring_used (rcd s) = 0")
  case True
  then show ?thesis using assms by (simp add: rr_record_flush_def)
next
  case False
  obtain rc t where w: "rr_write_direct os (ring_bytes (rcd s)) s = Some (rc, t)"
    and s': "s' = (let t = (if rc \<noteq> 0 then rr_debugf os msg_flush_failed t else t) in t\<lparr>rcd := (rcd t)\<lparr>g_ring_used := 0\<rparr>\<rparr>)"
    using assms False by (auto simp: rr_record_flush_def Let_def)
  have "log_frame t (if rc \<noteq> 0 then rr_debugf os msg_flush_failed t else t)"
    by (simp add: rr_debugf_log_frame)
  then have "log_frame t s'" unfolding s' Let_def using log_frame_used by (rule log_frame_trans)
  with write_direct_frame [OF w] show ?thesis by (rule log_frame_trans)
qed

lemma append_frame: "rr_record_append os e s = Some s' \<Longrightarrow> log_frame s s'"
  by (auto simp: rr_record_append_def Let_def split: if_splits
      intro: log_frame_put log_frame_trans [OF flush_frame write_direct_frame] log_frame_trans [OF flush_frame log_frame_put])

lemma append_cases:
  assumes "g_ring (rcd s) \<noteq> None" and "length e \<le> RR_LOG_RING_SIZE"
  shows "rr_record_append os e s = do {
     s \<leftarrow> (if g_ring_used (rcd s) + length e > RR_LOG_RING_SIZE then rr_record_flush os s else Some s);
     Some (s\<lparr>rcd := (rcd s)\<lparr>g_ring_buf := ring_put (g_ring_used (rcd s)) e (g_ring_buf (rcd s)),
                           g_ring_used := g_ring_used (rcd s) + length e\<rparr>\<rparr>) }"
  using assms by (auto simp: rr_record_append_def Let_def)

section \<open>Total correctness of the write loop\<close>

text \<open>What \<^verbatim>\<open>write(2)\<close> promises on a healthy log file: it writes at least one byte of a non-empty
  buffer and reports how many, or it is interrupted by a signal, which happens only finitely
  often (\<open>\<mu>\<close> bounds it). \<open>file\<close> is the content of the log file.\<close>

definition write_ok :: "'w os \<Rightarrow> int \<Rightarrow> ('w \<Rightarrow> u8 list) \<Rightarrow> ('w \<Rightarrow> nat) \<Rightarrow> bool" where
  "write_ok os fd file \<mu> \<longleftrightarrow> (\<forall>bs w. bs \<noteq> [] \<longrightarrow>
     (case os_write os fd bs w of
        (Inl e, w') \<Rightarrow> e = EINTR \<and> file w' = file w \<and> \<mu> w' < \<mu> w
      | (Inr n, w') \<Rightarrow> 0 < n \<and> n \<le> length bs \<and> file w' = file w @ take n bs \<and> \<mu> w' \<le> \<mu> w))"

lemma write_ok_cases:
  assumes "write_ok os fd file \<mu>" and "bs \<noteq> []"
  obtains (intr) w' where "os_write os fd bs w = (Inl EINTR, w')" "file w' = file w" "\<mu> w' < \<mu> w"
  | (wrote) n w' where "os_write os fd bs w = (Inr n, w')" "0 < n" "n \<le> length bs" "file w' = file w @ take n bs" "\<mu> w' \<le> \<mu> w"
proof -
  obtain r w' where r: "os_write os fd bs w = (r, w')" by (cases "os_write os fd bs w")
  from assms(1) [unfolded write_ok_def, rule_format, OF assms(2), of w] show ?thesis
    using r intr wrote by (cases r) auto
qed

lemma write_loop_total:
  assumes ok: "write_ok os fd file \<mu>"
  shows "written \<le> length bs \<Longrightarrow>
    \<exists>e w'. write_loop os fd bs written err w = Some (0, e, w') \<and> file w' = file w @ drop written bs"
proof (induction "length bs - written + \<mu> w" arbitrary: written err w rule: less_induct)
  case less
  show ?case
  proof (cases "written < length bs")
    case False
    then show ?thesis using less.prems by (simp add: write_loop.simps)
  next
    case True
    then have ne: "drop written bs \<noteq> []" by simp
    from ok ne show ?thesis
    proof (cases rule: write_ok_cases [where w = w])
      case (intr w')
      then have "length bs - written + \<mu> w' < length bs - written + \<mu> w" by simp
      from less.hyps [OF this less.prems, of EINTR] obtain e w'' where
        "write_loop os fd bs written EINTR w' = Some (0, e, w'')" "file w'' = file w' @ drop written bs" by blast
      then show ?thesis using intr True by (simp add: write_loop.simps [of os fd bs written err w])
    next
      case (wrote n w')
      have le: "written + n \<le> length bs" and lt: "length bs - (written + n) + \<mu> w' < length bs - written + \<mu> w"
        using wrote(2,3,5) True by auto
      from less.hyps [OF lt le, of err] obtain e w'' where
        "write_loop os fd bs (written + n) err w' = Some (0, e, w'')" "file w'' = file w' @ drop (written + n) bs" by blast
      moreover have "take n (drop written bs) @ drop (written + n) bs = drop written bs"
        by (metis add.commute append_take_drop_id drop_drop)
      ultimately show ?thesis using wrote True by (simp add: write_loop.simps [of os fd bs written err w])
    qed
  qed
qed

lemma write_direct_total:
  assumes "write_ok os (g_log_fd (rcd s)) file \<mu>"
  shows "\<exists>e w. rr_write_direct os bs s = Some (0, s\<lparr>errno := e, world := w\<rparr>) \<and> file w = file (world s) @ bs"
  using write_loop_total [OF assms, of 0 bs "errno s" "world s"]
  by (auto simp: rr_write_direct_def)

section \<open>The ring holds the end of the log\<close>

definition contents :: "('w \<Rightarrow> u8 list) \<Rightarrow> ('c, 'w) rr \<Rightarrow> u8 list" where
  "contents file s = file (world s) @ ring_bytes (rcd s)"

definition rec_inv :: "'w os \<Rightarrow> ('w \<Rightarrow> u8 list) \<Rightarrow> ('w \<Rightarrow> nat) \<Rightarrow> ('c, 'w) rr \<Rightarrow> bool" where
  "rec_inv os file \<mu> s \<longleftrightarrow> 0 \<le> g_log_fd (rcd s) \<and> g_ring (rcd s) \<noteq> None
     \<and> g_ring_used (rcd s) \<le> RR_LOG_RING_SIZE \<and> write_ok os (g_log_fd (rcd s)) file \<mu>"

lemma ring_bytes_put:
  "ring_bytes (r\<lparr>g_ring_buf := ring_put (g_ring_used r) bs (g_ring_buf r), g_ring_used := g_ring_used r + length bs\<rparr>)
     = ring_bytes r @ bs"
  by (rule nth_equalityI) (auto simp: ring_bytes_def ring_put_def nth_append)

lemma ring_bytes_empty: "g_ring_used r = 0 \<Longrightarrow> ring_bytes r = []"
  by (simp add: ring_bytes_def)

lemma flush_total:
  assumes "rec_inv os file \<mu> s"
  shows "\<exists>s'. rr_record_flush os s = Some s' \<and> rec_inv os file \<mu> s' \<and> file (world s') = contents file s
    \<and> g_ring_used (rcd s') = 0"
proof (cases "g_ring_used (rcd s) = 0")
  case True
  then show ?thesis using assms by (auto simp: rr_record_flush_def contents_def ring_bytes_empty)
next
  case False
  have ok: "write_ok os (g_log_fd (rcd s)) file \<mu>" using assms by (simp add: rec_inv_def)
  obtain e w where w: "rr_write_direct os (ring_bytes (rcd s)) s = Some (0, s\<lparr>errno := e, world := w\<rparr>)"
    "file w = contents file s"
    using write_direct_total [OF ok] unfolding contents_def by blast
  show ?thesis using w False assms by (auto simp: rr_record_flush_def rec_inv_def)
qed

lemma append_total:
  assumes inv: "rec_inv os file \<mu> s" and len: "length e \<le> RR_LOG_RING_SIZE"
  shows "\<exists>s'. rr_record_append os e s = Some s' \<and> rec_inv os file \<mu> s' \<and> contents file s' = contents file s @ e"
proof -
  let ?full = "g_ring_used (rcd s) + length e > RR_LOG_RING_SIZE"
  obtain t where t: "(if ?full then rr_record_flush os s else Some s) = Some t" "rec_inv os file \<mu> t"
    "contents file t = contents file s" "g_ring_used (rcd t) + length e \<le> RR_LOG_RING_SIZE"
  proof (cases ?full)
    case True
    then show ?thesis using that flush_total [OF inv] len by (auto simp: contents_def ring_bytes_empty)
  next
    case False
    then show ?thesis using that inv by auto
  qed
  have "rr_record_append os e s = Some (t\<lparr>rcd := (rcd t)\<lparr>g_ring_buf := ring_put (g_ring_used (rcd t)) e (g_ring_buf (rcd t)),
      g_ring_used := g_ring_used (rcd t) + length e\<rparr>\<rparr>)"
    using append_cases [of s e os] inv len t(1) by (simp add: rec_inv_def)
  then show ?thesis using t by (simp add: contents_def ring_bytes_put rec_inv_def)
qed

section \<open>The contract of the log\<close>

primrec append_all :: "(u8 list \<Rightarrow> 's \<Rightarrow> 's option) \<Rightarrow> u8 list list \<Rightarrow> 's \<Rightarrow> 's option" where
  "append_all app [] s = Some s"
| "append_all app (e # es) s = do { s \<leftarrow> app e s; append_all app es s }"

locale log_sink =
  fixes app :: "u8 list \<Rightarrow> 's \<Rightarrow> 's option"
    and flush :: "'s \<Rightarrow> 's option"
    and all_bytes :: "'s \<Rightarrow> u8 list"
    and durable :: "'s \<Rightarrow> u8 list"
    and inv :: "'s \<Rightarrow> bool"
    and limit :: nat
  assumes app_adds: "inv s \<Longrightarrow> length e \<le> limit \<Longrightarrow>
      \<exists>s'. app e s = Some s' \<and> inv s' \<and> all_bytes s' = all_bytes s @ e"
    and flush_durable: "inv s \<Longrightarrow> \<exists>s'. flush s = Some s' \<and> inv s' \<and> durable s' = all_bytes s \<and> all_bytes s' = all_bytes s"
begin

lemma append_all_adds:
  "inv s \<Longrightarrow> \<forall>e \<in> set es. length e \<le> limit \<Longrightarrow>
   \<exists>s'. append_all app es s = Some s' \<and> inv s' \<and> all_bytes s' = all_bytes s @ concat es"
proof (induction es arbitrary: s)
  case Nil
  then show ?case by simp
next
  case (Cons e es)
  then obtain s1 where s1: "app e s = Some s1" "inv s1" "all_bytes s1 = all_bytes s @ e"
    using app_adds [of s e] by auto
  with Cons.IH [of s1] Cons.prems show ?case by auto
qed

lemma append_all_durable:
  assumes "inv s" and "\<forall>e \<in> set es. length e \<le> limit"
  shows "\<exists>s' s''. append_all app es s = Some s' \<and> flush s' = Some s'' \<and> durable s'' = all_bytes s @ concat es"
  using append_all_adds [OF assms] flush_durable by metis

end

interpretation ring: log_sink "rr_record_append os" "rr_record_flush os" "contents fl" "\<lambda>s. fl (world s)"
  "rec_inv os fl m" RR_LOG_RING_SIZE for os fl m
proof unfold_locales
  fix s :: "('b, 'a) rr" and e :: "u8 list"
  assume "rec_inv os fl m s" and "length e \<le> RR_LOG_RING_SIZE"
  then show "\<exists>s'. rr_record_append os e s = Some s' \<and> rec_inv os fl m s' \<and> contents fl s' = contents fl s @ e"
    by (rule append_total)
next
  fix s :: "('b, 'a) rr"
  assume "rec_inv os fl m s"
  from flush_total [OF this] show "\<exists>s'. rr_record_flush os s = Some s' \<and> rec_inv os fl m s'
      \<and> fl (world s') = contents fl s \<and> contents fl s' = contents fl s"
    by (auto simp: contents_def ring_bytes_empty)
qed

section \<open>The log as a numbered sequence of events\<close>

definition numbered :: "rr_event_t list \<Rightarrow> bool" where
  "numbered evs \<longleftrightarrow> map ev_seq evs = map (\<lambda>i. of_nat (Suc i)) [0..<length evs]"

definition event_log :: "('w \<Rightarrow> u8 list) \<Rightarrow> ('c, 'w) rr \<Rightarrow> u8 list \<Rightarrow> rr_event_t list \<Rightarrow> bool" where
  "event_log file s hdr evs \<longleftrightarrow> contents file s = hdr @ concat (map enc_event evs)
     \<and> (\<forall>ev \<in> set evs. wf_event ev) \<and> numbered evs \<and> g_rr_seq (rcd s) = of_nat (length evs)"

lemma numbered_snoc: "numbered (evs @ [ev]) \<longleftrightarrow> numbered evs \<and> ev_seq ev = of_nat (Suc (length evs))"
  by (auto simp: numbered_def)

lemma wf_events [simp]:
  "wf_event (syscall_event sq utid nr retval arg0 bs)" "wf_event (signal_event sq utid signo active)"
  "wf_event (sched_event sq f t)"
  by (simp_all add: wf_event_def syscall_event_def signal_event_def sched_event_def sizeofs)

lemma ev_seq_events [simp]:
  "ev_seq (syscall_event sq utid nr retval arg0 bs) = sq" "ev_seq (signal_event sq utid signo active) = sq"
  "ev_seq (sched_event sq f t) = sq"
  by (simp_all add: syscall_event_def signal_event_def sched_event_def)

lemma sizeof_event_ring: "sizeof_event \<le> RR_LOG_RING_SIZE"
  by (simp add: sizeofs RR_LOG_RING_SIZE_def)

text \<open>One event appended after taking the next sequence number.\<close>

lemma log_event_step:
  assumes inv: "rec_inv os file \<mu> s" and log: "event_log file s hdr evs"
    and wf: "wf_event ev" and sq: "ev_seq ev = g_rr_seq (rcd s) + 1"
  shows "\<exists>s'. rr_record_append os (enc_event ev) (snd (rr_next_seq s)) = Some s' \<and> rec_inv os file \<mu> s'
    \<and> event_log file s' hdr (evs @ [ev]) \<and> log_frame (snd (rr_next_seq s)) s'"
proof -
  let ?t = "snd (rr_next_seq s)"
  have t: "rec_inv os file \<mu> ?t" "contents file ?t = contents file s" "g_rr_seq (rcd ?t) = g_rr_seq (rcd s) + 1"
    using inv by (simp_all add: rr_next_seq_def rec_inv_def contents_def ring_bytes_def Let_def)
  obtain s' where s': "rr_record_append os (enc_event ev) ?t = Some s'" "rec_inv os file \<mu> s'"
    "contents file s' = contents file ?t @ enc_event ev"
    using append_total [OF t(1), of "enc_event ev"] sizeof_event_ring by auto
  have fr: "log_frame ?t s'" using s'(1) by (rule append_frame)
  have "event_log file s' hdr (evs @ [ev])"
    using log s'(3) t wf sq log_frameD(10) [OF fr] by (simp add: event_log_def numbered_snoc)
  with s' fr show ?thesis by blast
qed

lemma rr_next_seq_frame:
  "cfg (snd (rr_next_seq s)) = cfg s" "sch (snd (rr_next_seq s)) = sch s" "umem (snd (rr_next_seq s)) = umem s"
  "current_id (snd (rr_next_seq s)) = current_id s" "fst (rr_next_seq s) = g_rr_seq (rcd s) + 1"
  by (simp_all add: rr_next_seq_def Let_def current_id_def split: option.split)

lemma log_sched_total:
  assumes "mode_record (cfg s)" and inv: "rec_inv os file \<mu> s" and log: "event_log file s hdr evs"
  shows "\<exists>s'. rr_log_sched os f t s = Some s' \<and> rec_inv os file \<mu> s'
    \<and> event_log file s' hdr (evs @ [sched_event (of_nat (Suc (length evs))) f t]) \<and> log_frame (snd (rr_next_seq s)) s'"
proof -
  have sq: "g_rr_seq (rcd s) + 1 = of_nat (Suc (length evs))" using log by (simp add: event_log_def)
  have "rr_log_sched os f t s =
    rr_record_append os (enc_event (sched_event (of_nat (Suc (length evs))) f t)) (snd (rr_next_seq s))"
    using assms(1) sq by (simp add: rr_log_sched_def rr_next_seq_frame case_prod_beta del: of_nat_Suc)
  then show ?thesis using log_event_step [OF inv log] sq by (simp del: of_nat_Suc)
qed

lemma log_syscall_total:
  assumes "rr_active s" and inv: "rec_inv os file \<mu> s" and log: "event_log file s hdr evs" and cur: "current_id s = Some utid"
  shows "\<exists>s'. rr_log_syscall os nr retval arg0 data len s = Some s' \<and> rec_inv os file \<mu> s'
    \<and> event_log file s' hdr (evs @ [syscall_event (of_nat (Suc (length evs))) utid nr retval arg0 (logged_data (umem s) data len)])
    \<and> log_frame (snd (rr_next_seq s)) s'"
proof -
  have sq: "g_rr_seq (rcd s) + 1 = of_nat (Suc (length evs))" using log by (simp add: event_log_def)
  have "rr_log_syscall os nr retval arg0 data len s = rr_record_append os
      (enc_event (syscall_event (of_nat (Suc (length evs))) utid nr retval arg0 (logged_data (umem s) data len))) (snd (rr_next_seq s))"
    using assms(1) sq cur by (simp add: rr_log_syscall_def rr_next_seq_frame case_prod_beta del: of_nat_Suc)
  then show ?thesis using log_event_step [OF inv log] sq by (simp del: of_nat_Suc)
qed

lemma log_signal_total:
  assumes "rr_active s" and inv: "rec_inv os file \<mu> s" and log: "event_log file s hdr evs" and cur: "current_id s = Some utid"
  shows "\<exists>s'. rr_log_signal os signo active s = Some s' \<and> rec_inv os file \<mu> s'
    \<and> event_log file s' hdr (evs @ [signal_event (of_nat (Suc (length evs))) utid signo active]) \<and> log_frame (snd (rr_next_seq s)) s'"
proof -
  have sq: "g_rr_seq (rcd s) + 1 = of_nat (Suc (length evs))" using log by (simp add: event_log_def)
  have "rr_log_signal os signo active s =
    rr_record_append os (enc_event (signal_event (of_nat (Suc (length evs))) utid signo active)) (snd (rr_next_seq s))"
    using assms(1) sq cur by (simp add: rr_log_signal_def rr_next_seq_frame case_prod_beta del: of_nat_Suc)
  then show ?thesis using log_event_step [OF inv log] sq by (simp del: of_nat_Suc)
qed

end
