(* ===== verification/RR_Signal.thy ===== *)
theory RR_Signal
  imports RR_Record
begin

text \<open>
  \<^verbatim>\<open>signal.c\<close>: the guard-page table and its lookup, the SIGSEGV handler, the set-up of the
  alternate stack, handler, signal mask and signalfd, and the processing of a signal read from
  the signalfd. (\<^verbatim>\<open>rr_signal_shutdown\<close> calls the wrapped \<^verbatim>\<open>close\<close> and is in \<open>RR_Init\<close>.)
\<close>

text \<open>How a process ends.\<close>

datatype proc_end = Exited int | Aborted | KilledBySegv

abbreviation SIGINT :: u32 where "SIGINT \<equiv> 2"
abbreviation SIGSEGV :: u32 where "SIGSEGV \<equiv> 11"
abbreviation SIGTERM :: u32 where "SIGTERM \<equiv> 15"

section \<open>Guard pages\<close>

definition rr_register_guard_page :: "'w os \<Rightarrow> u64 \<Rightarrow> u64 \<Rightarrow> u64 \<Rightarrow> ('c, 'w) rr \<Rightarrow> int \<times> ('c, 'w) rr" where
  "rr_register_guard_page os guard_start guard_size utid s =
     (case grow_push (os_alloc os) 24 \<lparr> gp_start = guard_start, gp_size = guard_size, gp_utid = utid \<rparr>
             (g_guard_pages (sigs s)) (g_guard_cap (sigs s)) (world s) of
        (Inl e, w) \<Rightarrow> (-1, s\<lparr>errno := e, world := w\<rparr>)
      | (Inr (pages, cap), w) \<Rightarrow>
          (0, s\<lparr>sigs := (sigs s)\<lparr>g_guard_pages := pages, g_guard_cap := cap\<rparr>, world := w\<rparr>))"

text \<open>The loop of \<^verbatim>\<open>rr_is_guard_page_fault\<close>: the id stored through the output parameter, or
  \<open>None\<close> for the result false. The end address wraps around at 64 bits.\<close>

fun guard_scan :: "u64 \<Rightarrow> guard_page_t list \<Rightarrow> u64 option" where
  "guard_scan fault [] = None"
| "guard_scan fault (g # gs) =
     (let start = gp_start g; end_addr = start + gp_size g in
      if fault \<ge> start \<and> fault < end_addr then Some (gp_utid g) else guard_scan fault gs)"

definition rr_is_guard_page_fault :: "u64 \<Rightarrow> ('c, 'w) rr \<Rightarrow> u64 option" where
  "rr_is_guard_page_fault addr s = guard_scan addr (g_guard_pages (sigs s))"

definition msg_overflow :: "u64 \<Rightarrow> string" where
  "msg_overflow utid = ''[rr] stack overflow detected in uthread '' @ dec_u64 utid @ [CHR 0x0A]"

definition segv_handler :: "'w os \<Rightarrow> u64 \<Rightarrow> ('c, 'w) rr \<Rightarrow> proc_end \<times> ('c, 'w) rr" where
  "segv_handler os si_addr s =
     (case rr_is_guard_page_fault si_addr s of
        Some utid \<Rightarrow> (Aborted, snd (kcall (os_write os 2 (str_bytes (take 255 (msg_overflow utid)))) s))
      | None \<Rightarrow> (KilledBySegv, s))"

section \<open>Set-up\<close>

definition sigfillset :: "nat set" where
  "sigfillset = {1..64}"

definition rr_signal_init :: "'w os \<Rightarrow> ('c, 'w) rr \<Rightarrow> int \<times> ('c, 'w) rr" where
  "rr_signal_init os s =
     (let sz = 2 * os_sigstksz os;
          s = s\<lparr>sigs := (sigs s)\<lparr>g_altstack_size := sz\<rparr>\<rparr>
      in case kres (os_mmap os sz True) s of
           (None, s) \<Rightarrow> (-1, s\<lparr>sigs := (sigs s)\<lparr>g_altstack_sp := 0\<rparr>\<rparr>)
         | (Some sp, s) \<Rightarrow>
             (let s = s\<lparr>sigs := (sigs s)\<lparr>g_altstack_sp := sp\<rparr>\<rparr> in
              case kres (os_sigaltstack os sp sz) s of
                (None, s) \<Rightarrow> (-1, (kdo (os_munmap os sp sz) s)\<lparr>sigs := (sigs s)\<lparr>g_altstack_sp := 0\<rparr>\<rparr>)
              | (Some _, s) \<Rightarrow>
                  (case kres (os_sigaction_segv os) s of
                     (None, s) \<Rightarrow> (-1, s)
                   | (Some _, s) \<Rightarrow>
                       (case kres (os_sigblock os sigfillset) s of
                          (None, s) \<Rightarrow> (-1, s)
                        | (Some _, s) \<Rightarrow>
                            (case kres (os_signalfd os sigfillset) s of
                               (None, s) \<Rightarrow> (-1, s\<lparr>sigs := (sigs s)\<lparr>g_signalfd := -1\<rparr>\<rparr>)
                             | (Some fd, s) \<Rightarrow>
                                 (let s = s\<lparr>sigs := (sigs s)\<lparr>g_signalfd := fd\<rparr>\<rparr> in
                                  if fd < 0 then (-1, s) else (0, s)))))))"

definition rr_signal_fd :: "('c, 'w) rr \<Rightarrow> int" where
  "rr_signal_fd s = g_signalfd (sigs s)"

section \<open>A signal from the signalfd\<close>

text \<open>\<^verbatim>\<open>ssi_signo\<close> is the first member of \<^verbatim>\<open>g_signal_info\<close>. The result tells whether the
  process has exited.\<close>

definition rr_signal_process :: "'w os \<Rightarrow> ('c, 'w) rr \<Rightarrow> (proc_end option \<times> ('c, 'w) rr) option" where
  "rr_signal_process os s =
     do {
       let ssi_signo = (le_word (read_mem (umem s) (os_siginfo_addr os) 4) :: u32);
       i \<leftarrow> current_id s;
       let active = (ucast i :: u32);
       s \<leftarrow> rr_log_signal os ssi_signo active s;
       if ssi_signo = SIGINT \<or> ssi_signo = SIGTERM then do {
         s \<leftarrow> rr_record_shutdown os s;
         Some (Some (Exited 0), s)
       } else Some (None, s)
     }"

section \<open>Guard-page lookup is exact\<close>

text \<open>A guard page that does not wrap around the end of the address space.\<close>

definition gp_ok :: "guard_page_t \<Rightarrow> bool" where
  "gp_ok g \<longleftrightarrow> unat (gp_start g) + unat (gp_size g) < 2 ^ 64"

definition gp_contains :: "guard_page_t \<Rightarrow> u64 \<Rightarrow> bool" where
  "gp_contains g a \<longleftrightarrow> unat (gp_start g) \<le> unat a \<and> unat a < unat (gp_start g) + unat (gp_size g)"

lemma gp_test:
  assumes "gp_ok g"
  shows "a \<ge> gp_start g \<and> a < gp_start g + gp_size g \<longleftrightarrow> gp_contains g a"
proof -
  have "unat (gp_start g + gp_size g) = unat (gp_start g) + unat (gp_size g)"
    using assms by (simp add: gp_ok_def unat_word_ariths)
  then show ?thesis by (simp add: gp_contains_def word_le_nat_alt word_less_nat_alt)
qed

lemma guard_scan_find:
  "\<forall>g \<in> set gs. gp_ok g \<Longrightarrow> guard_scan a gs = map_option gp_utid (List.find (\<lambda>g. gp_contains g a) gs)"
proof (induction gs)
  case Nil
  then show ?case by simp
next
  case (Cons g gs)
  then have "gp_ok g" by simp
  from gp_test [OF this, of a] Cons show ?case by (auto simp: Let_def)
qed

text \<open>The table obeys the contract of growable arrays.\<close>

definition push_guard :: "'w os \<Rightarrow> guard_page_t \<Rightarrow> ('c, 'w) rr \<Rightarrow> int \<times> ('c, 'w) rr" where
  "push_guard os g s = rr_register_guard_page os (gp_start g) (gp_size g) (gp_utid g) s"

lemma push_guard_eq:
  "push_guard os g s = (case grow_push (os_alloc os) 24 g (g_guard_pages (sigs s)) (g_guard_cap (sigs s)) (world s) of
      (Inl e, w) \<Rightarrow> (-1, s\<lparr>errno := e, world := w\<rparr>)
    | (Inr (pages, cap), w) \<Rightarrow> (0, s\<lparr>sigs := (sigs s)\<lparr>g_guard_pages := pages, g_guard_cap := cap\<rparr>, world := w\<rparr>))"
  by (cases g) (simp add: push_guard_def rr_register_guard_page_def)

interpretation guards: growable_table "push_guard os" "\<lambda>s. g_guard_pages (sigs s)" "\<lambda>s. g_guard_cap (sigs s)" for os
  by unfold_locales
    (auto simp: push_guard_eq dest: grow_push_ok grow_push_cap split: prod.splits sum.splits)

end
