(* ===== verification/RR_Uring.thy ===== *)
theory RR_Uring
  imports RR_Signal
begin

text \<open>
  \<^verbatim>\<open>io_uring.c\<close>: submission of an operation tagged with the id of the submitting thread, which
  then blocks, and the completion loop body \<^verbatim>\<open>rr_io_wait\<close>, which wakes the thread named by the
  tag or processes a signal. A function that blocks is split at \<^verbatim>\<open>swapcontext\<close>: \<open>Suspended\<close>
  is the switch to the scheduler, and what follows it in the C text is the corresponding
  resume function.
\<close>

datatype 'a outc = Ret 'a | Suspended

section \<open>Submission\<close>

text \<open>\<open>ctx\<close> is the context that is saved when the thread blocks.\<close>

definition submit_and_block :: "'w os \<Rightarrow> 'c \<Rightarrow> utp \<Rightarrow> ('c, 'w) rr \<Rightarrow> (i32 outc \<times> ('c, 'w) rr) option" where
  "submit_and_block os ctx ut s =
     (case kcall (os_submit os) s of (rc, s) \<Rightarrow>
      if sint rc < 0 then Some (Ret (-1), s)
      else do {
        (switched, s) \<leftarrow> on_sched_ret (rr_scheduler_block_current ctx) s;
        if switched then Some (Suspended, s)
        else do { u \<leftarrow> deref (sch s) ut; Some (Ret (ut_io_result u), s) }
      })"

text \<open>The value that \<^verbatim>\<open>submit_and_block\<close> returns after the switch back.\<close>

definition io_resume :: "utp \<Rightarrow> ('c, 'w) rr \<Rightarrow> i32 option" where
  "io_resume ut s = map_option ut_io_result (deref (sch s) ut)"

text \<open>The common body of the nine submission functions.\<close>

definition submit_op :: "'w os \<Rightarrow> 'c \<Rightarrow> sqe_op \<Rightarrow> ('c, 'w) rr \<Rightarrow> (i32 outc \<times> ('c, 'w) rr) option" where
  "submit_op os ctx op s =
     (let ut = rr_scheduler_current (sch s) in
      case kcall (os_get_sqe os) s of (slot, s) \<Rightarrow>
      if ut = None \<or> slot = None then Some (Ret (-1), s\<lparr>errno := EAGAIN\<rparr>)
      else do {
        u \<leftarrow> deref (sch s) ut;
        let s = kdo (os_prep_sqe os (the slot) \<lparr> sq_op = op, sq_user_data = ut_id u \<rparr>) s;
        submit_and_block os ctx ut s
      })"

definition rr_io_submit_read_and_wait ::
  "'w os \<Rightarrow> 'c \<Rightarrow> int \<Rightarrow> u64 \<Rightarrow> u64 \<Rightarrow> ('c, 'w) rr \<Rightarrow> (i32 outc \<times> ('c, 'w) rr) option" where
  "rr_io_submit_read_and_wait os ctx fd buf count s = submit_op os ctx (SqRead fd buf (ucast count) 0) s"

definition rr_io_submit_write_and_wait ::
  "'w os \<Rightarrow> 'c \<Rightarrow> int \<Rightarrow> u64 \<Rightarrow> u64 \<Rightarrow> ('c, 'w) rr \<Rightarrow> (i32 outc \<times> ('c, 'w) rr) option" where
  "rr_io_submit_write_and_wait os ctx fd buf count s = submit_op os ctx (SqWrite fd buf (ucast count) 0) s"

definition rr_io_submit_recv_and_wait ::
  "'w os \<Rightarrow> 'c \<Rightarrow> int \<Rightarrow> u64 \<Rightarrow> u64 \<Rightarrow> int \<Rightarrow> ('c, 'w) rr \<Rightarrow> (i32 outc \<times> ('c, 'w) rr) option" where
  "rr_io_submit_recv_and_wait os ctx sockfd buf len flags s = submit_op os ctx (SqRecv sockfd buf len flags) s"

definition rr_io_submit_send_and_wait ::
  "'w os \<Rightarrow> 'c \<Rightarrow> int \<Rightarrow> u64 \<Rightarrow> u64 \<Rightarrow> int \<Rightarrow> ('c, 'w) rr \<Rightarrow> (i32 outc \<times> ('c, 'w) rr) option" where
  "rr_io_submit_send_and_wait os ctx sockfd buf len flags s = submit_op os ctx (SqSend sockfd buf len flags) s"

definition rr_io_submit_accept_and_wait ::
  "'w os \<Rightarrow> 'c \<Rightarrow> int \<Rightarrow> u64 \<Rightarrow> u64 \<Rightarrow> ('c, 'w) rr \<Rightarrow> (i32 outc \<times> ('c, 'w) rr) option" where
  "rr_io_submit_accept_and_wait os ctx sockfd addr addrlen s = submit_op os ctx (SqAccept sockfd addr addrlen 0) s"

definition rr_io_submit_connect_and_wait ::
  "'w os \<Rightarrow> 'c \<Rightarrow> int \<Rightarrow> u64 \<Rightarrow> u32 \<Rightarrow> ('c, 'w) rr \<Rightarrow> (i32 outc \<times> ('c, 'w) rr) option" where
  "rr_io_submit_connect_and_wait os ctx sockfd addr addrlen s = submit_op os ctx (SqConnect sockfd addr addrlen) s"

definition rr_io_submit_openat_and_wait ::
  "'w os \<Rightarrow> 'c \<Rightarrow> int \<Rightarrow> u64 \<Rightarrow> int \<Rightarrow> u32 \<Rightarrow> ('c, 'w) rr \<Rightarrow> (i32 outc \<times> ('c, 'w) rr) option" where
  "rr_io_submit_openat_and_wait os ctx dirfd pathname flags mode s = submit_op os ctx (SqOpenat dirfd pathname flags mode) s"

definition rr_io_submit_close_and_wait ::
  "'w os \<Rightarrow> 'c \<Rightarrow> int \<Rightarrow> ('c, 'w) rr \<Rightarrow> (i32 outc \<times> ('c, 'w) rr) option" where
  "rr_io_submit_close_and_wait os ctx fd s = submit_op os ctx (SqClose fd) s"

definition rr_io_submit_timerfd_read_and_wait ::
  "'w os \<Rightarrow> 'c \<Rightarrow> int \<Rightarrow> u64 \<Rightarrow> ('c, 'w) rr \<Rightarrow> (i32 outc \<times> ('c, 'w) rr) option" where
  "rr_io_submit_timerfd_read_and_wait os ctx fd expirations s = submit_op os ctx (SqRead fd expirations 8 0) s"

section \<open>The ring and the signal read\<close>

definition rr_io_init :: "'w os \<Rightarrow> u32 \<Rightarrow> ('c, 'w) rr \<Rightarrow> int \<times> ('c, 'w) rr" where
  "rr_io_init os entries s =
     (case kcall (os_uring_init os entries) s of (ok, s) \<Rightarrow>
      if \<not> ok then (-1, s) else (0, s\<lparr>iou := (iou s)\<lparr>g_ring_ready := True\<rparr>\<rparr>))"

definition rr_io_shutdown :: "'w os \<Rightarrow> ('c, 'w) rr \<Rightarrow> ('c, 'w) rr" where
  "rr_io_shutdown os s =
     (if g_ring_ready (iou s) then (kdo (os_uring_exit os) s)\<lparr>iou := (iou s)\<lparr>g_ring_ready := False\<rparr>\<rparr> else s)"

definition sizeof_siginfo :: nat where "sizeof_siginfo = 128"

definition rr_io_submit_signal_read :: "'w os \<Rightarrow> int \<Rightarrow> ('c, 'w) rr \<Rightarrow> int \<times> ('c, 'w) rr" where
  "rr_io_submit_signal_read os signalfd_fd s =
     (if \<not> g_ring_ready (iou s) then (-1, s\<lparr>errno := EINVAL\<rparr>)
      else let s = s\<lparr>iou := (iou s)\<lparr>g_signal_fd := signalfd_fd\<rparr>\<rparr> in
        case kcall (os_get_sqe os) s of
          (None, s) \<Rightarrow> (-1, s\<lparr>errno := EAGAIN\<rparr>)
        | (Some slot, s) \<Rightarrow>
            (let s = kdo (os_prep_sqe os slot \<lparr> sq_op = SqRead signalfd_fd (os_siginfo_addr os) (of_nat sizeof_siginfo) 0,
                                                sq_user_data = RR_SIGNAL_SENTINEL \<rparr>) s
             in case kcall (os_submit os) s of (rc, s) \<Rightarrow> (if sint rc < 0 then -1 else 0, s)))"

section \<open>Completion\<close>

text \<open>What the kernel has stored for a completed operation becomes visible with its completion.\<close>

fun apply_stores :: "(u64 \<times> u8 list) list \<Rightarrow> mem \<Rightarrow> mem" where
  "apply_stores [] m = m"
| "apply_stores ((a, bs) # xs) m = apply_stores xs (write_mem a bs m)"

definition rr_io_wait :: "'w os \<Rightarrow> ('c, 'w) rr \<Rightarrow> ((int \<times> proc_end option) \<times> ('c, 'w) rr) option" where
  "rr_io_wait os s =
     (if \<not> g_ring_ready (iou s) then Some ((-1, None), s\<lparr>errno := EINVAL\<rparr>)
      else case kcall (os_wait_cqe os) s of ((rc, ocqe), s) \<Rightarrow>
        if sint rc < 0 \<or> ocqe = None then Some ((-1, None), s\<lparr>errno := - rc\<rparr>)
        else let cqe = the ocqe; s = s\<lparr>umem := apply_stores (cq_stores cqe) (umem s)\<rparr> in
          if cq_user_data cqe = RR_SIGNAL_SENTINEL then do {
            (ended, s) \<leftarrow> (if int sizeof_siginfo \<le> sint (cq_res cqe) then rr_signal_process os s else Some (None, s));
            case ended of Some e \<Rightarrow> Some ((0, Some e), s)
            | None \<Rightarrow>
                (let s = (if 0 \<le> g_signal_fd (iou s) then snd (rr_io_submit_signal_read os (g_signal_fd (iou s)) s) else s)
                 in Some ((0, None), kdo (os_cqe_seen os) s))
          }
          else do {
            s \<leftarrow> on_sched (rr_scheduler_wake_by_id (cq_user_data cqe) (cq_res cqe) None 0) s;
            Some ((0, None), kdo (os_cqe_seen os) s)
          })"

end
