(* ===== verification/RR_Replay.thy ===== *)
theory RR_Replay
  imports RR_State
begin

text \<open>
  The replaying side, \<^verbatim>\<open>replay.c\<close>: the read loop, the check of the header, the next event
  with its sequence check, and the two consumers that compare an event with what the program is
  about to do. A failing call is the C return code -1, here \<open>None\<close> for the functions with
  an output parameter. The locale \<open>event_source\<close> is the contract its clients rely on, interpreted on
  \<^verbatim>\<open>rr_replay_next_event\<close> under the hypothesis \<open>read_ok\<close> on the kernel's \<^verbatim>\<open>read\<close>.
\<close>

section \<open>Reading the log file\<close>

definition rr_replay_resolve_real_io :: "'w os \<Rightarrow> ('c, 'w) rr \<Rightarrow> int \<times> ('c, 'w) rr" where
  "rr_replay_resolve_real_io os s =
     (let r = rpl s;
          r = (if \<not> rpl_real_read r then r\<lparr>rpl_real_read := os_dlsym os ''read''\<rparr> else r);
          r = (if \<not> rpl_real_open r then r\<lparr>rpl_real_open := os_dlsym os ''open''\<rparr> else r);
          r = (if \<not> rpl_real_close r then r\<lparr>rpl_real_close := os_dlsym os ''close''\<rparr> else r)
      in (if rpl_real_read r \<and> rpl_real_open r \<and> rpl_real_close r then 0 else -1, s\<lparr>rpl := r\<rparr>))"

text \<open>The loop of \<^verbatim>\<open>rr_read_full\<close>; \<open>got\<close> are the bytes read so far.\<close>

partial_function (option) read_loop ::
  "'w os \<Rightarrow> int \<Rightarrow> nat \<Rightarrow> u8 list \<Rightarrow> i32 \<Rightarrow> 'w \<Rightarrow> (int \<times> u8 list \<times> i32 \<times> 'w) option" where
  "read_loop os fd len got err w =
     (if length got < len then
        (case os_read os fd (len - length got) w of
           (Inl e, w) \<Rightarrow> if e = EINTR then read_loop os fd len got e w else Some (-1, got, e, w)
         | (Inr bs, w) \<Rightarrow> if bs = [] then Some (-1, got, err, w) else read_loop os fd len (got @ bs) err w)
      else Some (0, got, err, w))"

definition rr_read_full :: "'w os \<Rightarrow> int \<Rightarrow> nat \<Rightarrow> ('c, 'w) rr \<Rightarrow> ((int \<times> u8 list) \<times> ('c, 'w) rr) option" where
  "rr_read_full os fd len s =
     do { (rc, bs, e, w) \<leftarrow> read_loop os fd len [] (errno s) (world s);
          Some ((rc, bs), s\<lparr>errno := e, world := w\<rparr>) }"

section \<open>Opening and closing\<close>

definition rr_replay_init :: "'w os \<Rightarrow> string \<Rightarrow> ('c, 'w) rr \<Rightarrow> (int \<times> ('c, 'w) rr) option" where
  "rr_replay_init os path s =
     (case rr_replay_resolve_real_io os s of (rc, s) \<Rightarrow>
      if rc \<noteq> 0 then Some (-1, s)
      else (case os_open_ro os path (world s) of
          (Inl e, w) \<Rightarrow> Some (-1, s\<lparr>errno := e, world := w, rpl := (rpl s)\<lparr>g_replay_fd := -1\<rparr>\<rparr>)
        | (Inr fd, w) \<Rightarrow>
            (let s = s\<lparr>world := w, rpl := (rpl s)\<lparr>g_replay_fd := fd\<rparr>\<rparr> in
             if fd < 0 then Some (-1, s)
             else do {
               ((rc, bs), s) \<leftarrow> rr_read_full os fd sizeof_header s;
               if rc \<noteq> 0 then
                 Some (-1, (kdo (os_close os fd) s)\<lparr>rpl := (rpl s)\<lparr>g_replay_fd := -1\<rparr>\<rparr>)
               else (let header = dec_header bs in
                 if hd_magic header \<noteq> RR_LOG_MAGIC \<or> hd_version header \<noteq> RR_LOG_VERSION then
                   Some (-1, (kdo (os_close os fd) s)\<lparr>rpl := (rpl s)\<lparr>g_replay_fd := -1\<rparr>, errno := EINVAL\<rparr>)
                 else Some (0, s\<lparr>rpl := (rpl s)\<lparr>g_expected_seq := 1, g_replay_header_ok := True\<rparr>\<rparr>))
             })))"

definition rr_replay_shutdown :: "'w os \<Rightarrow> ('c, 'w) rr \<Rightarrow> ('c, 'w) rr" where
  "rr_replay_shutdown os s =
     (let s = (if 0 \<le> g_replay_fd (rpl s) \<and> rpl_real_close (rpl s) then kdo (os_close os (g_replay_fd (rpl s))) s else s)
      in s\<lparr>rpl := (rpl s)\<lparr>g_replay_fd := -1, g_replay_header_ok := False, g_expected_seq := 1\<rparr>\<rparr>)"

section \<open>Events\<close>

definition msg_seq_mismatch :: "u64 \<Rightarrow> u64 \<Rightarrow> string" where
  "msg_seq_mismatch expected got = ''[rr-replay] sequence mismatch expected='' @ dec_u64 expected
     @ '' got='' @ dec_u64 got @ [CHR 0x0A]"

definition rr_replay_next_event :: "'w os \<Rightarrow> ('c, 'w) rr \<Rightarrow> (rr_event_t option \<times> ('c, 'w) rr) option" where
  "rr_replay_next_event os s =
     (if \<not> g_replay_header_ok (rpl s) \<or> g_replay_fd (rpl s) < 0 then Some (None, s\<lparr>errno := EINVAL\<rparr>)
      else do {
        ((rc, bs), s) \<leftarrow> rr_read_full os (g_replay_fd (rpl s)) sizeof_event s;
        if rc \<noteq> 0 then Some (None, s\<lparr>errno := ENODATA\<rparr>)
        else (let ev = dec_event bs in
          if ev_seq ev \<noteq> g_expected_seq (rpl s) then
            Some (None, (rr_debugf os (msg_seq_mismatch (g_expected_seq (rpl s)) (ev_seq ev)) s)\<lparr>errno := EPROTO\<rparr>)
          else Some (Some ev, s\<lparr>rpl := (rpl s)\<lparr>g_expected_seq := g_expected_seq (rpl s) + 1\<rparr>\<rparr>))
      })"

definition msg_expected :: "string \<Rightarrow> rr_event_t \<Rightarrow> string" where
  "msg_expected what ev = ''[rr-replay] expected '' @ what @ '' at seq='' @ dec_u64 (ev_seq ev)
     @ '' got type='' @ dec_digits (unat (ev_type ev)) @ [CHR 0x0A]"

definition msg_sched_mismatch :: "u64 \<Rightarrow> u64 \<Rightarrow> u64 \<Rightarrow> sched_payload \<Rightarrow> string" where
  "msg_sched_mismatch sq f t p = ''[rr-replay] sched mismatch seq='' @ dec_u64 sq @ '' expected=('' @ dec_u64 f
     @ ''->'' @ dec_u64 t @ '') got=('' @ dec_u64 (sd_from_id p) @ ''->'' @ dec_u64 (sd_to_id p) @ '')'' @ [CHR 0x0A]"

definition rr_replay_expect_sched :: "'w os \<Rightarrow> u64 \<Rightarrow> u64 \<Rightarrow> ('c, 'w) rr \<Rightarrow> (int \<times> ('c, 'w) rr) option" where
  "rr_replay_expect_sched os from_id to_id s =
     do {
       (oev, s) \<leftarrow> rr_replay_next_event os s;
       case oev of None \<Rightarrow> Some (-1, s)
       | Some ev \<Rightarrow>
           if ev_type ev \<noteq> EV_SCHED then Some (-1, (rr_debugf os (msg_expected ''EV_SCHED'' ev) s)\<lparr>errno := EPROTO\<rparr>)
           else (case ev_payload ev of
               PSched p \<Rightarrow>
                 if sd_from_id p \<noteq> from_id \<or> sd_to_id p \<noteq> to_id then
                   Some (-1, (rr_debugf os (msg_sched_mismatch (ev_seq ev) from_id to_id p) s)\<lparr>errno := EPROTO\<rparr>)
                 else Some (0, s)
             | _ \<Rightarrow> None)
     }"

record rr_replay_syscall_event_t =
  re_seq :: u64
  re_nr :: i32
  re_retval :: i32
  re_arg0 :: u64
  re_data :: "u8 list"
  re_data_len :: u32

definition msg_nr_mismatch :: "i32 \<Rightarrow> i32 \<Rightarrow> u64 \<Rightarrow> string" where
  "msg_nr_mismatch expected got sq = ''[rr-replay] syscall mismatch expected='' @ dec_i32 expected
     @ '' got='' @ dec_i32 got @ '' seq='' @ dec_u64 sq @ [CHR 0x0A]"

definition msg_utid_mismatch :: "u64 \<Rightarrow> u64 \<Rightarrow> u64 \<Rightarrow> string" where
  "msg_utid_mismatch sq expected got = ''[rr-replay] uthread mismatch for syscall seq='' @ dec_u64 sq
     @ '' expected='' @ dec_u64 expected @ '' got='' @ dec_u64 got @ [CHR 0x0A]"

text \<open>The copy of the payload into the caller's event, with the length clamped to the array.\<close>

definition copy_out :: "rr_event_t \<Rightarrow> syscall_payload \<Rightarrow> rr_replay_syscall_event_t" where
  "copy_out ev p =
     (let len = (if unat (sc_data_len p) > sizeof_data then of_nat sizeof_data else sc_data_len p)
      in \<lparr> re_seq = ev_seq ev, re_nr = sc_nr p, re_retval = sc_retval p, re_arg0 = sc_arg0 p,
           re_data = pad sizeof_data (take (unat len) (sc_data p)), re_data_len = len \<rparr>)"

definition rr_replay_next_syscall ::
  "'w os \<Rightarrow> i32 \<Rightarrow> u64 \<Rightarrow> ('c, 'w) rr \<Rightarrow> (rr_replay_syscall_event_t option \<times> ('c, 'w) rr) option" where
  "rr_replay_next_syscall os nr utid s =
     (if \<not> g_replay_header_ok (rpl s) \<or> g_replay_fd (rpl s) < 0 then Some (None, s\<lparr>errno := EINVAL\<rparr>)
      else do {
        (oev, s) \<leftarrow> rr_replay_next_event os s;
        case oev of None \<Rightarrow> Some (None, s)
        | Some ev \<Rightarrow>
            if ev_type ev \<noteq> EV_SYSCALL then Some (None, (rr_debugf os (msg_expected ''EV_SYSCALL'' ev) s)\<lparr>errno := EPROTO\<rparr>)
            else (case ev_payload ev of
                PSyscall p \<Rightarrow>
                  if sc_nr p \<noteq> nr then
                    Some (None, (rr_debugf os (msg_nr_mismatch nr (sc_nr p) (ev_seq ev)) s)\<lparr>errno := EPROTO\<rparr>)
                  else if ev_uthread_id ev \<noteq> utid then
                    Some (None, (rr_debugf os (msg_utid_mismatch (ev_seq ev) utid (ev_uthread_id ev)) s)\<lparr>errno := EPROTO\<rparr>)
                  else Some (Some (copy_out ev p), s)
              | _ \<Rightarrow> None)
      })"

section \<open>Total correctness of the read loop\<close>

text \<open>What \<^verbatim>\<open>read(2)\<close> promises on a regular file: it delivers a prefix of what is left, empty only
  at the end of the file, or it is interrupted, finitely often. \<open>rest\<close> is what is left to read.\<close>

definition read_ok :: "'w os \<Rightarrow> int \<Rightarrow> ('w \<Rightarrow> u8 list) \<Rightarrow> ('w \<Rightarrow> nat) \<Rightarrow> bool" where
  "read_ok os fd rest \<mu> \<longleftrightarrow> (\<forall>n w. 0 < n \<longrightarrow>
     (case os_read os fd n w of
        (Inl e, w') \<Rightarrow> e = EINTR \<and> rest w' = rest w \<and> \<mu> w' < \<mu> w
      | (Inr bs, w') \<Rightarrow> length bs \<le> n \<and> rest w = bs @ rest w' \<and> (bs = [] \<longrightarrow> rest w = []) \<and> \<mu> w' \<le> \<mu> w))"

lemma read_ok_cases:
  assumes "read_ok os fd rest \<mu>" and "0 < n"
  obtains (intr) w' where "os_read os fd n w = (Inl EINTR, w')" "rest w' = rest w" "\<mu> w' < \<mu> w"
  | (got) bs w' where "os_read os fd n w = (Inr bs, w')" "length bs \<le> n" "rest w = bs @ rest w'"
      "bs = [] \<longrightarrow> rest w = []" "\<mu> w' \<le> \<mu> w"
proof -
  obtain r w' where r: "os_read os fd n w = (r, w')" by (cases "os_read os fd n w")
  from assms(1) [unfolded read_ok_def, rule_format, OF assms(2), of w] show ?thesis
    using r intr got by (cases r) auto
qed

text \<open>What reading \<open>len\<close> bytes from \<open>avail\<close> returns, and what it leaves.\<close>

definition read_post :: "nat \<Rightarrow> u8 list \<Rightarrow> int \<Rightarrow> u8 list \<Rightarrow> u8 list \<Rightarrow> bool" where
  "read_post len avail rc bs left \<longleftrightarrow>
     (if len \<le> length avail then rc = 0 \<and> bs = take len avail \<and> left = drop len avail else rc = -1 \<and> left = [])"

lemma read_loop_total:
  assumes ok: "read_ok os fd rest \<mu>"
  shows "length got \<le> len \<Longrightarrow> \<exists>rc bs e w'. read_loop os fd len got err w = Some (rc, bs, e, w')
    \<and> read_post len (got @ rest w) rc bs (rest w')"
proof (induction "len - length got + \<mu> w" arbitrary: got err w rule: less_induct)
  case less
  show ?case
  proof (cases "length got < len")
    case False
    then show ?thesis using less.prems by (simp add: read_loop.simps read_post_def)
  next
    case True
    then have pos: "0 < len - length got" by simp
    from ok pos show ?thesis
    proof (cases rule: read_ok_cases [where w = w])
      case (intr w')
      then have "len - length got + \<mu> w' < len - length got + \<mu> w" by simp
      from less.hyps [OF this less.prems, of EINTR] show ?thesis
        using intr True by (simp add: read_loop.simps [of os fd len got err w])
    next
      case (got bs w')
      show ?thesis
      proof (cases "bs = []")
        case True
        then show ?thesis using got \<open>length got < len\<close>
          by (simp add: read_loop.simps [of os fd len got err w] read_post_def)
      next
        case False
        then have "len - length (got @ bs) + \<mu> w' < len - length got + \<mu> w" "length (got @ bs) \<le> len"
          using got(2,5) \<open>length got < len\<close> by (cases bs, auto)+
        from less.hyps [OF this, of err] show ?thesis
          using got False \<open>length got < len\<close> by (simp add: read_loop.simps [of os fd len got err w])
      qed
    qed
  qed
qed

lemma read_full_total:
  assumes "read_ok os fd rest \<mu>"
  shows "\<exists>rc bs e w. rr_read_full os fd len s = Some ((rc, bs), s\<lparr>errno := e, world := w\<rparr>)
    \<and> read_post len (rest (world s)) rc bs (rest w)"
proof -
  obtain rc bs e w where "read_loop os fd len [] (errno s) (world s) = Some (rc, bs, e, w)"
    "read_post len (rest (world s)) rc bs (rest w)"
    using read_loop_total [OF assms, of "[]" len "errno s" "world s"] by auto
  then show ?thesis unfolding rr_read_full_def by auto
qed

section \<open>The contract: a source of events\<close>

primrec take_events :: "('s \<Rightarrow> ('e option \<times> 's) option) \<Rightarrow> nat \<Rightarrow> 's \<Rightarrow> ('e option list \<times> 's) option" where
  "take_events nxt 0 s = Some ([], s)"
| "take_events nxt (Suc n) s = do { (x, s) \<leftarrow> nxt s; (xs, s) \<leftarrow> take_events nxt n s; Some (x # xs, s) }"

locale event_source =
  fixes nxt :: "'s \<Rightarrow> ('e option \<times> 's) option" and pending :: "'s \<Rightarrow> 'e list \<Rightarrow> bool"
  assumes nxt_Cons: "pending s (e # es) \<Longrightarrow> \<exists>s'. nxt s = Some (Some e, s') \<and> pending s' es"
    and nxt_Nil: "pending s [] \<Longrightarrow> \<exists>s'. nxt s = Some (None, s') \<and> pending s' []"
begin

lemma take_events_prefix:
  "pending s (xs @ ys) \<Longrightarrow> \<exists>s'. take_events nxt (length xs) s = Some (map Some xs, s') \<and> pending s' ys"
proof (induction xs arbitrary: s)
  case Nil
  then show ?case by simp
next
  case (Cons x xs)
  then obtain s1 where s1: "nxt s = Some (Some x, s1)" "pending s1 (xs @ ys)"
    using nxt_Cons [of s x "xs @ ys"] by auto
  with Cons.IH [of s1] show ?case by auto
qed

lemma exhausted_stays: "pending s [] \<Longrightarrow> \<exists>s'. take_events nxt n s = Some (replicate n None, s') \<and> pending s' []"
proof (induction n arbitrary: s)
  case 0
  then show ?case by simp
next
  case (Suc n)
  then obtain s1 where s1: "nxt s = Some (None, s1)" "pending s1 []" using nxt_Nil by blast
  with Suc.IH [of s1] show ?case by auto
qed

end

text \<open>The events that a healthy log still holds: encoded one after the other, well formed, numbered
  consecutively from the expected sequence number.\<close>

fun seq_from :: "u64 \<Rightarrow> rr_event_t list \<Rightarrow> bool" where
  "seq_from n [] = True"
| "seq_from n (ev # evs) = (ev_seq ev = n \<and> seq_from (n + 1) evs)"

definition replay_log :: "'w os \<Rightarrow> ('w \<Rightarrow> u8 list) \<Rightarrow> ('w \<Rightarrow> nat) \<Rightarrow> ('c, 'w) rr \<Rightarrow> rr_event_t list \<Rightarrow> bool" where
  "replay_log os rest \<mu> s evs \<longleftrightarrow> g_replay_header_ok (rpl s) \<and> 0 \<le> g_replay_fd (rpl s)
     \<and> read_ok os (g_replay_fd (rpl s)) rest \<mu> \<and> rest (world s) = concat (map enc_event evs)
     \<and> (\<forall>ev \<in> set evs. wf_event ev) \<and> seq_from (g_expected_seq (rpl s)) evs"

text \<open>What consuming an event changes.\<close>

definition replay_frame :: "('c, 'w) rr \<Rightarrow> ('c, 'w) rr \<Rightarrow> bool" where
  "replay_frame s s' \<longleftrightarrow> (\<exists>e w n. s' = s\<lparr>errno := e, world := w, rpl := (rpl s)\<lparr>g_expected_seq := n\<rparr>\<rparr>)"

lemma replay_frameD:
  assumes "replay_frame s s'"
  shows "cfg s' = cfg s" "sch s' = sch s" "rcd s' = rcd s" "iou s' = iou s" "sigs s' = sigs s" "uth s' = uth s" "umem s' = umem s"
  using assms by (auto simp: replay_frame_def)

lemma next_event_Cons:
  assumes log: "replay_log os rest \<mu> s (ev # evs)"
  shows "\<exists>s'. rr_replay_next_event os s = Some (Some ev, s') \<and> replay_log os rest \<mu> s' evs \<and> replay_frame s s'"
proof -
  have ok: "read_ok os (g_replay_fd (rpl s)) rest \<mu>" and hdr: "g_replay_header_ok (rpl s)" "0 \<le> g_replay_fd (rpl s)"
    and r: "rest (world s) = enc_event ev @ concat (map enc_event evs)" and wf: "wf_event ev" and sq: "ev_seq ev = g_expected_seq (rpl s)"
    using log by (simp_all add: replay_log_def)
  obtain rc bs e w where rd: "rr_read_full os (g_replay_fd (rpl s)) sizeof_event s = Some ((rc, bs), s\<lparr>errno := e, world := w\<rparr>)"
    "read_post sizeof_event (rest (world s)) rc bs (rest w)"
    using read_full_total [OF ok] by blast
  have post: "rc = 0" "bs = enc_event ev" "rest w = concat (map enc_event evs)"
    using rd(2) by (simp_all add: read_post_def r)
  define s' where "s' = s\<lparr>errno := e, world := w, rpl := (rpl s)\<lparr>g_expected_seq := g_expected_seq (rpl s) + 1\<rparr>\<rparr>"
  have "rr_replay_next_event os s = Some (Some ev, s')"
    using hdr rd(1) post(1,2) sq dec_enc_event [OF wf] by (simp add: rr_replay_next_event_def s'_def Let_def)
  moreover have "replay_log os rest \<mu> s' evs" using log post(3) by (simp add: replay_log_def s'_def)
  moreover have "replay_frame s s'" by (auto simp: replay_frame_def s'_def)
  ultimately show ?thesis by blast
qed

lemma next_event_Nil:
  assumes log: "replay_log os rest \<mu> s []"
  shows "\<exists>s'. rr_replay_next_event os s = Some (None, s') \<and> replay_log os rest \<mu> s' [] \<and> errno s' = ENODATA"
proof -
  have ok: "read_ok os (g_replay_fd (rpl s)) rest \<mu>" and hdr: "g_replay_header_ok (rpl s)" "0 \<le> g_replay_fd (rpl s)"
    and r: "rest (world s) = []"
    using log by (simp_all add: replay_log_def)
  obtain rc bs e w where rd: "rr_read_full os (g_replay_fd (rpl s)) sizeof_event s = Some ((rc, bs), s\<lparr>errno := e, world := w\<rparr>)"
    "read_post sizeof_event (rest (world s)) rc bs (rest w)"
    using read_full_total [OF ok] by blast
  have post: "rc = -1" "rest w = []" using rd(2) by (simp_all add: read_post_def r sizeofs)
  have "rr_replay_next_event os s = Some (None, s\<lparr>errno := ENODATA, world := w\<rparr>)"
    using hdr rd(1) post(1) by (simp add: rr_replay_next_event_def)
  then show ?thesis using log post(2) by (simp add: replay_log_def)
qed

interpretation src: event_source "rr_replay_next_event os" "replay_log os rest m" for os rest m
proof unfold_locales
  fix s :: "('b, 'a) rr" and e es
  assume "replay_log os rest m s (e # es)"
  then show "\<exists>s'. rr_replay_next_event os s = Some (Some e, s') \<and> replay_log os rest m s' es"
    using next_event_Cons by blast
next
  fix s :: "('b, 'a) rr"
  assume "replay_log os rest m s []"
  then show "\<exists>s'. rr_replay_next_event os s = Some (None, s') \<and> replay_log os rest m s' []"
    using next_event_Nil by blast
qed

section \<open>The consumers\<close>

lemma wf_sched_payload: "wf_event ev \<Longrightarrow> ev_type ev = EV_SCHED \<Longrightarrow> \<exists>p. ev_payload ev = PSched p"
  by (cases "ev_payload ev") (auto simp: wf_event_def ev_tags)

lemma wf_syscall_payload:
  "wf_event ev \<Longrightarrow> ev_type ev = EV_SYSCALL \<Longrightarrow> \<exists>p. ev_payload ev = PSyscall p \<and> length (sc_data p) = 64"
  by (cases "ev_payload ev") (auto simp: wf_event_def ev_tags)

definition matches_sched :: "u64 \<Rightarrow> u64 \<Rightarrow> rr_event_t \<Rightarrow> bool" where
  "matches_sched f t ev \<longleftrightarrow> ev_type ev = EV_SCHED \<and> ev_payload ev = PSched \<lparr>sd_from_id = f, sd_to_id = t\<rparr>"

definition matches_syscall :: "i32 \<Rightarrow> u64 \<Rightarrow> rr_event_t \<Rightarrow> syscall_payload \<Rightarrow> bool" where
  "matches_syscall nr utid ev p \<longleftrightarrow> ev_type ev = EV_SYSCALL \<and> ev_payload ev = PSyscall p \<and> sc_nr p = nr \<and> ev_uthread_id ev = utid"

lemma expect_sched_ok:
  assumes log: "replay_log os rest \<mu> s (ev # evs)" and m: "matches_sched f t ev"
  shows "\<exists>s'. rr_replay_expect_sched os f t s = Some (0, s') \<and> replay_log os rest \<mu> s' evs \<and> replay_frame s s'"
  using next_event_Cons [OF log] m by (auto simp: rr_replay_expect_sched_def matches_sched_def)

lemma expect_sched_mismatch:
  assumes log: "replay_log os rest \<mu> s (ev # evs)" and m: "\<not> matches_sched f t ev"
  shows "\<exists>s'. rr_replay_expect_sched os f t s = Some (-1, s') \<and> errno s' = EPROTO"
proof -
  obtain s1 where s1: "rr_replay_next_event os s = Some (Some ev, s1)" using next_event_Cons [OF log] by blast
  show ?thesis
  proof (cases "ev_type ev = EV_SCHED")
    case False
    then show ?thesis using s1 by (simp add: rr_replay_expect_sched_def)
  next
    case True
    moreover have "wf_event ev" using log by (simp add: replay_log_def)
    ultimately obtain p where p: "ev_payload ev = PSched p" using wf_sched_payload by blast
    then have "sd_from_id p \<noteq> f \<or> sd_to_id p \<noteq> t" using m True by (cases p) (auto simp: matches_sched_def)
    then show ?thesis using s1 True p by (simp add: rr_replay_expect_sched_def)
  qed
qed

lemma next_syscall_ok:
  assumes log: "replay_log os rest \<mu> s (ev # evs)" and m: "matches_syscall nr utid ev p"
  shows "\<exists>s'. rr_replay_next_syscall os nr utid s = Some (Some (copy_out ev p), s') \<and> replay_log os rest \<mu> s' evs
    \<and> replay_frame s s'"
  using next_event_Cons [OF log] m log
  by (auto simp: rr_replay_next_syscall_def matches_syscall_def replay_log_def)

lemma next_syscall_mismatch:
  assumes log: "replay_log os rest \<mu> s (ev # evs)" and m: "\<And>p. \<not> matches_syscall nr utid ev p"
  shows "\<exists>s'. rr_replay_next_syscall os nr utid s = Some (None, s') \<and> errno s' = EPROTO"
proof -
  obtain s1 where s1: "rr_replay_next_event os s = Some (Some ev, s1)" using next_event_Cons [OF log] by blast
  have hdr: "g_replay_header_ok (rpl s)" "\<not> g_replay_fd (rpl s) < 0" using log by (simp_all add: replay_log_def)
  show ?thesis
  proof (cases "ev_type ev = EV_SYSCALL")
    case False
    then show ?thesis using s1 hdr by (simp add: rr_replay_next_syscall_def)
  next
    case True
    moreover have "wf_event ev" using log by (simp add: replay_log_def)
    ultimately obtain p where p: "ev_payload ev = PSyscall p" using wf_syscall_payload by blast
    then have "sc_nr p \<noteq> nr \<or> ev_uthread_id ev \<noteq> utid" using m [of p] True by (auto simp: matches_syscall_def)
    then show ?thesis using s1 hdr True p by (auto simp: rr_replay_next_syscall_def)
  qed
qed

lemma next_syscall_end:
  assumes log: "replay_log os rest \<mu> s []"
  shows "\<exists>s'. rr_replay_next_syscall os nr utid s = Some (None, s') \<and> errno s' = ENODATA"
  using next_event_Nil [OF log] log by (auto simp: rr_replay_next_syscall_def replay_log_def)

text \<open>The copied event never claims more data than the array holds.\<close>

lemma copy_out_bounds: "unat (re_data_len (copy_out ev p)) \<le> sizeof_data \<and> length (re_data (copy_out ev p)) = sizeof_data"
  by (simp add: copy_out_def sizeofs Let_def)

lemma copy_out_data:
  assumes "unat (sc_data_len p) \<le> 64" and "length (sc_data p) = 64"
  shows "take (unat (re_data_len (copy_out ev p))) (re_data (copy_out ev p)) = take (unat (sc_data_len p)) (sc_data p)"
  using assms by (simp add: copy_out_def sizeofs pad_def Let_def)

end
