(* ===== verification/RR_Scheduler.thy ===== *)
theory RR_Scheduler
  imports RR_Uring RR_Replay
begin

text \<open>
  The rest of \<^verbatim>\<open>scheduler.c\<close>: registration of threads, the dispatcher loop, set-up and
  tear-down. One pass of the loop body is \<open>scheduler_iter\<close>; \<^verbatim>\<open>swapcontext\<close> to the dispatched
  thread ends the pass with \<open>Dispatch\<close>, and the switch back re-enters the loop at its
  condition. The lemmas show that a pass on a non-empty queue dispatches the first thread in
  each of the three modes, that it logs the switch when recording, checks it when replaying, and aborts
  when the log disagrees.
\<close>

section \<open>The FS base\<close>

definition rr_set_fs_base :: "'w os \<Rightarrow> u64 \<Rightarrow> ('c, 'w) rr \<Rightarrow> int \<times> ('c, 'w) rr" where
  "rr_set_fs_base os base s = (case kres (os_set_fs os base) s of (None, s) \<Rightarrow> (-1, s) | (Some _, s) \<Rightarrow> (0, s))"

text \<open>The result is what is stored through the output parameter, \<open>None\<close> for the return code -1.\<close>

definition rr_get_fs_base :: "'w os \<Rightarrow> ('c, 'w) rr \<Rightarrow> u64 option \<times> ('c, 'w) rr" where
  "rr_get_fs_base os s = kres (os_get_fs os) s"

definition rr_set_scheduler_tls_base :: "u64 \<Rightarrow> ('c, 'w) rr \<Rightarrow> ('c, 'w) rr" where
  "rr_set_scheduler_tls_base base s = s\<lparr>uth := (uth s)\<lparr>g_scheduler_tls := base\<rparr>\<rparr>"

definition rr_scheduler_tls_base :: "('c, 'w) rr \<Rightarrow> u64" where
  "rr_scheduler_tls_base s = g_scheduler_tls (uth s)"

section \<open>Registration\<close>

definition rr_scheduler_register_thread :: "'w os \<Rightarrow> utp \<Rightarrow> ('c, 'w) rr \<Rightarrow> int \<times> ('c, 'w) rr" where
  "rr_scheduler_register_thread os ut s =
     (if ut = None then (-1, s)
      else case grow_push (os_alloc os) 8 ut (g_threads (sch s)) (g_threads_cap (sch s)) (world s) of
        (Inl e, w) \<Rightarrow> (-1, s\<lparr>errno := e, world := w\<rparr>)
      | (Inr (ts, cap), w) \<Rightarrow> (0, s\<lparr>sch := (sch s)\<lparr>g_threads := ts, g_threads_cap := cap\<rparr>, world := w\<rparr>))"

section \<open>The dispatcher\<close>

datatype iter = Continue | Dispatch utp | End proc_end | LoopExit

definition msg_sched_failed :: string where
  "msg_sched_failed = ''[rr-replay] failed to validate sched event'' @ [CHR 0x0A]"

text \<open>The log entry or the check for a switch between two threads; \<open>False\<close> leads to \<^verbatim>\<open>abort\<close>.\<close>

definition note_switch :: "'w os \<Rightarrow> u64 \<Rightarrow> u64 \<Rightarrow> ('c, 'w) rr \<Rightarrow> (bool \<times> ('c, 'w) rr) option" where
  "note_switch os from_id to_id s =
     (if from_id \<noteq> to_id then
        if rr_replay_active s then do {
          (rc, s) \<leftarrow> rr_replay_expect_sched os from_id to_id s;
          if rc \<noteq> 0 then Some (False, rr_debugf os msg_sched_failed s) else Some (True, s)
        }
        else do { s \<leftarrow> rr_log_sched os from_id to_id s; Some (True, s) }
      else Some (True, s))"

definition scheduler_iter :: "'w os \<Rightarrow> ('c, 'w) rr \<Rightarrow> (iter \<times> ('c, 'w) rr) option" where
  "scheduler_iter os s =
     (if \<not> g_sched_running (sch s) then Some (LoopExit, s)
      else do {
        (next, s) \<leftarrow> on_sched_ret runq_pop_front s;
        if next = None then do {
          ((rc, ended), s) \<leftarrow> rr_io_wait os s;
          Some (case ended of Some e \<Rightarrow> End e | None \<Rightarrow> Continue, s)
        }
        else do {
          u \<leftarrow> deref (sch s) next;
          if ut_state u \<noteq> UT_RUNNABLE then Some (Continue, s)
          else do {
            from_id \<leftarrow> current_id s;
            (ok, s) \<leftarrow> note_switch os from_id (ut_id u) s;
            if \<not> ok then Some (End Aborted, s)
            else do {
              s \<leftarrow> on_sched (make_current next) s;
              u \<leftarrow> deref (sch s) next;
              Some (Dispatch next, snd (rr_set_fs_base os (ut_tls_block u) s))
            }
          }
        }
      })"

text \<open>The loop up to the next dispatch, from its start or from the return of \<^verbatim>\<open>swapcontext\<close>. It waits
  for I/O as long as no thread is runnable, which may be forever.\<close>

partial_function (option) sched_loop :: "'w os \<Rightarrow> ('c, 'w) rr \<Rightarrow> (iter \<times> ('c, 'w) rr) option" where
  "sched_loop os s =
     do {
       (it, s) \<leftarrow> scheduler_iter os s;
       case it of Continue \<Rightarrow> sched_loop os s | _ \<Rightarrow> Some (it, s)
     }"

definition scheduler_loop :: "'w os \<Rightarrow> ('c, 'w) rr \<Rightarrow> (iter \<times> ('c, 'w) rr) option" where
  "scheduler_loop os s = sched_loop os (snd (rr_set_fs_base os (rr_scheduler_tls_base s) s))"

section \<open>Set-up and tear-down\<close>

definition RR_SCHED_STACK_SIZE :: u64 where "RR_SCHED_STACK_SIZE = 1048576"

definition rr_scheduler_init :: "'w os \<Rightarrow> ('c, 'w) rr \<Rightarrow> int \<times> ('c, 'w) rr" where
  "rr_scheduler_init os s =
     (case kres (os_mmap os RR_SCHED_STACK_SIZE True) s of
        (None, s) \<Rightarrow> (-1, s\<lparr>sch := (sch s)\<lparr>g_sched_stack := 0\<rparr>\<rparr>)
      | (Some sp, s) \<Rightarrow>
          (let s = s\<lparr>sch := (sch s)\<lparr>g_sched_stack := sp\<rparr>\<rparr> in
           case kres (os_getcontext os) s of
             (None, s) \<Rightarrow> (-1, (kdo (os_munmap os sp RR_SCHED_STACK_SIZE) s)\<lparr>sch := (sch s)\<lparr>g_sched_stack := 0\<rparr>\<rparr>)
           | (Some _, s) \<Rightarrow> (0, s\<lparr>sch := (sch s)\<lparr>g_sched_running := True\<rparr>\<rparr>)))"

definition rr_scheduler_shutdown :: "'w os \<Rightarrow> ('c, 'w) rr \<Rightarrow> ('c, 'w) rr" where
  "rr_scheduler_shutdown os s =
     (let s = s\<lparr>sch := (sch s)\<lparr>g_sched_running := False, g_runq_head := None, g_runq_tail := None\<rparr>\<rparr>;
          sp = g_sched_stack (sch s);
          s = (if sp \<noteq> 0 then (kdo (os_munmap os sp RR_SCHED_STACK_SIZE) s)\<lparr>sch := (sch s)\<lparr>g_sched_stack := 0\<rparr>\<rparr> else s)
      in s\<lparr>sch := rr_scheduler_unregister_all (sch s)\<rparr>)"

section \<open>Registration obeys the contract of growable arrays\<close>

interpretation threads: growable_table "rr_scheduler_register_thread os" "\<lambda>s. g_threads (sch s)" "\<lambda>s. g_threads_cap (sch s)" for os
  by unfold_locales
    (auto simp: rr_scheduler_register_thread_def dest: grow_push_ok grow_push_cap split: prod.splits sum.splits if_splits)

section \<open>A pass over a non-empty queue\<close>

lemma current_id_defined:
  assumes "refines (sch s) A" and "ainv A"
  shows "\<exists>i. current_id s = Some i"
proof (cases "g_current (sch s)")
  case None
  then show ?thesis by (simp add: current_id_def rr_scheduler_current_def)
next
  case (Some c)
  then have "ast A c \<noteq> None" using assms refinesD(2) [OF assms(1)] by (simp add: ainv_def)
  then have "c \<in> dom (ut_heap (sch s))" by (rule refines_dom [OF assms(1)])
  then show ?thesis using Some by (auto simp: current_id_def rr_scheduler_current_def)
qed

lemma current_id_ids:
  "g_current (sch s') = g_current (sch s) \<Longrightarrow> ids (sch s') = ids (sch s) \<Longrightarrow> current_id s' = current_id s"
  by (auto simp: current_id_def rr_scheduler_current_def ids_def fun_eq_iff split: option.splits)

lemma set_fs_frame [simp]:
  "sch (snd (rr_set_fs_base os b s)) = sch s" "umem (snd (rr_set_fs_base os b s)) = umem s" "cfg (snd (rr_set_fs_base os b s)) = cfg s"
  "rcd (snd (rr_set_fs_base os b s)) = rcd s" "rpl (snd (rr_set_fs_base os b s)) = rpl s" "uth (snd (rr_set_fs_base os b s)) = uth s"
  "iou (snd (rr_set_fs_base os b s)) = iou s" "sigs (snd (rr_set_fs_base os b s)) = sigs s"
  by (simp_all add: rr_set_fs_base_def kres_def split: prod.split sum.split option.split)

text \<open>What the pass does before it notes the switch: it takes the first thread, which is runnable.\<close>

lemma iter_pop:
  assumes run: "g_sched_running (sch s)" and r: "refines (sch s) A" and inv: "ainv A" and q: "aq A = c # xs"
  obtains x u i where "runq_pop_front (sch s) = Some (Some c, x)" "refines x (A\<lparr>aq := xs\<rparr>)" "reg x = reg (sch s)"
    "ut_heap x c = Some u" "ids (sch s) c = Some (ut_id u)" "current_id s = Some i"
    "scheduler_iter os s = do {
       (ok, s) \<leftarrow> note_switch os i (ut_id u) (s\<lparr>sch := x\<rparr>);
       if \<not> ok then Some (End Aborted, s)
       else do {
         s \<leftarrow> on_sched (make_current (Some c)) s;
         u \<leftarrow> deref (sch s) (Some c);
         Some (Dispatch (Some c), snd (rr_set_fs_base os (ut_tls_block u) s))
       }
     }"
proof -
  obtain x u where x: "runq_pop_front (sch s) = Some (Some c, x)" "refines x (A\<lparr>aq := xs\<rparr>)" "links_only (sch s) x"
    and u: "ut_heap x c = Some u" "ut_state u = UT_RUNNABLE"
    using pop_refines [OF r inv q] by blast
  have reg: "reg x = reg (sch s)" using x(1) by (rule reg_pop)
  obtain i where i: "current_id s = Some i" using current_id_defined [OF r inv] by blast
  have i': "current_id (s\<lparr>sch := x\<rparr>) = Some i"
    using current_id_ids [of "s\<lparr>sch := x\<rparr>" s] links_only_frame(2) [OF x(3)] reg_ids [OF reg] i by simp
  have "ids (sch s) c = Some (ut_id u)" using fun_cong [OF reg_ids [OF reg], of c] u(1) by (simp add: ids_def)
  moreover have "scheduler_iter os s = do {
       (ok, s) \<leftarrow> note_switch os i (ut_id u) (s\<lparr>sch := x\<rparr>);
       if \<not> ok then Some (End Aborted, s)
       else do {
         s \<leftarrow> on_sched (make_current (Some c)) s;
         u \<leftarrow> deref (sch s) (Some c);
         Some (Dispatch (Some c), snd (rr_set_fs_base os (ut_tls_block u) s))
       }
     }"
    using run x(1) u i' by (simp add: scheduler_iter_def on_sched_ret_def)
  ultimately show ?thesis using that [OF x(1,2) reg u(1)] i by blast
qed

text \<open>And what it does once the switch is noted.\<close>

lemma iter_switch:
  assumes "refines (sch s) (A\<lparr>aq := xs\<rparr>)" and "aq A = c # xs" and "c \<in> dom (ut_heap (sch s))"
  obtains x u where "make_current (Some c) (sch s) = Some x" "refines x (spec_dispatch c A)" "reg x = reg (sch s)"
    "ctxof x = ctxof (sch s)" "ut_heap x c = Some u"
    "do {
       s \<leftarrow> on_sched (make_current (Some c)) s;
       u \<leftarrow> deref (sch s) (Some c);
       Some (Dispatch (Some c), snd (rr_set_fs_base os (ut_tls_block u) s))
     } = Some (Dispatch (Some c), snd (rr_set_fs_base os (ut_tls_block u) (s\<lparr>sch := x\<rparr>)))"
proof -
  obtain x where x: "make_current (Some c) (sch s) = Some x" "refines x (spec_dispatch c A)"
    using make_current_refines [OF assms(1) assms(3) assms(2)] by blast
  have "ast (spec_dispatch c A) c \<noteq> None" by (simp add: spec_dispatch_def)
  then obtain u where "ut_heap x c = Some u" using refines_dom [OF x(2)] by blast
  then show ?thesis
    using that [OF x reg_make_current [OF x(1)] ctxof_make_current [OF x(1)]] x(1) by (simp add: on_sched_def)
qed

section \<open>Noting a switch\<close>

lemma note_switch_same [simp]: "note_switch os i i s = Some (True, s)"
  by (simp add: note_switch_def)

lemma note_switch_idle:
  "\<not> rr_replay_active s \<Longrightarrow> \<not> mode_record (cfg s) \<Longrightarrow> note_switch os i j s = Some (True, s)"
  by (simp add: note_switch_def rr_log_sched_def)

text \<open>Recording: one scheduling event, when the thread changes.\<close>

definition switch_events :: "nat \<Rightarrow> u64 \<Rightarrow> u64 \<Rightarrow> rr_event_t list" where
  "switch_events n i j = (if i \<noteq> j then [sched_event (of_nat (Suc n)) i j] else [])"

lemma note_switch_record:
  assumes "mode_record (cfg s)" and "\<not> rr_replay_active s" and inv: "rec_inv os fl \<mu> s" and log: "event_log fl s hdr evs"
  shows "\<exists>s'. note_switch os i j s = Some (True, s') \<and> rec_inv os fl \<mu> s'
    \<and> event_log fl s' hdr (evs @ switch_events (length evs) i j) \<and> (s' = s \<or> log_frame (snd (rr_next_seq s)) s')"
proof (cases "i = j")
  case True
  then show ?thesis using inv log by (simp add: switch_events_def)
next
  case False
  then show ?thesis
    using log_sched_total [OF assms(1) inv log, of i j] assms(2) by (auto simp: note_switch_def switch_events_def)
qed

text \<open>Replaying: the next event must be this switch, or the process aborts.\<close>

lemma note_switch_replay_ok:
  assumes "rr_replay_active s" and "i \<noteq> j" and "replay_log os rest \<mu> s (ev # evs)" and "matches_sched i j ev"
  shows "\<exists>s'. note_switch os i j s = Some (True, s') \<and> replay_log os rest \<mu> s' evs \<and> replay_frame s s'"
  using expect_sched_ok [OF assms(3,4)] assms(1,2) by (auto simp: note_switch_def)

lemma note_switch_replay_mismatch:
  assumes "rr_replay_active s" and "i \<noteq> j" and "replay_log os rest \<mu> s (ev # evs)" and "\<not> matches_sched i j ev"
  shows "\<exists>s'. note_switch os i j s = Some (False, s')"
proof -
  obtain s' where "rr_replay_expect_sched os i j s = Some (-1, s')" using expect_sched_mismatch [OF assms(3,4)] by blast
  then have "note_switch os i j s = Some (False, rr_debugf os msg_sched_failed s')"
    using assms(1,2) by (simp add: note_switch_def)
  then show ?thesis by blast
qed

lemma note_switch_replay_end:
  assumes "rr_replay_active s" and "i \<noteq> j" and "replay_log os rest \<mu> s []"
  shows "\<exists>s'. note_switch os i j s = Some (False, s')"
proof -
  obtain s' where "rr_replay_next_event os s = Some (None, s')" using next_event_Nil [OF assms(3)] by blast
  then have "note_switch os i j s = Some (False, rr_debugf os msg_sched_failed s')"
    using assms(1,2) by (simp add: note_switch_def rr_replay_expect_sched_def)
  then show ?thesis by blast
qed

end
