(* ===== verification/RR_Uthread.thy ===== *)
theory RR_Uthread
  imports RR_Scheduler
begin

text \<open>
  \<^verbatim>\<open>uthread.c\<close>: creation, joining and disposal of threads and the public functions
  \<^verbatim>\<open>uthread_create\<close>, \<^verbatim>\<open>uthread_yield\<close>, \<^verbatim>\<open>uthread_exit\<close>, \<^verbatim>\<open>uthread_join\<close>.
  Control blocks live in the heap of the scheduler state; \<^verbatim>\<open>calloc\<close> succeeds or fails as the
  environment says and returns a fresh address. \<^verbatim>\<open>makecontext\<close> is the argument \<open>mk\<close>, which
  gives the context that will start at \<^verbatim>\<open>uthread_entry\<close> for a control block.
\<close>

section \<open>Control blocks\<close>

definition sizeof_uthread :: "'w os \<Rightarrow> nat" where
  "sizeof_uthread os = 168 + os_sizeof_ucontext os"

definition ut_calloc :: "'w os \<Rightarrow> ('c, 'w) rr \<Rightarrow> nat option \<times> ('c, 'w) rr" where
  "ut_calloc os s =
     (case kres (os_alloc os (sizeof_uthread os)) s of
        (None, s) \<Rightarrow> (None, s)
      | (Some _, s) \<Rightarrow>
          (let a = ut_brk (sch s)
           in (Some a, s\<lparr>sch := (sch s)\<lparr>ut_heap := (ut_heap (sch s))(a \<mapsto> ut_zero), ut_brk := a + 1\<rparr>\<rparr>)))"

definition ut_free :: "nat \<Rightarrow> ('c, 'w) rr \<Rightarrow> ('c, 'w) rr" where
  "ut_free a s = s\<lparr>sch := (sch s)\<lparr>ut_heap := (ut_heap (sch s))(a := None)\<rparr>\<rparr>"

definition remember_thread :: "'w os \<Rightarrow> utp \<Rightarrow> ('c, 'w) rr \<Rightarrow> int \<times> ('c, 'w) rr" where
  "remember_thread os ut s =
     (case grow_push (os_alloc os) 8 ut (g_allocated (uth s)) (g_allocated_cap (uth s)) (world s) of
        (Inl e, w) \<Rightarrow> (-1, s\<lparr>errno := e, world := w\<rparr>)
      | (Inr (ts, cap), w) \<Rightarrow> (0, s\<lparr>uth := (uth s)\<lparr>g_allocated := ts, g_allocated_cap := cap\<rparr>, world := w\<rparr>))"

section \<open>The main thread\<close>

text \<open>The context that \<^verbatim>\<open>getcontext\<close> stores for the main thread is overwritten before it is
  ever resumed and is left out.\<close>

definition rr_uthread_init_main :: "'w os \<Rightarrow> ('c, 'w) rr \<Rightarrow> (int \<times> ('c, 'w) rr) option" where
  "rr_uthread_init_main os s =
     (case ut_calloc os s of
        (None, s) \<Rightarrow> Some (-1, s)
      | (Some a, s) \<Rightarrow> do {
          s \<leftarrow> on_sched (ut_upd (Some a) (\<lambda>u. u\<lparr>ut_id := 1, ut_state := UT_RUNNING\<rparr>)) s;
          (case kres (os_getcontext os) s of
             (None, s) \<Rightarrow> Some (-1, ut_free a s)
           | (Some _, s) \<Rightarrow>
               (case rr_get_fs_base os s of
                  (None, s) \<Rightarrow> Some (-1, ut_free a s)
                | (Some fs_base, s) \<Rightarrow> do {
                    s \<leftarrow> on_sched (ut_upd (Some a) (ut_tls_block_update (\<lambda>_. fs_base))) s;
                    let s = s\<lparr>sch := rr_scheduler_set_current (Some a) (sch s)\<rparr>;
                    let s = rr_set_scheduler_tls_base fs_base s;
                    let (rc, s) = rr_scheduler_register_thread os (Some a) s;
                    let (rc, s) = (if rc \<noteq> 0 then (rc, s) else remember_thread os (Some a) s);
                    if rc \<noteq> 0 then Some (-1, ut_free a s)
                    else Some (0, s\<lparr>uth := (uth s)\<lparr>g_next_id := 2\<rparr>\<rparr>)
                  }))
        })"

section \<open>Creation\<close>

definition init_tls_copy :: "'w os \<Rightarrow> utp \<Rightarrow> ('c, 'w) rr \<Rightarrow> (int \<times> ('c, 'w) rr) option" where
  "init_tls_copy os ut s =
     (case rr_get_fs_base os s of
        (None, s) \<Rightarrow> Some (-1, s)
      | (Some fs_base, s) \<Rightarrow> do {
          s \<leftarrow> on_sched (ut_upd ut (ut_tls_block_update (\<lambda>_. fs_base))) s;
          Some (0, s)
        })"

text \<open>The failure exit once the stack is mapped: \<^verbatim>\<open>munmap\<close>, \<^verbatim>\<open>free\<close>, -1.\<close>

definition create_fail :: "'w os \<Rightarrow> u64 \<Rightarrow> u64 \<Rightarrow> nat \<Rightarrow> ('c, 'w) rr \<Rightarrow> (u64 option \<times> ('c, 'w) rr) option" where
  "create_fail os m map_size a s = Some (None, ut_free a (kdo (os_munmap os m map_size) s))"

text \<open>The three registrations of line 159, with the short-circuit of \<^verbatim>\<open>||\<close>.\<close>

definition register_all :: "'w os \<Rightarrow> u64 \<Rightarrow> u64 \<Rightarrow> u64 \<Rightarrow> nat \<Rightarrow> ('c, 'w) rr \<Rightarrow> bool \<times> ('c, 'w) rr" where
  "register_all os m pagesz i a s =
     (case rr_register_guard_page os m pagesz i s of (rc, s) \<Rightarrow>
      if rc \<noteq> 0 then (False, s)
      else case rr_scheduler_register_thread os (Some a) s of (rc, s) \<Rightarrow>
        if rc \<noteq> 0 then (False, s)
        else case remember_thread os (Some a) s of (rc, s) \<Rightarrow> (rc = 0, s))"

text \<open>The fields filled in before the context is made.\<close>

definition ut_setup :: "u64 \<Rightarrow> u64 \<Rightarrow> u64 \<Rightarrow> u64 \<Rightarrow> u64 \<Rightarrow> u64 \<Rightarrow> 'c uthread_t \<Rightarrow> 'c uthread_t" where
  "ut_setup i m pagesz stksz fn arg u =
     u\<lparr>ut_id := i, ut_state := UT_RUNNABLE, ut_stack := m + pagesz, ut_stack_size := stksz,
       ut_start_fn := fn, ut_start_arg := arg, ut_stack_map := m, ut_stack_map_size := pagesz + stksz\<rparr>"

text \<open>Lines 142 to 167: the rest of the creation once the control block is filled in.\<close>

definition create_rest ::
  "'w os \<Rightarrow> (nat \<Rightarrow> 'c) \<Rightarrow> nat \<Rightarrow> u64 \<Rightarrow> u64 \<Rightarrow> u64 \<Rightarrow> u64 \<Rightarrow> ('c, 'w) rr \<Rightarrow> (u64 option \<times> ('c, 'w) rr) option" where
  "create_rest os mk a i m pagesz map_size s =
     do {
       (rc, s) \<leftarrow> init_tls_copy os (Some a) s;
       if rc \<noteq> 0 then create_fail os m map_size a s
       else (case kres (os_getcontext os) s of
           (None, s) \<Rightarrow> create_fail os m map_size a s
         | (Some _, s) \<Rightarrow> do {
             s \<leftarrow> on_sched (ut_upd (Some a) (ut_ctx_update (\<lambda>_. Some (mk a)))) s;
             (case register_all os m pagesz i a s of (ok, s) \<Rightarrow>
                if \<not> ok then create_fail os m map_size a s
                else do {
                  s \<leftarrow> on_sched (rr_scheduler_enqueue (Some a)) s;
                  Some (Some i, s)
                })
           })
     }"

text \<open>The result is the id stored through \<^verbatim>\<open>id_out\<close> (never NULL in the library), or \<open>None\<close> for -1.\<close>

definition rr_uthread_create ::
  "'w os \<Rightarrow> (nat \<Rightarrow> 'c) \<Rightarrow> u64 \<Rightarrow> u64 \<Rightarrow> ('c, 'w) rr \<Rightarrow> (u64 option \<times> ('c, 'w) rr) option" where
  "rr_uthread_create os mk fn arg s =
     (if fn = 0 then Some (None, s\<lparr>errno := EINVAL\<rparr>)
      else case ut_calloc os s of
        (None, s) \<Rightarrow> Some (None, s)
      | (Some a, s) \<Rightarrow>
          (let pagesz = os_pagesize os; stksz = stack_size (cfg s); map_size = pagesz + stksz in
           case kres (os_mmap os map_size False) s of
             (None, s) \<Rightarrow> Some (None, ut_free a s)
           | (Some m, s) \<Rightarrow>
               (case kres (os_mprotect_rw os (m + pagesz) stksz) s of
                  (None, s) \<Rightarrow> create_fail os m map_size a s
                | (Some _, s) \<Rightarrow> do {
                    let i = g_next_id (uth s);
                    let s = s\<lparr>uth := (uth s)\<lparr>g_next_id := i + 1\<rparr>\<rparr>;
                    s \<leftarrow> on_sched (ut_upd (Some a) (ut_setup i m pagesz stksz fn arg)) s;
                    create_rest os mk a i m pagesz map_size s
                  })))"

section \<open>Joining\<close>

text \<open>The end of \<^verbatim>\<open>rr_uthread_join\<close>, also when the thread is resumed.\<close>

definition join_finish :: "utp \<Rightarrow> u64 \<Rightarrow> ('c, 'w) rr \<Rightarrow> (int \<times> ('c, 'w) rr) option" where
  "join_finish target out s =
     do {
       t \<leftarrow> deref (sch s) target;
       s \<leftarrow> (if out \<noteq> 0 then copy_to out (le_bytes 8 (ut_retval t)) s else Some s);
       Some (0, s)
     }"

definition fail_with :: "i32 \<Rightarrow> ('c, 'w) rr \<Rightarrow> (int outc \<times> ('c, 'w) rr) option" where
  "fail_with e s = Some (Ret (-1), s\<lparr>errno := e\<rparr>)"

definition rr_uthread_join ::
  "(utp \<Rightarrow> 'c) \<Rightarrow> u64 \<Rightarrow> u64 \<Rightarrow> ('c, 'w) rr \<Rightarrow> (int outc \<times> ('c, 'w) rr) option" where
  "rr_uthread_join ctx i out s =
     do {
       target \<leftarrow> rr_scheduler_find i (sch s);
       let self = rr_scheduler_current (sch s);
       if target = None then fail_with ESRCH s
       else do {
         t \<leftarrow> deref (sch s) target;
         same \<leftarrow> (if self \<noteq> None then map_option (\<lambda>u. ut_id t = ut_id u) (deref (sch s) self) else Some False);
         if same then fail_with EDEADLK s
         else if ut_state t \<noteq> UT_DONE then
           if self = None then fail_with EINVAL s
           else if ut_join_waiter t \<noteq> None \<and> ut_join_waiter t \<noteq> self then fail_with EBUSY s
           else do {
             s \<leftarrow> on_sched (ut_upd target (ut_join_waiter_update (\<lambda>_. self))) s;
             (switched, s) \<leftarrow> on_sched_ret (rr_scheduler_block_current (ctx target)) s;
             if switched then Some (Suspended, s)
             else do { (v, s) \<leftarrow> join_finish target out s; Some (Ret v, s) }
           }
         else do { (v, s) \<leftarrow> join_finish target out s; Some (Ret v, s) }
       }
     }"

section \<open>Disposal\<close>

fun free_all :: "'w os \<Rightarrow> utp list \<Rightarrow> ('c, 'w) rr \<Rightarrow> ('c, 'w) rr option" where
  "free_all os [] s = Some s"
| "free_all os (None # ps) s = free_all os ps s"
| "free_all os (Some a # ps) s =
     do {
       u \<leftarrow> deref (sch s) (Some a);
       let s = (if ut_stack_map u \<noteq> 0 \<and> 0 < ut_stack_map_size u
                then kdo (os_munmap os (ut_stack_map u) (ut_stack_map_size u)) s else s);
       free_all os ps (ut_free a s)
     }"

definition rr_uthread_shutdown :: "'w os \<Rightarrow> ('c, 'w) rr \<Rightarrow> ('c, 'w) rr option" where
  "rr_uthread_shutdown os s =
     do {
       s \<leftarrow> free_all os (g_allocated (uth s)) s;
       Some (s\<lparr>uth := (uth s)\<lparr>g_allocated := [], g_allocated_cap := 0\<rparr>\<rparr>)
     }"

section \<open>The public functions\<close>

definition uthread_create ::
  "'w os \<Rightarrow> (nat \<Rightarrow> 'c) \<Rightarrow> u64 \<Rightarrow> u64 \<Rightarrow> ('c, 'w) rr \<Rightarrow> (u64 \<times> ('c, 'w) rr) option" where
  "uthread_create os mk fn arg s =
     (if \<not> runtime_ready (cfg s) then Some (0, s\<lparr>errno := ENOSYS\<rparr>)
      else do {
        (r, s) \<leftarrow> rr_uthread_create os mk fn arg s;
        Some (case r of None \<Rightarrow> 0 | Some i \<Rightarrow> i, s)
      })"

text \<open>The Boolean tells whether the thread was switched out.\<close>

definition uthread_yield :: "'c \<Rightarrow> ('c, 'w) rr \<Rightarrow> (bool \<times> ('c, 'w) rr) option" where
  "uthread_yield ctx s =
     (if \<not> runtime_ready (cfg s) then Some (False, s)
      else on_sched_ret (rr_scheduler_yield_current ctx) s)"

text \<open>\<^verbatim>\<open>_exit(0)\<close> before the runtime is ready; otherwise the switch, after which the
  \<^verbatim>\<open>__builtin_unreachable\<close> has no defined result.\<close>

definition uthread_exit :: "'c \<Rightarrow> u64 \<Rightarrow> ('c, 'w) rr \<Rightarrow> (proc_end option \<times> ('c, 'w) rr) option" where
  "uthread_exit ctx retval s =
     (if \<not> runtime_ready (cfg s) then Some (Some (Exited 0), s)
      else do {
        (switched, s) \<leftarrow> on_sched_ret (rr_scheduler_exit_current ctx retval) s;
        if switched then Some (None, s) else None
      })"

definition uthread_join :: "(utp \<Rightarrow> 'c) \<Rightarrow> u64 \<Rightarrow> u64 \<Rightarrow> ('c, 'w) rr \<Rightarrow> (int outc \<times> ('c, 'w) rr) option" where
  "uthread_join ctx i out s =
     (if \<not> runtime_ready (cfg s) then fail_with ENOSYS s else rr_uthread_join ctx i out s)"

text \<open>What \<^verbatim>\<open>uthread_entry\<close> calls: the start function and its argument, or nothing. When that
  returns it calls \<^verbatim>\<open>uthread_exit(NULL)\<close>.\<close>

definition uthread_entry :: "utp \<Rightarrow> ('c, 'w) rr \<Rightarrow> (u64 \<times> u64) option option" where
  "uthread_entry ut s =
     (if ut = None then Some None
      else do {
        u \<leftarrow> deref (sch s) ut;
        Some (if ut_start_fn u \<noteq> 0 then Some (ut_start_fn u, ut_start_arg u) else None)
      })"

section \<open>The table of allocated threads obeys the contract of growable arrays\<close>

interpretation allocated: growable_table "remember_thread os" "\<lambda>s. g_allocated (uth s)" "\<lambda>s. g_allocated_cap (uth s)" for os
  by unfold_locales
    (auto simp: remember_thread_def dest: grow_push_ok grow_push_cap split: prod.splits sum.splits)

section \<open>Creation when allocation succeeds\<close>

lemma grow_push_alloc:
  assumes "alloc_ok os"
  obtains cap' w' where "grow_push (os_alloc os) k x xs cap w = (Inr (xs @ [x], cap'), w')" "quiet os w w'"
proof -
  obtain w' where "os_alloc os (grow_cap cap * k) w = (Inr (), w')" using assms unfolding alloc_ok_def by blast
  then show ?thesis using that quiet_calls(3) by (cases "length xs = cap") (fastforce simp: grow_push_def)+
qed

text \<open>What creating a thread leaves alone.\<close>

definition create_frame :: "('c, 'w) rr \<Rightarrow> ('c, 'w) rr \<Rightarrow> bool" where
  "create_frame s s' \<longleftrightarrow> cfg s' = cfg s \<and> rcd s' = rcd s \<and> rpl s' = rpl s \<and> iou s' = iou s \<and> umem s' = umem s"

lemma register_all_ok:
  assumes ok: "alloc_ok os"
  obtains s' tc ac where "register_all os m pg i a s = (True, s')" "create_frame s s'" "errno s' = errno s"
    "sch s' = (sch s)\<lparr>g_threads := g_threads (sch s) @ [Some a], g_threads_cap := tc\<rparr>"
    "uth s' = (uth s)\<lparr>g_allocated := g_allocated (uth s) @ [Some a], g_allocated_cap := ac\<rparr>"
    "quiet os (world s) (world s')"
proof -
  let ?g = "\<lparr> gp_start = m, gp_size = pg, gp_utid = i \<rparr>"
  obtain gc w1 where 1: "grow_push (os_alloc os) 24 ?g (g_guard_pages (sigs s)) (g_guard_cap (sigs s)) (world s)
      = (Inr (g_guard_pages (sigs s) @ [?g], gc), w1)" "quiet os (world s) w1"
    using ok by (rule grow_push_alloc)
  obtain tc w2 where 2: "grow_push (os_alloc os) 8 (Some a) (g_threads (sch s)) (g_threads_cap (sch s)) w1
      = (Inr (g_threads (sch s) @ [Some a], tc), w2)" "quiet os w1 w2"
    using ok by (rule grow_push_alloc)
  obtain ac w3 where 3: "grow_push (os_alloc os) 8 (Some a) (g_allocated (uth s)) (g_allocated_cap (uth s)) w2
      = (Inr (g_allocated (uth s) @ [Some a], ac), w3)" "quiet os w2 w3"
    using ok by (rule grow_push_alloc)
  have q: "quiet os (world s) w3" using 1(2) 2(2) 3(2) by (blast intro: quiet_trans)
  show ?thesis
    by (rule that [of "snd (register_all os m pg i a s)" tc ac])
      (simp_all add: register_all_def rr_register_guard_page_def rr_scheduler_register_thread_def remember_thread_def
        1(1) 2(1) 3(1) create_frame_def q)
qed

text \<open>The control block of a new thread.\<close>

definition new_ut :: "u64 \<Rightarrow> u64 \<Rightarrow> u64 \<Rightarrow> u64 \<Rightarrow> u64 \<Rightarrow> u64 \<Rightarrow> u64 \<Rightarrow> 'c \<Rightarrow> 'c uthread_t" where
  "new_ut i m pg stk fn arg tls c = (ut_setup i m pg stk fn arg ut_zero)\<lparr>ut_tls_block := tls, ut_ctx := Some c\<rparr>"

definition with_ut :: "nat \<Rightarrow> 'c uthread_t \<Rightarrow> nat \<Rightarrow> 'c sched \<Rightarrow> 'c sched" where
  "with_ut a u tc x = x\<lparr>ut_heap := (ut_heap x)(a \<mapsto> u), ut_brk := a + 1, g_threads := g_threads x @ [Some a], g_threads_cap := tc\<rparr>"

definition created :: "'w os \<Rightarrow> (nat \<Rightarrow> 'c) \<Rightarrow> u64 \<Rightarrow> u64 \<Rightarrow> ('c, 'w) rr \<Rightarrow> u64 option \<Rightarrow> ('c, 'w) rr \<Rightarrow> bool" where
  "created os mk fn arg s r s' \<longleftrightarrow> create_frame s s' \<and> quiet os (world s) (world s') \<and>
     (case r of
        None \<Rightarrow> (\<exists>n j. sch s' = (sch s)\<lparr>ut_brk := n\<rparr> \<and> ut_brk (sch s) \<le> n \<and> n \<le> Suc (ut_brk (sch s))
                   \<and> uth s' = (uth s)\<lparr>g_next_id := j\<rparr> \<and> (j = g_next_id (uth s) \<or> j = g_next_id (uth s) + 1))
      | Some i \<Rightarrow> i = g_next_id (uth s) \<and>
          (\<exists>m pg stk tls tc ac.
             rr_scheduler_enqueue (Some (ut_brk (sch s)))
               (with_ut (ut_brk (sch s)) (new_ut i m pg stk fn arg tls (mk (ut_brk (sch s)))) tc (sch s)) = Some (sch s')
             \<and> uth s' = (uth s)\<lparr>g_next_id := i + 1, g_allocated := g_allocated (uth s) @ [Some (ut_brk (sch s))], g_allocated_cap := ac\<rparr>
             \<and> errno s' = errno s))"

text \<open>The failure paths give the control block back.\<close>

lemma created_fail:
  assumes "create_frame s t" and "quiet os (world s) (world t)" and "sch t = (sch s)\<lparr>ut_heap := (ut_heap (sch s))(a \<mapsto> u), ut_brk := Suc a\<rparr>"
    and "a = ut_brk (sch s)" and "ut_heap (sch s) a = None"
    and "uth t = (uth s)\<lparr>g_next_id := j\<rparr>" and "j = g_next_id (uth s) \<or> j = g_next_id (uth s) + 1"
  shows "created os mk fn arg s None (ut_free a t)"
    and "created os mk fn arg s None (ut_free a (kdo (os_munmap os m k) t))"
proof -
  have "(ut_heap (sch s))(a := None) = ut_heap (sch s)" using assms(5) by auto
  then have "sch (ut_free a t) = (sch s)\<lparr>ut_brk := Suc a\<rparr>" using assms(3) by (simp add: ut_free_def)
  then show "created os mk fn arg s None (ut_free a t)"
    and "created os mk fn arg s None (ut_free a (kdo (os_munmap os m k) t))"
    using assms by (auto simp: created_def create_frame_def ut_free_def kdo_def)
qed

lemma calloc_ok:
  assumes "alloc_ok os"
  obtains w where "ut_calloc os s = (Some (ut_brk (sch s)), s\<lparr>world := w, sch := (sch s)\<lparr>ut_heap := (ut_heap (sch s))(ut_brk (sch s) \<mapsto> ut_zero),
      ut_brk := ut_brk (sch s) + 1\<rparr>\<rparr>)" "quiet os (world s) w"
proof -
  obtain w where "os_alloc os (sizeof_uthread os) (world s) = (Inr (), w)" using assms unfolding alloc_ok_def by blast
  then show ?thesis by (intro that [of w]) (simp_all add: ut_calloc_def kres_def Let_def quiet_calls(3))
qed

lemma create_tail:
  assumes ok: "alloc_ok os" and fr: "create_frame s t" and q: "quiet os (world s) (world t)" and e: "errno t = errno s"
    and a: "a = ut_brk (sch s)" "ut_heap (sch s) a = None"
    and t: "sch t = (sch s)\<lparr>ut_heap := (ut_heap (sch s))(a \<mapsto> ut_setup i m pg stk fn arg ut_zero), ut_brk := Suc a\<rparr>"
      "uth t = (uth s)\<lparr>g_next_id := i + 1\<rparr>" and i: "i = g_next_id (uth s)"
    and enq: "\<And>u tc. \<exists>y. rr_scheduler_enqueue (Some a) (with_ut a u tc (sch s)) = Some y"
  shows "\<exists>r s'. create_rest os mk a i m pg k t = Some (r, s') \<and> created os mk fn arg s r s'"
proof (cases rule: kres_cases [of "os_get_fs os" t])
  case (fail e w)
  have "quiet os (world s) w" using q quiet_calls(6) [OF fail(2)] by (rule quiet_trans)
  then have "created os mk fn arg s None (ut_free a (kdo (os_munmap os m k) (t\<lparr>errno := e, world := w\<rparr>)))"
    using fr t a i
    by (intro created_fail(2) [where j = "i + 1" and u = "ut_setup i m pg stk fn arg ut_zero"]) (auto simp: create_frame_def)
  then show ?thesis using fail(1) by (simp add: create_rest_def init_tls_copy_def rr_get_fs_base_def create_fail_def)
next
  case tls: (ok b w)
  have q1: "quiet os (world s) w" using q quiet_calls(6) [OF tls(2)] by (rule quiet_trans)
  define t1 where "t1 = t\<lparr>world := w, sch := (sch s)\<lparr>ut_heap := (ut_heap (sch s))(a \<mapsto> (ut_setup i m pg stk fn arg ut_zero)\<lparr>ut_tls_block := b\<rparr>), ut_brk := Suc a\<rparr>\<rparr>"
  have i1: "init_tls_copy os (Some a) t = Some (0, t1)"
    using tls(1) t by (simp add: init_tls_copy_def rr_get_fs_base_def on_sched_def t1_def)
  show ?thesis
  proof (cases rule: kres_cases [of "os_getcontext os" t1])
    case (fail e w')
    have "quiet os (world s) w'" using q1 quiet_calls(4) [OF fail(2)] by (simp add: t1_def quiet_trans)
    then have "created os mk fn arg s None (ut_free a (kdo (os_munmap os m k) (t1\<lparr>errno := e, world := w'\<rparr>)))"
      using fr t a i
      by (intro created_fail(2) [where j = "i + 1" and u = "(ut_setup i m pg stk fn arg ut_zero)\<lparr>ut_tls_block := b\<rparr>"])
        (auto simp: create_frame_def t1_def)
    then show ?thesis using i1 fail(1) by (simp add: create_rest_def create_fail_def)
  next
    case (ok v w')
    have q2: "quiet os (world s) w'" using q1 quiet_calls(4) [OF ok(2)] by (simp add: t1_def quiet_trans)
    define t2 where "t2 = t1\<lparr>world := w', sch := (sch s)\<lparr>ut_heap := (ut_heap (sch s))(a \<mapsto> new_ut i m pg stk fn arg b (mk a)), ut_brk := Suc a\<rparr>\<rparr>"
    have u: "on_sched (ut_upd (Some a) (ut_ctx_update (\<lambda>_. Some (mk a)))) (t1\<lparr>world := w'\<rparr>) = Some t2"
      by (simp add: on_sched_def t1_def t2_def new_ut_def)
    obtain s3 tc ac where s3: "register_all os m pg i a t2 = (True, s3)" "create_frame t2 s3" "errno s3 = errno t2"
      "sch s3 = (sch t2)\<lparr>g_threads := g_threads (sch t2) @ [Some a], g_threads_cap := tc\<rparr>"
      "uth s3 = (uth t2)\<lparr>g_allocated := g_allocated (uth t2) @ [Some a], g_allocated_cap := ac\<rparr>" "quiet os (world t2) (world s3)"
      using \<open>alloc_ok os\<close> by (rule register_all_ok)
    have x: "sch s3 = with_ut a (new_ut i m pg stk fn arg b (mk a)) tc (sch s)" using s3(4) by (simp add: t2_def with_ut_def)
    then obtain y where y: "rr_scheduler_enqueue (Some a) (sch s3) = Some y" using enq by metis
    have q3: "quiet os (world s) (world s3)" using q2 s3(6) by (simp add: t2_def quiet_trans)
    have "created os mk fn arg s (Some i) (s3\<lparr>sch := y\<rparr>)"
      unfolding created_def option.case
      using fr s3(2,3,5) y q3 i e t(2) by (auto simp: create_frame_def t2_def t1_def x a(1)) blast
    moreover have "on_sched (rr_scheduler_enqueue (Some a)) s3 = Some (s3\<lparr>sch := y\<rparr>)" by (simp add: on_sched_def y)
    ultimately show ?thesis
      by (intro exI [of _ "Some i"] exI [of _ "s3\<lparr>sch := y\<rparr>"]) (simp add: create_rest_def i1 ok(1) u s3(1))
  qed
qed

lemma create_total:
  assumes ok: "alloc_ok os" and a: "ut_heap (sch s) (ut_brk (sch s)) = None"
    and enq: "\<And>u tc. \<exists>y. rr_scheduler_enqueue (Some (ut_brk (sch s))) (with_ut (ut_brk (sch s)) u tc (sch s)) = Some y"
  shows "\<exists>r s'. rr_uthread_create os mk fn arg s = Some (r, s') \<and> created os mk fn arg s r s'"
proof (cases "fn = 0")
  case True
  have "created os mk fn arg s None (s\<lparr>errno := EINVAL\<rparr>)"
    unfolding created_def create_frame_def option.case
    by (intro conjI exI [of _ "ut_brk (sch s)"] exI [of _ "g_next_id (uth s)"]) simp_all
  then show ?thesis using True by (simp add: rr_uthread_create_def)
next
  case fn: False
  let ?a = "ut_brk (sch s)" and ?pg = "os_pagesize os" and ?stk = "stack_size (cfg s)"
  obtain w where w: "ut_calloc os s = (Some ?a, s\<lparr>world := w, sch := (sch s)\<lparr>ut_heap := (ut_heap (sch s))(?a \<mapsto> ut_zero), ut_brk := ?a + 1\<rparr>\<rparr>)"
    "quiet os (world s) w"
    using ok by (rule calloc_ok)
  define t where "t = s\<lparr>world := w, sch := (sch s)\<lparr>ut_heap := (ut_heap (sch s))(?a \<mapsto> ut_zero), ut_brk := ?a + 1\<rparr>\<rparr>"
  note eq = rr_uthread_create_def fn w(1) [folded t_def]
  have id: "uth s = (uth s)\<lparr>g_next_id := g_next_id (uth s)\<rparr>" by simp
  show ?thesis
  proof (cases rule: kres_cases [of "os_mmap os (?pg + ?stk) False" t])
    case (fail e w1)
    have "quiet os (world s) w1" using w(2) quiet_calls(1) [OF fail(2)] by (simp add: t_def quiet_trans)
    then have "created os mk fn arg s None (ut_free ?a (t\<lparr>errno := e, world := w1\<rparr>))"
      using a by (intro created_fail(1) [where j = "g_next_id (uth s)" and u = ut_zero]) (auto simp: create_frame_def t_def)
    then show ?thesis using fail(1) by (simp add: eq t_def)
  next
    case mm: (ok m w1)
    have q1: "quiet os (world s) w1" using w(2) quiet_calls(1) [OF mm(2)] by (simp add: t_def quiet_trans)
    show ?thesis
    proof (cases rule: kres_cases [of "os_mprotect_rw os (m + ?pg) ?stk" "t\<lparr>world := w1\<rparr>"])
      case (fail e w2)
      have "quiet os (world s) w2" using q1 quiet_calls(2) [OF fail(2)] by (simp add: quiet_trans)
      then have "created os mk fn arg s None (ut_free ?a (kdo (os_munmap os m (?pg + ?stk)) (t\<lparr>errno := e, world := w2\<rparr>)))"
        using a by (intro created_fail(2) [where j = "g_next_id (uth s)" and u = ut_zero]) (auto simp: create_frame_def t_def)
      then show ?thesis using mm(1) fail(1) by (simp add: eq create_fail_def t_def)
    next
      case mp: (ok v w2)
      have q2: "quiet os (world s) w2" using q1 quiet_calls(2) [OF mp(2)] by (simp add: quiet_trans)
      define t2 where "t2 = t\<lparr>world := w2, uth := (uth s)\<lparr>g_next_id := g_next_id (uth s) + 1\<rparr>,
        sch := (sch s)\<lparr>ut_heap := (ut_heap (sch s))(?a \<mapsto> ut_setup (g_next_id (uth s)) m ?pg ?stk fn arg ut_zero), ut_brk := Suc ?a\<rparr>\<rparr>"
      have "on_sched (ut_upd (Some ?a) (ut_setup (g_next_id (uth s)) m ?pg ?stk fn arg))
          (t\<lparr>world := w2, uth := (uth t)\<lparr>g_next_id := g_next_id (uth t) + 1\<rparr>\<rparr>) = Some t2"
        by (simp add: on_sched_def t_def t2_def)
      then have "rr_uthread_create os mk fn arg s = create_rest os mk ?a (g_next_id (uth s)) m ?pg (?pg + ?stk) t2"
        using mm(1) mp(1) by (simp add: eq Let_def t_def)
      moreover have "create_frame s t2" "errno t2 = errno s" "quiet os (world s) (world t2)"
        using q2 by (simp_all add: create_frame_def t_def t2_def)
      ultimately show ?thesis
        using create_tail [OF ok, of s t2 ?a "g_next_id (uth s)" m ?pg ?stk fn arg mk "?pg + ?stk"] a enq by (simp add: t2_def)
    qed
  qed
qed

section \<open>A new thread in the abstract scheduler\<close>

lemma runq_with_ut:
  assumes "runq x xs" and "ut_heap x a = None"
  shows "runq (with_ut a u tc x) xs"
proof -
  have "a \<notin> set xs" using assms by (auto simp: runq_def)
  then have "chain (next_of (with_ut a u tc x)) p xs = chain (next_of x) p xs" for p
    by (intro chain_cong) (auto simp: next_of_def with_ut_def)
  with assms(1) show ?thesis by (auto simp: runq_def with_ut_def)
qed

text \<open>A new control block can always be queued.\<close>

lemma enq_fresh:
  assumes r: "refines x A" and a: "ut_heap x a = None"
  shows "\<exists>y. rr_scheduler_enqueue (Some a) (with_ut a u tc x) = Some y"
proof -
  have q: "runq (with_ut a u tc x) (aq A)" using refinesD(1) [OF r] a by (rule runq_with_ut)
  have "a \<notin> set (aq A)" using refinesD(1) [OF r] a by (auto simp: runq_def)
  then show ?thesis using enqueue_runq [OF q, of a] by (auto simp: with_ut_def)
qed

lemma spawn_refines:
  assumes r: "refines x A" and a: "ut_heap x a = None"
    and u: "ut_state u = UT_RUNNABLE" "ut_join_waiter u = None" "ut_retval u = 0"
  obtains y where "rr_scheduler_enqueue (Some a) (with_ut a u tc x) = Some y" "refines y (spec_spawn a A)"
    "ids y = (ids x)(a \<mapsto> ut_id u)" "ctxof y = (ctxof x)(a := ut_ctx u)" "g_threads y = g_threads x @ [Some a]"
    "ut_brk y = Suc a" "g_sched_running y = g_sched_running x" "dom (ut_heap y) = insert a (dom (ut_heap x))"
proof -
  let ?x = "with_ut a u tc x"
  let ?B = "A\<lparr>ast := (ast A)(a \<mapsto> UT_RUNNABLE), ajw := (ajw A)(a := None), aret := (aret A)(a \<mapsto> 0)\<rparr>"
  have q: "runq ?x (aq A)" using refinesD(1) [OF r] a by (rule runq_with_ut)
  have rb: "refines ?x ?B" using r q u by (auto simp: refines_def with_ut_def fun_eq_iff)
  have "a \<notin> set (aq A)" using refinesD(1) [OF r] a by (auto simp: runq_def)
  moreover have "a \<in> dom (ut_heap ?x)" by (simp add: with_ut_def)
  ultimately obtain y where y: "rr_scheduler_enqueue (Some a) ?x = Some y" "refines y (?B\<lparr>aq := aq A @ [a]\<rparr>)" "links_only ?x y"
    using refines_enqueue [OF rb, of a] by auto
  have "reg y = reg ?x" using y(1) by (rule reg_enqueue)
  then have "ids y = ids ?x" "g_threads y = g_threads ?x" "ut_brk y = ut_brk ?x" "g_sched_running y = g_sched_running ?x"
    by (simp_all add: reg_def)
  moreover have "ids ?x = (ids x)(a \<mapsto> ut_id u)" by (auto simp: ids_def with_ut_def)
  moreover have "ctxof y = (ctxof x)(a := ut_ctx u)"
    using ctxof_enqueue [OF y(1)] by (auto simp: ctxof_def with_ut_def)
  moreover have "dom (ut_heap y) = insert a (dom (ut_heap x))" using links_only_frame(8) [OF y(3)] by (auto simp: with_ut_def)
  ultimately show ?thesis using that [OF y(1)] y(2) by (simp add: spec_spawn_def with_ut_def)
qed

lemma new_ut_fields [simp]:
  "ut_id (new_ut i m pg stk fn arg tls c) = i" "ut_state (new_ut i m pg stk fn arg tls c) = UT_RUNNABLE"
  "ut_join_waiter (new_ut i m pg stk fn arg tls c) = None" "ut_retval (new_ut i m pg stk fn arg tls c) = 0"
  "ut_ctx (new_ut i m pg stk fn arg tls c) = Some c" "ut_start_fn (new_ut i m pg stk fn arg tls c) = fn"
  by (simp_all add: new_ut_def ut_setup_def ut_zero_def)

section \<open>Joining, branch by branch\<close>

lemma join_finish_defined:
  assumes "ut_heap (sch s) t = Some u"
  shows "join_finish (Some t) out s = Some (0, if out \<noteq> 0 then s\<lparr>umem := write_mem out (le_bytes 8 (ut_retval u)) (umem s)\<rparr> else s)"
  using assms by (simp add: join_finish_def copy_to_def memcpy_def)

text \<open>The last branch of \<^verbatim>\<open>rr_uthread_join\<close>: the caller is entered as the joining thread of the target, and blocks.\<close>

lemma join_blocks:
  assumes r: "refines (sch s) A" and run: "arunning A c" and sr: "g_sched_running (sch s)" and t: "ut_heap (sch s) t = Some ut"
  obtains x y where "ut_upd (Some t) (ut_join_waiter_update (\<lambda>_. Some c)) (sch s) = Some x"
    "rr_scheduler_block_current ctx x = Some (True, y)" "refines y (spec_block c (spec_joinwait t c A))"
    "reg y = reg (sch s)" "ctxof y = (ctxof (sch s))(c \<mapsto> ctx)"
proof -
  define x where "x = (sch s)\<lparr>ut_heap := (ut_heap (sch s))(t \<mapsto> ut\<lparr>ut_join_waiter := Some c\<rparr>)\<rparr>"
  have "refines x (A\<lparr>ast := (ast A)(t \<mapsto> ut_state ut), ajw := (ajw A)(t := Some c), aret := (aret A)(t \<mapsto> ut_retval ut)\<rparr>)"
    using refines_upd [OF r t, of "ut\<lparr>ut_join_waiter := Some c\<rparr>"] by (simp add: x_def)
  moreover have "(ast A)(t \<mapsto> ut_state ut) = ast A" "(aret A)(t \<mapsto> ut_retval ut) = aret A"
    using refinesD(3,5) [OF r, of t] t by auto
  ultimately have rx: "refines x (spec_joinwait t c A)" by (simp add: spec_joinwait_def)
  have "arunning (spec_joinwait t c A) c" using run by (simp add: arunning_def spec_joinwait_def)
  moreover have "g_sched_running x" using sr by (simp add: x_def)
  ultimately obtain y where y: "rr_scheduler_block_current ctx x = Some (True, y)" "refines y (spec_block c (spec_joinwait t c A))"
    using block_refines [OF rx] by blast
  have up: "ut_upd (Some t) (ut_join_waiter_update (\<lambda>_. Some c)) (sch s) = Some x" using t by (simp add: x_def)
  have "reg y = reg (sch s)" using reg_block [OF y(1)] reg_upd [OF up] by simp
  moreover have "ctxof y = (ctxof (sch s))(c \<mapsto> ctx)"
    using ctxof_block [OF y(1), of c] ctxof_upd [OF up] refines_running [OF r run] by (simp add: x_def) metis
  ultimately show ?thesis using that up y by blast
qed

lemma join_cases:
  assumes reg: "reg_ok (sch s)" and r: "refines (sch s) A" and inv: "ainv A" and run: "arunning A c" and sr: "g_sched_running (sch s)"
  obtains (unknown) "\<And>t. ids (sch s) t \<noteq> Some i" "rr_uthread_join ctx i out s = Some (Ret (-1), s\<lparr>errno := ESRCH\<rparr>)"
  | (self) "ids (sch s) c = Some i" "rr_uthread_join ctx i out s = Some (Ret (-1), s\<lparr>errno := EDEADLK\<rparr>)"
  | (finished) t v where "ids (sch s) t = Some i" "t \<noteq> c" "ast A t = Some UT_DONE" "aret A t = Some v"
      "rr_uthread_join ctx i out s = Some (Ret 0, if out \<noteq> 0 then s\<lparr>umem := write_mem out (le_bytes 8 v) (umem s)\<rparr> else s)"
  | (busy) t where "ids (sch s) t = Some i" "t \<noteq> c" "ast A t \<noteq> Some UT_DONE" "ajw A t \<noteq> None" "ajw A t \<noteq> Some c"
      "rr_uthread_join ctx i out s = Some (Ret (-1), s\<lparr>errno := EBUSY\<rparr>)"
  | (wait) t x where "ids (sch s) t = Some i" "t \<noteq> c" "ast A t \<noteq> Some UT_DONE" "ajw A t = None \<or> ajw A t = Some c"
      "rr_uthread_join ctx i out s = Some (Suspended, s\<lparr>sch := x\<rparr>)" "refines x (spec_block c (spec_joinwait t c A))"
      "reg x = reg (sch s)" "ctxof x = (ctxof (sch s))(c \<mapsto> ctx (Some t))"
proof -
  obtain f where f: "rr_scheduler_find i (sch s) = Some f" "\<And>a. f = Some a \<longleftrightarrow> ids (sch s) a = Some i"
    using find_correct [OF reg, of i] by blast
  obtain uc where uc: "ut_heap (sch s) c = Some uc" "g_current (sch s) = Some c"
    using refines_running [OF r run] by metis
  note eq = rr_uthread_join_def f(1) rr_scheduler_current_def uc fail_with_def
  consider "f = None" | "f = Some c" | t ut where "f = Some t" "ids (sch s) t = Some i" "t \<noteq> c" "ut_heap (sch s) t = Some ut" "ut_id ut \<noteq> ut_id uc"
  proof (cases f)
    case (Some t)
    then have it: "ids (sch s) t = Some i" using f(2) by blast
    then obtain ut where ut: "ut_heap (sch s) t = Some ut" "ut_id ut = i" by (auto simp: ids_def)
    have "ut_id uc \<noteq> i" if "t \<noteq> c" using reg it uc that by (auto simp: reg_ok_def ids_def)
    then show ?thesis using that Some it ut by metis
  qed simp
  then show ?thesis
  proof cases
    case 1
    then show ?thesis using unknown f(2) by (simp add: eq)
  next
    case 2
    then have "ids (sch s) c = Some i" using f(2) by blast
    then show ?thesis using self 2 uc by (simp add: eq ids_def)
  next
    case (3 t ut)
    have st: "ast A t = Some (ut_state ut)" "ajw A t = ut_join_waiter ut" "aret A t = Some (ut_retval ut)"
      using refinesD(3-5) [OF r, of t] 3(4) by simp_all
    obtain x y where y: "ut_upd (Some t) (ut_join_waiter_update (\<lambda>_. Some c)) (sch s) = Some x"
      "rr_scheduler_block_current (ctx (Some t)) x = Some (True, y)" "refines y (spec_block c (spec_joinwait t c A))"
      "reg y = reg (sch s)" "ctxof y = (ctxof (sch s))(c \<mapsto> ctx (Some t))"
      by (rule join_blocks [OF r run sr 3(4)])
    consider "ut_state ut = UT_DONE" | "ut_state ut \<noteq> UT_DONE" "ut_join_waiter ut \<noteq> None" "ut_join_waiter ut \<noteq> Some c"
      | "ut_state ut \<noteq> UT_DONE" "ut_join_waiter ut = None \<or> ut_join_waiter ut = Some c" by argo
    then show ?thesis
    proof cases
      case 1
      then show ?thesis using finished [OF 3(2,3) _ st(3)] st(1) 3 join_finish_defined [OF 3(4), of out] by (simp add: eq)
    next
      case 2
      then show ?thesis using busy [OF 3(2,3)] st 3 by (simp add: eq)
    next
      case x: 3
      then have "rr_uthread_join ctx i out s = Some (Suspended, s\<lparr>sch := y\<rparr>)"
        using 3 y(1,2) by (auto simp: eq Let_def on_sched_def on_sched_ret_def)
      then show ?thesis using wait [OF 3(2,3)] st x y(3-5) by auto
    qed
  qed
qed

end
