(* ===== verification/RR_Syscalls.thy ===== *)
theory RR_Syscalls
  imports RR_Uring RR_Replay
begin

text \<open>
  \<^verbatim>\<open>syscall_wrappers.c\<close>: the eighteen intercepted libc functions. Each has the three modes of
  the source: replay (return the logged result), record (perform and log), passthrough. The
  functions that go through io_uring in record mode are split where the thread is switched out; the part
  after the switch is the function \<open>..._finish\<close>. Return values are the C values as integers.
\<close>

section \<open>System call numbers and sizes (x86-64 Linux)\<close>

abbreviation NR_read :: i32 where "NR_read \<equiv> 0"
abbreviation NR_write :: i32 where "NR_write \<equiv> 1"
abbreviation NR_close :: i32 where "NR_close \<equiv> 3"
abbreviation NR_stat :: i32 where "NR_stat \<equiv> 4"
abbreviation NR_fstat :: i32 where "NR_fstat \<equiv> 5"
abbreviation NR_lstat :: i32 where "NR_lstat \<equiv> 6"
abbreviation NR_nanosleep :: i32 where "NR_nanosleep \<equiv> 35"
abbreviation NR_getpid :: i32 where "NR_getpid \<equiv> 39"
abbreviation NR_connect :: i32 where "NR_connect \<equiv> 42"
abbreviation NR_accept :: i32 where "NR_accept \<equiv> 43"
abbreviation NR_sendto :: i32 where "NR_sendto \<equiv> 44"
abbreviation NR_recvfrom :: i32 where "NR_recvfrom \<equiv> 45"
abbreviation NR_uname :: i32 where "NR_uname \<equiv> 63"
abbreviation NR_getcwd :: i32 where "NR_getcwd \<equiv> 79"
abbreviation NR_gettimeofday :: i32 where "NR_gettimeofday \<equiv> 96"
abbreviation NR_getuid :: i32 where "NR_getuid \<equiv> 102"
abbreviation NR_clock_gettime :: i32 where "NR_clock_gettime \<equiv> 228"
abbreviation NR_openat :: i32 where "NR_openat \<equiv> 257"

definition sizeof_timespec :: nat where "sizeof_timespec = 16"
definition sizeof_timeval :: nat where "sizeof_timeval = 16"
definition sizeof_utsname :: nat where "sizeof_utsname = 390"
definition sizeof_stat :: nat where "sizeof_stat = 144"

section \<open>Conversions\<close>

definition to_log_int :: "int \<Rightarrow> ('c, 'w) rr \<Rightarrow> i32" where
  "to_log_int rc s = (if rc = -1 then - errno s else of_int rc)"

definition raw_to_ssize :: "i32 \<Rightarrow> ('c, 'w) rr \<Rightarrow> int \<times> ('c, 'w) rr" where
  "raw_to_ssize raw s = (if sint raw < 0 then (-1, s\<lparr>errno := - raw\<rparr>) else (sint raw, s))"

definition raw_to_int :: "i32 \<Rightarrow> ('c, 'w) rr \<Rightarrow> int \<times> ('c, 'w) rr" where
  "raw_to_int raw s = (if sint raw < 0 then (-1, s\<lparr>errno := - raw\<rparr>) else (sint raw, s))"

definition replay_get_event ::
  "'w os \<Rightarrow> i32 \<Rightarrow> ('c, 'w) rr \<Rightarrow> (rr_replay_syscall_event_t option \<times> ('c, 'w) rr) option" where
  "replay_get_event os nr s = do { utid \<leftarrow> current_id s; rr_replay_next_syscall os nr utid s }"

section \<open>Parts shared by several wrappers\<close>

text \<open>Replay of a call that only has a return value.\<close>

definition replay_scalar :: "'w os \<Rightarrow> i32 \<Rightarrow> ('c, 'w) rr \<Rightarrow> (int \<times> ('c, 'w) rr) option" where
  "replay_scalar os nr s =
     do {
       (oev, s) \<leftarrow> replay_get_event os nr s;
       case oev of None \<Rightarrow> Some (-1, s) | Some ev \<Rightarrow> Some (raw_to_int (re_retval ev) s)
     }"

text \<open>Replay of \<^verbatim>\<open>read\<close> and \<^verbatim>\<open>recv\<close>: the three clamps of the copy length.\<close>

definition replay_into :: "'w os \<Rightarrow> i32 \<Rightarrow> u64 \<Rightarrow> u64 \<Rightarrow> ('c, 'w) rr \<Rightarrow> (int \<times> ('c, 'w) rr) option" where
  "replay_into os nr buf count s =
     do {
       (oev, s) \<leftarrow> replay_get_event os nr s;
       case oev of None \<Rightarrow> Some (-1, s)
       | Some ev \<Rightarrow> do {
           s \<leftarrow> (if 0 < sint (re_retval ev) \<and> buf \<noteq> 0 then
                   (let to_copy = nat (sint (re_retval ev));
                        to_copy = (if to_copy > unat count then unat count else to_copy);
                        to_copy = (if to_copy > unat (re_data_len ev) then unat (re_data_len ev) else to_copy)
                    in copy_to buf (take to_copy (re_data ev)) s)
                 else Some s);
           Some (raw_to_ssize (re_retval ev) s)
         }
     }"

text \<open>Replay of a call that fills a struct of \<open>size\<close> bytes.\<close>

definition fill_struct ::
  "u64 \<Rightarrow> nat \<Rightarrow> rr_replay_syscall_event_t \<Rightarrow> ('c, 'w) rr \<Rightarrow> (int \<times> ('c, 'w) rr) option" where
  "fill_struct p sz ev s =
     do {
       s \<leftarrow> (if 0 \<le> sint (re_retval ev) then
               (let to_copy = unat (re_data_len ev);
                    to_copy = (if to_copy > sz then sz else to_copy)
                in copy_to p (take to_copy (re_data ev)) s)
             else Some s);
       Some (raw_to_int (re_retval ev) s)
     }"

text \<open>The half of such a wrapper that calls the real function, and logs it in record mode.\<close>

definition record_struct ::
  "'w os \<Rightarrow> libc_call \<Rightarrow> i32 \<Rightarrow> u64 \<Rightarrow> u64 \<Rightarrow> nat \<Rightarrow> ('c, 'w) rr \<Rightarrow> (int \<times> ('c, 'w) rr) option" where
  "record_struct os call nr arg0 p sz s =
     (case real_call os call (-1) s of (rc, s) \<Rightarrow>
      if rr_active s then do {
        s \<leftarrow> rr_log_syscall os nr (to_log_int rc s) arg0 p (if rc = 0 then of_nat sz else 0) s;
        Some (rc, s)
      } else Some (rc, s))"

text \<open>Leaving a wrapper that never switches threads.\<close>

definition immediate :: "(int \<times> ('c, 'w) rr) option \<Rightarrow> (int outc \<times> ('c, 'w) rr) option" where
  "immediate r = do { (v, s) \<leftarrow> r; Some (Ret v, s) }"

text \<open>Passthrough.\<close>

definition passthrough :: "'w os \<Rightarrow> libc_call \<Rightarrow> ('c, 'w) rr \<Rightarrow> (int outc \<times> ('c, 'w) rr) option" where
  "passthrough os call s = immediate (Some (real_call os call (-1) s))"

text \<open>After a submission: finish at once when it returned, or stay suspended.\<close>

definition then_finish ::
  "(i32 \<Rightarrow> ('c, 'w) rr \<Rightarrow> (int \<times> ('c, 'w) rr) option) \<Rightarrow> (i32 outc \<times> ('c, 'w) rr) option
     \<Rightarrow> (int outc \<times> ('c, 'w) rr) option" where
  "then_finish fin r = do { (x, s) \<leftarrow> r; case x of Suspended \<Rightarrow> Some (Suspended, s) | Ret raw \<Rightarrow> immediate (fin raw s) }"

section \<open>read, write, recv, send\<close>

definition read_finish :: "'w os \<Rightarrow> int \<Rightarrow> u64 \<Rightarrow> i32 \<Rightarrow> ('c, 'w) rr \<Rightarrow> (int \<times> ('c, 'w) rr) option" where
  "read_finish os fd buf raw s =
     (case raw_to_ssize raw s of (ret, s) \<Rightarrow>
      (let len = (if sint raw > 0 then raw else 0) in do {
         s \<leftarrow> rr_log_syscall os NR_read raw (of_int fd) buf len s;
         Some (ret, s) }))"

definition read :: "'w os \<Rightarrow> 'c \<Rightarrow> int \<Rightarrow> u64 \<Rightarrow> u64 \<Rightarrow> ('c, 'w) rr \<Rightarrow> (int outc \<times> ('c, 'w) rr) option" where
  "read os ctx fd buf count s =
     (if \<not> rr_active s then
        if rr_replay_active s then immediate (replay_into os NR_read buf count s)
        else passthrough os (CRead fd buf count) s
      else if count = 0 then
        (case real_call os (CRead fd buf count) (-1) s of (ret, s) \<Rightarrow> immediate (do {
           s \<leftarrow> rr_log_syscall os NR_read (if ret = -1 then - errno s else of_int ret) (of_int fd) 0 0 s;
           Some (ret, s) }))
      else then_finish (read_finish os fd buf) (rr_io_submit_read_and_wait os ctx fd buf count s))"

definition write_finish :: "'w os \<Rightarrow> int \<Rightarrow> i32 \<Rightarrow> ('c, 'w) rr \<Rightarrow> (int \<times> ('c, 'w) rr) option" where
  "write_finish os fd raw s =
     (case raw_to_ssize raw s of (ret, s) \<Rightarrow> do {
        s \<leftarrow> rr_log_syscall os NR_write raw (of_int fd) 0 0 s;
        Some (ret, s) })"

definition write_fn :: "'w os \<Rightarrow> 'c \<Rightarrow> int \<Rightarrow> u64 \<Rightarrow> u64 \<Rightarrow> ('c, 'w) rr \<Rightarrow> (int outc \<times> ('c, 'w) rr) option" where
  "write_fn os ctx fd buf count s =
     (if \<not> rr_active s then
        if rr_replay_active s then immediate (replay_scalar os NR_write s)
        else passthrough os (CWrite fd buf count) s
      else if count = 0 then
        (case real_call os (CWrite fd buf count) (-1) s of (ret, s) \<Rightarrow> immediate (do {
           s \<leftarrow> rr_log_syscall os NR_write (if ret = -1 then - errno s else of_int ret) (of_int fd) 0 0 s;
           Some (ret, s) }))
      else then_finish (write_finish os fd) (rr_io_submit_write_and_wait os ctx fd buf count s))"

definition recv_finish :: "'w os \<Rightarrow> int \<Rightarrow> u64 \<Rightarrow> i32 \<Rightarrow> ('c, 'w) rr \<Rightarrow> (int \<times> ('c, 'w) rr) option" where
  "recv_finish os sockfd buf raw s =
     (case raw_to_ssize raw s of (ret, s) \<Rightarrow>
      (let data_len = (if sint raw > 0 then raw else 0) in do {
         s \<leftarrow> rr_log_syscall os NR_recvfrom raw (of_int sockfd) buf data_len s;
         Some (ret, s) }))"

definition recv :: "'w os \<Rightarrow> 'c \<Rightarrow> int \<Rightarrow> u64 \<Rightarrow> u64 \<Rightarrow> int \<Rightarrow> ('c, 'w) rr \<Rightarrow> (int outc \<times> ('c, 'w) rr) option" where
  "recv os ctx sockfd buf len flags s =
     (if \<not> rr_active s then
        if rr_replay_active s then immediate (replay_into os NR_recvfrom buf len s)
        else passthrough os (CRecv sockfd buf len flags) s
      else then_finish (recv_finish os sockfd buf) (rr_io_submit_recv_and_wait os ctx sockfd buf len flags s))"

definition send_finish :: "'w os \<Rightarrow> int \<Rightarrow> i32 \<Rightarrow> ('c, 'w) rr \<Rightarrow> (int \<times> ('c, 'w) rr) option" where
  "send_finish os sockfd raw s =
     (case raw_to_ssize raw s of (ret, s) \<Rightarrow> do {
        s \<leftarrow> rr_log_syscall os NR_sendto raw (of_int sockfd) 0 0 s;
        Some (ret, s) })"

definition send :: "'w os \<Rightarrow> 'c \<Rightarrow> int \<Rightarrow> u64 \<Rightarrow> u64 \<Rightarrow> int \<Rightarrow> ('c, 'w) rr \<Rightarrow> (int outc \<times> ('c, 'w) rr) option" where
  "send os ctx sockfd buf len flags s =
     (if \<not> rr_active s then
        if rr_replay_active s then immediate (replay_scalar os NR_sendto s)
        else passthrough os (CSend sockfd buf len flags) s
      else then_finish (send_finish os sockfd) (rr_io_submit_send_and_wait os ctx sockfd buf len flags s))"

section \<open>accept, connect, openat, close\<close>

definition accept_finish :: "'w os \<Rightarrow> int \<Rightarrow> i32 \<Rightarrow> ('c, 'w) rr \<Rightarrow> (int \<times> ('c, 'w) rr) option" where
  "accept_finish os sockfd raw s =
     (case raw_to_int raw s of (ret, s) \<Rightarrow> do {
        s \<leftarrow> rr_log_syscall os NR_accept raw (of_int sockfd) 0 0 s;
        Some (ret, s) })"

definition accept :: "'w os \<Rightarrow> 'c \<Rightarrow> int \<Rightarrow> u64 \<Rightarrow> u64 \<Rightarrow> ('c, 'w) rr \<Rightarrow> (int outc \<times> ('c, 'w) rr) option" where
  "accept os ctx sockfd addr addrlen s =
     (if \<not> rr_active s then
        if rr_replay_active s then immediate (replay_scalar os NR_accept s)
        else passthrough os (CAccept sockfd addr addrlen) s
      else then_finish (accept_finish os sockfd) (rr_io_submit_accept_and_wait os ctx sockfd addr addrlen s))"

definition connect_finish :: "'w os \<Rightarrow> int \<Rightarrow> i32 \<Rightarrow> ('c, 'w) rr \<Rightarrow> (int \<times> ('c, 'w) rr) option" where
  "connect_finish os sockfd raw s =
     (case raw_to_int raw s of (ret, s) \<Rightarrow> do {
        s \<leftarrow> rr_log_syscall os NR_connect raw (of_int sockfd) 0 0 s;
        Some (ret, s) })"

definition connect :: "'w os \<Rightarrow> 'c \<Rightarrow> int \<Rightarrow> u64 \<Rightarrow> u32 \<Rightarrow> ('c, 'w) rr \<Rightarrow> (int outc \<times> ('c, 'w) rr) option" where
  "connect os ctx sockfd addr addrlen s =
     (if \<not> rr_active s then
        if rr_replay_active s then immediate (replay_scalar os NR_connect s)
        else passthrough os (CConnect sockfd addr addrlen) s
      else then_finish (connect_finish os sockfd) (rr_io_submit_connect_and_wait os ctx sockfd addr addrlen s))"

text \<open>\<^verbatim>\<open>O_CREAT\<close> is bit 6 of the flags; \<open>va_mode\<close> is the variadic argument, read only then.\<close>

definition openat_finish :: "'w os \<Rightarrow> int \<Rightarrow> i32 \<Rightarrow> ('c, 'w) rr \<Rightarrow> (int \<times> ('c, 'w) rr) option" where
  "openat_finish os dirfd raw s =
     (case raw_to_int raw s of (ret, s) \<Rightarrow> do {
        s \<leftarrow> rr_log_syscall os NR_openat raw (of_int dirfd) 0 0 s;
        Some (ret, s) })"

definition openat :: "'w os \<Rightarrow> 'c \<Rightarrow> int \<Rightarrow> u64 \<Rightarrow> int \<Rightarrow> u32 \<Rightarrow> ('c, 'w) rr \<Rightarrow> (int outc \<times> ('c, 'w) rr) option" where
  "openat os ctx dirfd pathname flags va_mode s =
     (let mode = (if bit flags 6 then va_mode else 0) in
      if \<not> rr_active s then
        if rr_replay_active s then immediate (replay_scalar os NR_openat s)
        else if bit flags 6 then passthrough os (COpenat dirfd pathname flags (Some mode)) s
        else passthrough os (COpenat dirfd pathname flags None) s
      else then_finish (openat_finish os dirfd) (rr_io_submit_openat_and_wait os ctx dirfd pathname flags mode s))"

definition close_finish :: "'w os \<Rightarrow> int \<Rightarrow> i32 \<Rightarrow> ('c, 'w) rr \<Rightarrow> (int \<times> ('c, 'w) rr) option" where
  "close_finish os fd raw s =
     (case raw_to_int raw s of (ret, s) \<Rightarrow> do {
        s \<leftarrow> rr_log_syscall os NR_close raw (of_int fd) 0 0 s;
        Some (ret, s) })"

definition close :: "'w os \<Rightarrow> 'c \<Rightarrow> int \<Rightarrow> ('c, 'w) rr \<Rightarrow> (int outc \<times> ('c, 'w) rr) option" where
  "close os ctx fd s =
     (if \<not> rr_active s then
        if rr_replay_active s then immediate (replay_scalar os NR_close s)
        else passthrough os (CClose fd) s
      else then_finish (close_finish os fd) (rr_io_submit_close_and_wait os ctx fd s))"

section \<open>nanosleep\<close>

definition nanosleep_finish :: "'w os \<Rightarrow> int \<Rightarrow> u64 \<Rightarrow> i32 \<Rightarrow> ('c, 'w) rr \<Rightarrow> (int \<times> ('c, 'w) rr) option" where
  "nanosleep_finish os tfd rem raw s =
     (let s = kdo (os_close os tfd) s in
      if sint raw < 0 then do {
        s \<leftarrow> rr_log_syscall os NR_nanosleep raw 0 0 0 (s\<lparr>errno := - raw\<rparr>);
        Some (-1, s)
      } else do {
        s \<leftarrow> (if rem \<noteq> 0 then copy_to rem (replicate 16 0) s else Some s);
        s \<leftarrow> rr_log_syscall os NR_nanosleep 0 0 0 0 s;
        Some (0, s)
      })"

definition nanosleep :: "'w os \<Rightarrow> (int \<Rightarrow> 'c) \<Rightarrow> u64 \<Rightarrow> u64 \<Rightarrow> ('c, 'w) rr \<Rightarrow> (int outc \<times> ('c, 'w) rr) option" where
  "nanosleep os ctx req rem s =
     (if \<not> rr_active s then
        if rr_replay_active s then immediate (replay_scalar os NR_nanosleep s)
        else passthrough os (CNanosleep req rem) s
      else case kres (os_timerfd_create os) s of
          (None, s) \<Rightarrow> immediate (do { s \<leftarrow> rr_log_syscall os NR_nanosleep (- errno s) 0 0 0 s; Some (-1, s) })
        | (Some tfd, s) \<Rightarrow>
            (let spec = replicate 16 0 @ read_mem (umem s) req sizeof_timespec in
             case kres (os_timerfd_settime os tfd spec) s of
               (None, s) \<Rightarrow>
                 (let err = errno s; s = (kdo (os_close os tfd) s)\<lparr>errno := err\<rparr>
                  in immediate (do { s \<leftarrow> rr_log_syscall os NR_nanosleep (- err) 0 0 0 s; Some (-1, s) }))
             | (Some _, s) \<Rightarrow>
                 then_finish (nanosleep_finish os tfd rem)
                   (rr_io_submit_timerfd_read_and_wait os (ctx tfd) tfd (os_expirations_addr os) s)))"

section \<open>Time, identity and file status\<close>

definition clock_gettime :: "'w os \<Rightarrow> int \<Rightarrow> u64 \<Rightarrow> ('c, 'w) rr \<Rightarrow> (int \<times> ('c, 'w) rr) option" where
  "clock_gettime os clock_id tp s =
     (if rr_replay_active s then do {
        (oev, s) \<leftarrow> replay_get_event os NR_clock_gettime s;
        case oev of None \<Rightarrow> Some (-1, s)
        | Some ev \<Rightarrow>
            if \<not> replay_time_virtual (cfg s) then Some (real_call os (CClockGettime clock_id tp) (-1) s)
            else fill_struct tp sizeof_timespec ev s
      }
      else record_struct os (CClockGettime clock_id tp) NR_clock_gettime (of_int clock_id) tp sizeof_timespec s)"

definition gettimeofday :: "'w os \<Rightarrow> u64 \<Rightarrow> u64 \<Rightarrow> ('c, 'w) rr \<Rightarrow> (int \<times> ('c, 'w) rr) option" where
  "gettimeofday os tv tz s =
     (if rr_replay_active s then do {
        (oev, s) \<leftarrow> replay_get_event os NR_gettimeofday s;
        case oev of None \<Rightarrow> Some (-1, s)
        | Some ev \<Rightarrow>
            if \<not> replay_time_virtual (cfg s) then Some (real_call os (CGettimeofday tv tz) (-1) s)
            else fill_struct tv sizeof_timeval ev s
      }
      else record_struct os (CGettimeofday tv tz) NR_gettimeofday 0 tv sizeof_timeval s)"

definition getpid :: "'w os \<Rightarrow> ('c, 'w) rr \<Rightarrow> (int \<times> ('c, 'w) rr) option" where
  "getpid os s =
     (if rr_replay_active s then replay_scalar os NR_getpid s
      else case real_call os CGetpid (-1) s of (rc, s) \<Rightarrow>
        if rr_active s then do { s \<leftarrow> rr_log_syscall os NR_getpid (of_int rc) 0 0 0 s; Some (rc, s) }
        else Some (rc, s))"

text \<open>\<^verbatim>\<open>uid_t\<close> is unsigned: the result -1 is converted to 4294967295.\<close>

definition to_uid :: "int \<Rightarrow> int" where
  "to_uid v = v mod 2 ^ 32"

definition getuid :: "'w os \<Rightarrow> ('c, 'w) rr \<Rightarrow> (int \<times> ('c, 'w) rr) option" where
  "getuid os s =
     (if rr_replay_active s then do { (v, s) \<leftarrow> replay_scalar os NR_getuid s; Some (to_uid v, s) }
      else case real_call os CGetuid (-1) s of (rc, s) \<Rightarrow>
        if rr_active s then do { s \<leftarrow> rr_log_syscall os NR_getuid (of_int rc) 0 0 0 s; Some (rc, s) }
        else Some (rc, s))"

definition uname :: "'w os \<Rightarrow> u64 \<Rightarrow> ('c, 'w) rr \<Rightarrow> (int \<times> ('c, 'w) rr) option" where
  "uname os buf s =
     (if rr_replay_active s then do {
        (oev, s) \<leftarrow> replay_get_event os NR_uname s;
        case oev of None \<Rightarrow> Some (-1, s)
        | Some ev \<Rightarrow> if buf \<noteq> 0 then fill_struct buf sizeof_utsname ev s else Some (raw_to_int (re_retval ev) s)
      }
      else record_struct os (CUname buf) NR_uname 0 buf sizeof_utsname s)"

text \<open>The common shape of \<^verbatim>\<open>stat\<close>, \<^verbatim>\<open>fstat\<close> and \<^verbatim>\<open>lstat\<close>.\<close>

definition stat_like :: "'w os \<Rightarrow> libc_call \<Rightarrow> i32 \<Rightarrow> u64 \<Rightarrow> u64 \<Rightarrow> ('c, 'w) rr \<Rightarrow> (int \<times> ('c, 'w) rr) option" where
  "stat_like os call nr arg0 st s =
     (if rr_replay_active s then do {
        (oev, s) \<leftarrow> replay_get_event os nr s;
        case oev of None \<Rightarrow> Some (-1, s) | Some ev \<Rightarrow> fill_struct st sizeof_stat ev s
      }
      else record_struct os call nr arg0 st sizeof_stat s)"

definition stat :: "'w os \<Rightarrow> u64 \<Rightarrow> u64 \<Rightarrow> ('c, 'w) rr \<Rightarrow> (int \<times> ('c, 'w) rr) option" where
  "stat os path st s = stat_like os (CStat path st) NR_stat path st s"

definition fstat :: "'w os \<Rightarrow> int \<Rightarrow> u64 \<Rightarrow> ('c, 'w) rr \<Rightarrow> (int \<times> ('c, 'w) rr) option" where
  "fstat os fd st s = stat_like os (CFstat fd st) NR_fstat (of_int fd) st s"

definition lstat :: "'w os \<Rightarrow> u64 \<Rightarrow> u64 \<Rightarrow> ('c, 'w) rr \<Rightarrow> (int \<times> ('c, 'w) rr) option" where
  "lstat os path st s = stat_like os (CLstat path st) NR_lstat path st s"

section \<open>getcwd\<close>

definition strnlen :: "mem \<Rightarrow> u64 \<Rightarrow> nat \<Rightarrow> nat" where
  "strnlen m p n = length (takeWhile (\<lambda>b. b \<noteq> 0) (read_mem m p n))"

text \<open>The result is the returned pointer, 0 for NULL.\<close>

definition getcwd :: "'w os \<Rightarrow> u64 \<Rightarrow> u64 \<Rightarrow> ('c, 'w) rr \<Rightarrow> (int \<times> ('c, 'w) rr) option" where
  "getcwd os buf sz s =
     (if rr_replay_active s then do {
        (oev, s) \<leftarrow> replay_get_event os NR_getcwd s;
        case oev of None \<Rightarrow> Some (0, s)
        | Some ev \<Rightarrow>
            if sint (re_retval ev) < 0 then Some (0, s\<lparr>errno := - re_retval ev\<rparr>)
            else if buf \<noteq> 0 \<and> sz > 0 then
              (let to_copy = unat (re_data_len ev);
                   to_copy = (if to_copy \<ge> unat sz then unat sz - 1 else to_copy)
               in do { s \<leftarrow> copy_to buf (take to_copy (re_data ev) @ [0]) s; Some (uint buf, s) })
            else Some (0, s)
      }
      else case real_call os (CGetcwd buf sz) 0 s of (rc, s) \<Rightarrow>
        if rr_active s then do {
          let retval = (if rc \<noteq> 0 then 0 else - errno s);
          s \<leftarrow> rr_log_syscall os NR_getcwd retval sz (of_int rc)
                 (if rc \<noteq> 0 then of_nat (strnlen (umem s) (of_int rc) (unat sz)) else 0) s;
          Some (rc, s)
        } else Some (rc, s))"

end
