(* ===== verification/RR_Init.thy ===== *)
theory RR_Init
  imports RR_Uthread RR_Syscalls
begin

text \<open>
  \<^verbatim>\<open>init.c\<close> (constructor and destructor of the library) and the two functions of other files
  that call wrapped libc functions: \<^verbatim>\<open>rr_record_init\<close> with \<^verbatim>\<open>rr_now_mono_ns\<close>
  (\<^verbatim>\<open>record.c\<close>) and \<^verbatim>\<open>rr_signal_shutdown\<close> (\<^verbatim>\<open>signal.c\<close>).
\<close>

section \<open>Opening the log for recording\<close>

abbreviation CLOCK_MONOTONIC :: int where "CLOCK_MONOTONIC \<equiv> 1"

definition rr_now_mono_ns :: "'w os \<Rightarrow> ('c, 'w) rr \<Rightarrow> (u64 \<times> ('c, 'w) rr) option" where
  "rr_now_mono_ns os s =
     do {
       (rc, s) \<leftarrow> clock_gettime os CLOCK_MONOTONIC (os_ts_addr os) s;
       if rc \<noteq> 0 then Some (0, s)
       else (let tv_sec = (le_word (read_mem (umem s) (os_ts_addr os) 8) :: u64);
                 tv_nsec = (le_word (read_mem (umem s) (os_ts_addr os + 8) 8) :: u64)
             in Some (tv_sec * 1000000000 + tv_nsec, s))
     }"

definition rr_record_init :: "'w os \<Rightarrow> string \<Rightarrow> ('c, 'w) rr \<Rightarrow> (int \<times> ('c, 'w) rr) option" where
  "rr_record_init os path s =
     (case rr_resolve_real_io os s of (rc, s) \<Rightarrow>
      if rc \<noteq> 0 then Some (-1, s)
      else case kres (os_mmap os (of_nat RR_LOG_RING_SIZE) True) s of
        (None, s) \<Rightarrow> Some (-1, s\<lparr>rcd := (rcd s)\<lparr>g_ring := None\<rparr>\<rparr>)
      | (Some ring, s) \<Rightarrow>
          (let s = s\<lparr>rcd := (rcd s)\<lparr>g_ring := Some ring\<rparr>\<rparr> in
           case kres (os_open_log os path) s of (ofd, s) \<Rightarrow>
           let fd = (case ofd of None \<Rightarrow> -1 | Some fd \<Rightarrow> fd);
               s = s\<lparr>rcd := (rcd s)\<lparr>g_log_fd := fd\<rparr>\<rparr> in
           if fd < 0 then
             Some (-1, (kdo (os_munmap os ring (of_nat RR_LOG_RING_SIZE)) s)\<lparr>rcd := (rcd s)\<lparr>g_ring := None\<rparr>\<rparr>)
           else do {
             (start, s) \<leftarrow> rr_now_mono_ns os s;
             (pid, s) \<leftarrow> getpid os s;
             let header = \<lparr> hd_magic = RR_LOG_MAGIC, hd_version = RR_LOG_VERSION, hd_start_time = start,
                            hd_pid = of_int pid, hd_reserved = 0 \<rparr>;
             (rc, s) \<leftarrow> rr_write_direct os (enc_header header) s;
             if rc \<noteq> 0 then
               (let s = (kdo (os_close os (g_log_fd (rcd s))) s)\<lparr>rcd := (rcd s)\<lparr>g_log_fd := -1\<rparr>\<rparr>
                in Some (-1, (kdo (os_munmap os ring (of_nat RR_LOG_RING_SIZE)) s)\<lparr>rcd := (rcd s)\<lparr>g_ring := None\<rparr>\<rparr>))
             else Some (0, s)
           }))"

section \<open>Signal tear-down\<close>

text \<open>Every caller has cleared \<^verbatim>\<open>runtime_ready\<close> or not set it yet, so the wrapped
  \<^verbatim>\<open>close\<close> never switches threads here; \<open>ctx\<close> would be the context it saves.\<close>

definition rr_signal_shutdown :: "'w os \<Rightarrow> 'c \<Rightarrow> ('c, 'w) rr \<Rightarrow> ('c, 'w) rr option" where
  "rr_signal_shutdown os ctx s =
     do {
       s \<leftarrow> (if 0 \<le> g_signalfd (sigs s) then do {
               (r, s) \<leftarrow> close os ctx (g_signalfd (sigs s)) s;
               (case r of Suspended \<Rightarrow> None | Ret _ \<Rightarrow> Some (s\<lparr>sigs := (sigs s)\<lparr>g_signalfd := -1\<rparr>\<rparr>))
             } else Some s);
       let s = (if g_altstack_sp (sigs s) \<noteq> 0
                then (kdo (os_munmap os (g_altstack_sp (sigs s)) (g_altstack_size (sigs s))) s)\<lparr>sigs := (sigs s)\<lparr>g_altstack_sp := 0\<rparr>\<rparr>
                else s);
       Some (s\<lparr>sigs := (sigs s)\<lparr>g_guard_pages := [], g_guard_cap := 0\<rparr>\<rparr>)
     }"

section \<open>Constructor and destructor\<close>

text \<open>The closing sequences that the constructor and the destructor share.\<close>

definition record_down :: "'w os \<Rightarrow> 'c \<Rightarrow> ('c, 'w) rr \<Rightarrow> ('c, 'w) rr option" where
  "record_down os ctx s =
     do {
       s \<leftarrow> rr_signal_shutdown os ctx (rr_io_shutdown os s);
       rr_record_shutdown os s
     }"

definition modes_down :: "'w os \<Rightarrow> 'c \<Rightarrow> ('c, 'w) rr \<Rightarrow> ('c, 'w) rr option" where
  "modes_down os ctx s =
     do {
       s \<leftarrow> (if mode_record (cfg s) then record_down os ctx s else Some s);
       Some (if mode_replay (cfg s) then rr_replay_shutdown os s else s)
     }"

text \<open>Lines 35 to 57: recording is set up, or everything started so far is stopped. The Boolean tells
  whether the constructor goes on.\<close>

definition init_record :: "'w os \<Rightarrow> 'c \<Rightarrow> ('c, 'w) rr \<Rightarrow> (bool \<times> ('c, 'w) rr) option" where
  "init_record os ctx s =
     do {
       (rc, s) \<leftarrow> rr_record_init os (log_path (cfg s)) s;
       if rc \<noteq> 0 then Some (False, s)
       else (case rr_signal_init os s of (rc, s) \<Rightarrow>
         if rc \<noteq> 0 then do { s \<leftarrow> rr_record_shutdown os s; Some (False, s) }
         else (case rr_io_init os 256 s of (rc, s) \<Rightarrow>
           if rc \<noteq> 0 then do {
             s \<leftarrow> rr_signal_shutdown os ctx s;
             s \<leftarrow> rr_record_shutdown os s;
             Some (False, s)
           }
           else (case rr_io_submit_signal_read os (rr_signal_fd s) s of (rc, s) \<Rightarrow>
             if rc \<noteq> 0 then do { s \<leftarrow> record_down os ctx s; Some (False, s) }
             else Some (True, s))))
     }"

text \<open>The value of \<^verbatim>\<open>errno\<close> after \<^verbatim>\<open>rr_parse_env\<close>.\<close>

definition parse_errno :: "(string \<Rightarrow> string option) \<Rightarrow> i32 \<Rightarrow> i32" where
  "parse_errno env e = (case env ''RR_STACK_SIZE'' of None \<Rightarrow> e
     | Some st \<Rightarrow> if st = [] then e else (case strtoul st of (_, err, _) \<Rightarrow> err))"

definition msg_initialized :: "rr_config_t \<Rightarrow> string" where
  "msg_initialized c = ''[rr] initialized (record='' @ (if mode_record c then ''1'' else ''0'')
     @ '' replay='' @ (if mode_replay c then ''1'' else ''0'')
     @ '' replay_time='' @ (if replay_time_virtual c then ''virtual'' else ''real'') @ '')'' @ [CHR 0x0A]"

text \<open>Lines 65 to 107: the scheduler, the main thread and the first scheduling event.\<close>

definition init_runtime :: "'w os \<Rightarrow> 'c \<Rightarrow> ('c, 'w) rr \<Rightarrow> ('c, 'w) rr option" where
  "init_runtime os ctx s =
     (case rr_scheduler_init os s of (rc, s) \<Rightarrow>
      if rc \<noteq> 0 then modes_down os ctx s
      else do {
        (rc, s) \<leftarrow> rr_uthread_init_main os s;
        if rc \<noteq> 0 then modes_down os ctx (rr_scheduler_shutdown os s)
        else do {
          let s = s\<lparr>rcd := (rcd s)\<lparr>g_rr_seq := 0\<rparr>\<rparr>;
          s \<leftarrow> (if mode_record (cfg s) then rr_log_sched os 0 1 s else Some s);
          (rc, s) \<leftarrow> (if mode_replay (cfg s) then rr_replay_expect_sched os 0 1 s else Some (0, s));
          if rc \<noteq> 0 then do {
            s \<leftarrow> rr_uthread_shutdown os s;
            Some (rr_replay_shutdown os (rr_scheduler_shutdown os s))
          }
          else (let s = rr_mark_runtime_ready s in Some (rr_debugf os (msg_initialized (cfg s)) s))
        }
      })"

definition rr_init :: "'w os \<Rightarrow> (string \<Rightarrow> string option) \<Rightarrow> 'c \<Rightarrow> ('c, 'w) rr \<Rightarrow> ('c, 'w) rr option" where
  "rr_init os env ctx s =
     do {
       let s = s\<lparr>cfg := rr_parse_env env (cfg s), errno := parse_errno env (errno s)\<rparr>;
       (go, s) \<leftarrow> (if mode_record (cfg s) then init_record os ctx s else Some (True, s));
       if \<not> go then Some s
       else do {
         (rc, s) \<leftarrow> (if mode_replay (cfg s) then rr_replay_init os (log_path (cfg s)) s else Some (0, s));
         if rc \<noteq> 0 then Some s else init_runtime os ctx s
       }
     }"

definition rr_shutdown :: "'w os \<Rightarrow> 'c \<Rightarrow> ('c, 'w) rr \<Rightarrow> ('c, 'w) rr option" where
  "rr_shutdown os ctx s =
     (if \<not> runtime_ready (cfg s) then Some s
      else do {
        let s = s\<lparr>cfg := (cfg s)\<lparr>runtime_ready := False\<rparr>\<rparr>;
        s \<leftarrow> rr_uthread_shutdown os s;
        modes_down os ctx (rr_scheduler_shutdown os s)
      })"

section \<open>Shutting down makes the log durable\<close>

lemma rec_inv_cong: "rcd s' = rcd s \<Longrightarrow> rec_inv os fl \<mu> s' = rec_inv os fl \<mu> s"
  by (simp add: rec_inv_def)

lemma contents_cong: "rcd s' = rcd s \<Longrightarrow> fl (world s') = fl (world s) \<Longrightarrow> contents fl s' = contents fl s"
  by (simp add: contents_def)

lemma record_shutdown_durable:
  assumes inv: "rec_inv os fl \<mu> s" and lp: "log_private os fl"
  shows "\<exists>s'. rr_record_shutdown os s = Some s' \<and> fl (world s') = contents fl s \<and> g_ring (rcd s') = None \<and> cfg s' = cfg s"
proof -
  obtain s1 where s1: "rr_record_flush os s = Some s1" "rec_inv os fl \<mu> s1" "fl (world s1) = contents fl s"
    using flush_total [OF inv] by blast
  have "cfg s1 = cfg s" using flush_frame [OF s1(1)] by (rule log_frameD)
  then show ?thesis using s1 log_privateD(3,8) [OF lp]
    by (simp add: rr_record_shutdown_def kdo_def rec_inv_def Let_def split: option.split)
qed

lemma close_not_ready:
  assumes "\<not> runtime_ready (cfg s)"
  shows "\<exists>v e m w. close os ctx fd s = Some (Ret v, s\<lparr>errno := e, umem := m, world := w\<rparr>) \<and> quiet os (world s) w"
proof -
  obtain r m w where r: "os_real os (CClose fd) (umem s) (world s) = (r, m, w)" by (cases "os_real os (CClose fd) (umem s) (world s)")
  have q: "quiet os (world s) w" using r by (rule quiet_calls)
  have na: "\<not> rr_active s" "\<not> rr_replay_active s"
    using assms by (simp_all add: rr_active_def rr_replay_active_def cfg_active_def cfg_replay_active_def)
  show ?thesis
  proof (cases r)
    case (Inl e)
    then show ?thesis using r q na by (auto simp: close_def passthrough_def immediate_def real_call_def)
  next
    case (Inr v)
    then show ?thesis using r q na
      by (intro exI [of _ v] exI [of _ "errno s"] exI [of _ m] exI [of _ w]) (simp add: close_def passthrough_def immediate_def real_call_def)
  qed
qed

lemma signal_shutdown_frame:
  assumes "\<not> runtime_ready (cfg s)"
  shows "\<exists>s'. rr_signal_shutdown os ctx s = Some s' \<and> cfg s' = cfg s \<and> rcd s' = rcd s \<and> quiet os (world s) (world s')"
proof -
  obtain v e m w where c: "close os ctx (g_signalfd (sigs s)) s = Some (Ret v, s\<lparr>errno := e, umem := m, world := w\<rparr>)" "quiet os (world s) w"
    using close_not_ready [OF assms] by blast
  show ?thesis using c
    by (cases "0 \<le> g_signalfd (sigs s)") (auto simp: rr_signal_shutdown_def kdo_def Let_def)
qed

lemma modes_down_durable:
  assumes inv: "rec_inv os fl \<mu> s" and lp: "log_private os fl" and rd: "\<not> runtime_ready (cfg s)"
    and m: "mode_record (cfg s)" "\<not> mode_replay (cfg s)"
  shows "\<exists>s'. modes_down os ctx s = Some s' \<and> fl (world s') = contents fl s \<and> g_ring (rcd s') = None"
proof -
  let ?s1 = "rr_io_shutdown os s"
  have 1: "cfg ?s1 = cfg s" "rcd ?s1 = rcd s" "quiet os (world s) (world ?s1)" by (simp_all add: rr_io_shutdown_def kdo_def)
  obtain s2 where s2: "rr_signal_shutdown os ctx ?s1 = Some s2" "cfg s2 = cfg ?s1" "rcd s2 = rcd ?s1" "quiet os (world ?s1) (world s2)"
    using signal_shutdown_frame [of ?s1] rd 1 by auto
  have "fl (world s2) = fl (world s)" using quietD [OF quiet_trans [OF 1(3) s2(4)] lp] .
  then have c: "contents fl s2 = contents fl s" and i: "rec_inv os fl \<mu> s2"
    using contents_cong [of s2 s fl] rec_inv_cong [of s2 s os fl \<mu>] s2(3) 1(2) inv by simp_all
  obtain s3 where "rr_record_shutdown os s2 = Some s3" "fl (world s3) = contents fl s" "g_ring (rcd s3) = None" "cfg s3 = cfg s2"
    using record_shutdown_durable [OF i lp] c by auto
  then show ?thesis using s2(1,2) 1 m by (simp add: modes_down_def record_down_def)
qed

lemma free_all_defined:
  "distinct ps \<Longrightarrow> set ps \<subseteq> dom (ut_heap (sch s)) \<Longrightarrow>
   \<exists>s'. free_all os (map Some ps) s = Some s' \<and> cfg s' = cfg s \<and> rcd s' = rcd s \<and> quiet os (world s) (world s')
     \<and> dom (ut_heap (sch s')) = dom (ut_heap (sch s)) - set ps"
proof (induction ps arbitrary: s)
  case Nil
  then show ?case by simp
next
  case (Cons a ps)
  then obtain u where u: "ut_heap (sch s) a = Some u" by auto
  define s1 where "s1 = ut_free a (if ut_stack_map u \<noteq> 0 \<and> 0 < ut_stack_map_size u
      then kdo (os_munmap os (ut_stack_map u) (ut_stack_map_size u)) s else s)"
  have 1: "cfg s1 = cfg s" "rcd s1 = rcd s" "quiet os (world s) (world s1)" "dom (ut_heap (sch s1)) = dom (ut_heap (sch s)) - {a}"
    by (auto simp: s1_def ut_free_def kdo_def)
  have "set ps \<subseteq> dom (ut_heap (sch s1))" using Cons.prems unfolding 1(4) by auto
  from Cons.IH [OF _ this] Cons.prems obtain s2 where s2: "free_all os (map Some ps) s1 = Some s2" "cfg s2 = cfg s1" "rcd s2 = rcd s1"
    "quiet os (world s1) (world s2)" "dom (ut_heap (sch s2)) = dom (ut_heap (sch s1)) - set ps" by auto
  have "free_all os (map Some (a # ps)) s = free_all os (map Some ps) s1" using u by (simp add: s1_def Let_def)
  moreover have "dom (ut_heap (sch s2)) = dom (ut_heap (sch s)) - set (a # ps)" unfolding s2(5) 1(4) by auto
  moreover have "cfg s2 = cfg s" "rcd s2 = rcd s" "quiet os (world s) (world s2)"
    using s2(2-4) 1(1-3) quiet_trans [OF 1(3) s2(4)] by simp_all
  ultimately show ?case using s2(1) by metis
qed

text \<open>The destructor in record mode: all control blocks are freed once, and the whole log is in the file.\<close>

lemma shutdown_durable:
  assumes inv: "rec_inv os fl \<mu> s" and lp: "log_private os fl" and act: "rr_active s" "\<not> mode_replay (cfg s)"
    and al: "g_allocated (uth s) = map Some ps" "distinct ps" "set ps \<subseteq> dom (ut_heap (sch s))"
  shows "\<exists>s'. rr_shutdown os ctx s = Some s' \<and> fl (world s') = contents fl s \<and> g_ring (rcd s') = None"
proof -
  have m: "mode_record (cfg s)" "runtime_ready (cfg s)" using act(1) by (simp_all add: rr_active_def cfg_active_def)
  define s0 where "s0 = s\<lparr>cfg := (cfg s)\<lparr>runtime_ready := False\<rparr>\<rparr>"
  obtain s1 where s1: "free_all os (map Some ps) s0 = Some s1" "cfg s1 = cfg s0" "rcd s1 = rcd s0" "quiet os (world s0) (world s1)"
    using free_all_defined [OF al(2), of s0 os] al(3) by (auto simp: s0_def)
  define s2 where "s2 = rr_scheduler_shutdown os (s1\<lparr>uth := (uth s1)\<lparr>g_allocated := [], g_allocated_cap := 0\<rparr>\<rparr>)"
  have 2: "cfg s2 = cfg s0" "rcd s2 = rcd s0" "quiet os (world s0) (world s2)"
    using s1 by (simp_all add: s2_def rr_scheduler_shutdown_def kdo_def Let_def)
  have "fl (world s2) = fl (world s)" using quietD [OF 2(3) lp] by (simp add: s0_def)
  then have c: "contents fl s2 = contents fl s" and i: "rec_inv os fl \<mu> s2"
    using contents_cong [of s2 s fl] rec_inv_cong [of s2 s os fl \<mu>] 2(2) inv by (simp_all add: s0_def)
  obtain s3 where "modes_down os ctx s2 = Some s3" "fl (world s3) = contents fl s" "g_ring (rcd s3) = None"
    using modes_down_durable [OF i lp] 2(1) m act(2) c by (auto simp: s0_def)
  then show ?thesis using s1(1) m al(1) by (simp add: rr_shutdown_def rr_uthread_shutdown_def s0_def s2_def)
qed

end
