(* ===== verification/RR_Runtime.thy ===== *)
theory RR_Runtime
  imports RR_Init
begin

text \<open>
  The library together with a program that runs on it. The program is a deterministic machine:
  from its local state and the shared memory it computes, without calling the library, up to
  the next call of a library function; \<open>user\<close> gives the memory it leaves, the call, and how it
  goes on with the returned value and \<^verbatim>\<open>errno\<close>. A saved context says where in the library a
  thread was switched out and how the program goes on from there. A step of the whole system is
  one stretch of the running thread up to and including a library call, or one pass of the
  dispatcher loop.
\<close>

section \<open>Contexts\<close>

datatype ureq =
    RCall libc_call
  | RCreate u64 u64
  | RYield
  | RJoin u64 u64
  | RExit u64
  | RReturn
  | RProcExit int

text \<open>The place after the switch in each blocking wrapper, with the locals still needed there.\<close>

datatype io_point =
    PtRead int u64
  | PtWrite int
  | PtRecv int u64
  | PtSend int
  | PtAccept int
  | PtConnect int
  | PtOpenat int
  | PtClose int
  | PtNanosleep int u64

datatype 'u ctx =
    CEntry nat
  | CYield "int \<Rightarrow> i32 \<Rightarrow> 'u"
  | CJoin utp u64 "int \<Rightarrow> i32 \<Rightarrow> 'u"
  | CIo io_point utp "int \<Rightarrow> i32 \<Rightarrow> 'u"
  | CDone

type_synonym 'u cont = "int \<Rightarrow> i32 \<Rightarrow> 'u"
type_synonym 'u user = "'u \<Rightarrow> mem \<Rightarrow> mem \<times> ureq \<times> 'u cont"

text \<open>The rest of a blocking wrapper once its thread is resumed with the raw result.\<close>

definition finish :: "'w os \<Rightarrow> io_point \<Rightarrow> i32 \<Rightarrow> ('c, 'w) rr \<Rightarrow> (int \<times> ('c, 'w) rr) option" where
  "finish os pt raw s = (case pt of
       PtRead fd buf \<Rightarrow> read_finish os fd buf raw s
     | PtWrite fd \<Rightarrow> write_finish os fd raw s
     | PtRecv fd buf \<Rightarrow> recv_finish os fd buf raw s
     | PtSend fd \<Rightarrow> send_finish os fd raw s
     | PtAccept fd \<Rightarrow> accept_finish os fd raw s
     | PtConnect fd \<Rightarrow> connect_finish os fd raw s
     | PtOpenat fd \<Rightarrow> openat_finish os fd raw s
     | PtClose fd \<Rightarrow> close_finish os fd raw s
     | PtNanosleep tfd rem \<Rightarrow> nanosleep_finish os tfd rem raw s)"

section \<open>A library call of the running thread\<close>

definition do_call :: "'w os \<Rightarrow> 'u cont \<Rightarrow> libc_call \<Rightarrow> ('u ctx, 'w) rr \<Rightarrow> (int outc \<times> ('u ctx, 'w) rr) option" where
  "do_call os k call s =
     (let io = (\<lambda>pt. CIo pt (rr_scheduler_current (sch s)) k) in
      case call of
        CRead fd buf n \<Rightarrow> read os (io (PtRead fd buf)) fd buf n s
      | CWrite fd buf n \<Rightarrow> write_fn os (io (PtWrite fd)) fd buf n s
      | CRecv fd buf n fl \<Rightarrow> recv os (io (PtRecv fd buf)) fd buf n fl s
      | CSend fd buf n fl \<Rightarrow> send os (io (PtSend fd)) fd buf n fl s
      | CAccept fd a l \<Rightarrow> accept os (io (PtAccept fd)) fd a l s
      | CConnect fd a l \<Rightarrow> connect os (io (PtConnect fd)) fd a l s
      | COpenat d p fl m \<Rightarrow> openat os (io (PtOpenat d)) d p fl (case m of None \<Rightarrow> 0 | Some m \<Rightarrow> m) s
      | CClose fd \<Rightarrow> close os (io (PtClose fd)) fd s
      | CNanosleep req rem \<Rightarrow> nanosleep os (\<lambda>tfd. io (PtNanosleep tfd rem)) req rem s
      | CClockGettime c p \<Rightarrow> immediate (clock_gettime os c p s)
      | CGettimeofday tv tz \<Rightarrow> immediate (gettimeofday os tv tz s)
      | CGetpid \<Rightarrow> immediate (getpid os s)
      | CGetuid \<Rightarrow> immediate (getuid os s)
      | CUname p \<Rightarrow> immediate (uname os p s)
      | CStat p st \<Rightarrow> immediate (stat os p st s)
      | CFstat fd st \<Rightarrow> immediate (fstat os fd st s)
      | CLstat p st \<Rightarrow> immediate (lstat os p st s)
      | CGetcwd buf n \<Rightarrow> immediate (getcwd os buf n s))"

section \<open>Steps of the system\<close>

datatype ('u, 'w) sys =
    User 'u "('u ctx, 'w) rr"
  | InSched "('u ctx, 'w) rr"
  | Ended proc_end "('u ctx, 'w) rr"

text \<open>The switch to the dispatcher, which first restores its FS base.\<close>

definition enter_sched :: "'w os \<Rightarrow> ('u ctx, 'w) rr \<Rightarrow> ('u, 'w) sys" where
  "enter_sched os s = InSched (snd (rr_set_fs_base os (rr_scheduler_tls_base s) s))"

definition reply :: "'w os \<Rightarrow> 'u cont \<Rightarrow> int outc \<times> ('u ctx, 'w) rr \<Rightarrow> ('u, 'w) sys" where
  "reply os k r = (case r of (Ret v, s) \<Rightarrow> User (k v (errno s)) s | (Suspended, s) \<Rightarrow> enter_sched os s)"

definition do_exit :: "'w os \<Rightarrow> u64 \<Rightarrow> ('u ctx, 'w) rr \<Rightarrow> ('u, 'w) sys option" where
  "do_exit os v s =
     do {
       (e, s) \<leftarrow> uthread_exit CDone v s;
       Some (case e of None \<Rightarrow> enter_sched os s | Some e \<Rightarrow> Ended e s)
     }"

definition request :: "'w os \<Rightarrow> 'u cont \<Rightarrow> ureq \<Rightarrow> ('u ctx, 'w) rr \<Rightarrow> ('u, 'w) sys option" where
  "request os k req s = (case req of
       RCall call \<Rightarrow> map_option (reply os k) (do_call os k call s)
     | RCreate fn arg \<Rightarrow> do { (i, s) \<leftarrow> uthread_create os CEntry fn arg s; Some (User (k (uint i) (errno s)) s) }
     | RYield \<Rightarrow> do {
         (switched, s) \<leftarrow> uthread_yield (CYield k) s;
         Some (if switched then enter_sched os s else User (k 0 (errno s)) s)
       }
     | RJoin i out \<Rightarrow> map_option (reply os k) (uthread_join (\<lambda>target. CJoin target out k) i out s)
     | RExit v \<Rightarrow> do_exit os v s
     | RReturn \<Rightarrow> do_exit os 0 s
     | RProcExit code \<Rightarrow> do { s \<leftarrow> rr_shutdown os CDone s; Some (Ended (Exited code) s) })"

text \<open>What the dispatched thread does first: finish the library function it was switched out in, or
  start. A context that \<^verbatim>\<open>uthread_exit\<close> left must not be resumed.\<close>

definition resume :: "'w os \<Rightarrow> (u64 \<Rightarrow> u64 \<Rightarrow> 'u) \<Rightarrow> utp \<Rightarrow> ('u ctx, 'w) rr \<Rightarrow> ('u, 'w) sys option" where
  "resume os start p s =
     do {
       u \<leftarrow> deref (sch s) p;
       c \<leftarrow> ut_ctx u;
       (case c of
          CEntry a \<Rightarrow> do {
            r \<leftarrow> uthread_entry (Some a) s;
            (case r of Some (fn, arg) \<Rightarrow> Some (User (start fn arg) s) | None \<Rightarrow> do_exit os 0 s)
          }
        | CYield k \<Rightarrow> Some (User (k 0 (errno s)) s)
        | CJoin target out k \<Rightarrow> do { (v, s) \<leftarrow> join_finish target out s; Some (User (k v (errno s)) s) }
        | CIo pt self k \<Rightarrow> do {
            raw \<leftarrow> io_resume self s;
            (v, s) \<leftarrow> finish os pt raw s;
            Some (User (k v (errno s)) s)
          }
        | CDone \<Rightarrow> None)
     }"

text \<open>When the loop function returns, \<^verbatim>\<open>uc_link\<close> is NULL and the process exits.\<close>

definition sys_step :: "'w os \<Rightarrow> 'u user \<Rightarrow> (u64 \<Rightarrow> u64 \<Rightarrow> 'u) \<Rightarrow> ('u, 'w) sys \<Rightarrow> ('u, 'w) sys option" where
  "sys_step os user start S = (case S of
       User x s \<Rightarrow> (case user x (umem s) of (m, req, k) \<Rightarrow> request os k req (s\<lparr>umem := m\<rparr>))
     | InSched s \<Rightarrow> do {
         (it, s) \<leftarrow> scheduler_iter os s;
         (case it of
            Continue \<Rightarrow> Some (InSched s)
          | Dispatch p \<Rightarrow> resume os start p s
          | End e \<Rightarrow> Some (Ended e s)
          | LoopExit \<Rightarrow> Some (Ended (Exited 0) s))
       }
     | Ended e s \<Rightarrow> Some (Ended e s))"

primrec sys_run :: "'w os \<Rightarrow> 'u user \<Rightarrow> (u64 \<Rightarrow> u64 \<Rightarrow> 'u) \<Rightarrow> nat \<Rightarrow> ('u, 'w) sys \<Rightarrow> ('u, 'w) sys option" where
  "sys_run os user start 0 S = Some S"
| "sys_run os user start (Suc n) S = do { S \<leftarrow> sys_step os user start S; sys_run os user start n S }"

end
