(* ===== verification/RR_Mode.thy ===== *)
theory RR_Mode
  imports RR_Runtime
begin

text \<open>
  The thread system under an arbitrary program, independent of the mode. The invariant of the threads: the scheduler
  state refines an abstract scheduler that satisfies its invariant, the registry lists exactly the live control
  blocks under distinct ids, and every thread that is not running and not done has a context that can be resumed. The
  locale \<open>run_mode\<close> lists what the thread system needs from the mode the process runs in (recording or
  replaying): that the intercepted functions, the wait for I/O, the note of a thread switch and the destructor are defined and
  keep the threads as they are. From these, every step of the process is defined, keeps the
  invariant, and is a run of the abstract scheduler with the same dispatches.
\<close>

section \<open>The invariant of the threads\<close>

definition live :: "'c sched \<Rightarrow> utp \<Rightarrow> bool" where
  "live x p \<longleftrightarrow> (\<exists>a. p = Some a \<and> a \<in> dom (ut_heap x))"

fun ctx_ok :: "'c sched \<Rightarrow> 'u ctx \<Rightarrow> bool" where
  "ctx_ok x (CEntry a) = live x (Some a)"
| "ctx_ok x (CYield k) = True"
| "ctx_ok x (CJoin target out k) = live x target"
| "ctx_ok x (CIo pt self k) = live x self"
| "ctx_ok x CDone = False"

definition waits :: "aspec \<Rightarrow> nat \<Rightarrow> bool" where
  "waits A a \<longleftrightarrow> ast A a = Some UT_RUNNABLE \<or> ast A a = Some UT_BLOCKED"

text \<open>\<open>N\<close> bounds how many more threads can be created before the 64-bit ids run out.\<close>

definition thread_inv :: "nat \<Rightarrow> ('u ctx, 'w) rr \<Rightarrow> aspec \<Rightarrow> bool" where
  "thread_inv N s A \<longleftrightarrow> refines (sch s) A \<and> ainv A \<and> reg_ok (sch s) \<and> g_sched_running (sch s)
     \<and> g_allocated (uth s) = g_threads (sch s)
     \<and> (\<forall>a \<in> dom (ut_heap (sch s)). a < ut_brk (sch s))
     \<and> (\<forall>a i. ids (sch s) a = Some i \<longrightarrow> unat i < unat (g_next_id (uth s))) \<and> unat (g_next_id (uth s)) + N < 2 ^ 64
     \<and> (\<forall>a. waits A a \<longrightarrow> (\<exists>c. ctxof (sch s) a = Some c \<and> ctx_ok (sch s) c))"

lemma thread_invD:
  assumes "thread_inv N s A"
  shows "refines (sch s) A" "ainv A" "reg_ok (sch s)" "g_sched_running (sch s)" "g_allocated (uth s) = g_threads (sch s)"
    "a \<in> dom (ut_heap (sch s)) \<Longrightarrow> a < ut_brk (sch s)" "ids (sch s) a = Some i \<Longrightarrow> unat i < unat (g_next_id (uth s))"
    "waits A a \<Longrightarrow> \<exists>c. ctxof (sch s) a = Some c \<and> ctx_ok (sch s) c" "unat (g_next_id (uth s)) + N < 2 ^ 64"
  using assms unfolding thread_inv_def by blast+

lemma thread_inv_cong: "sch s' = sch s \<Longrightarrow> uth s' = uth s \<Longrightarrow> thread_inv N s' A = thread_inv N s A"
  by (simp add: thread_inv_def)

lemma live_cong: "dom (ut_heap x') = dom (ut_heap x) \<Longrightarrow> live x' p = live x p"
  unfolding live_def by metis

lemma ctx_ok_cong:
  assumes "dom (ut_heap x') = dom (ut_heap x)"
  shows "ctx_ok x' c = ctx_ok x c"
  by (cases c) (simp_all add: live_cong [OF assms])

text \<open>A scheduler operation that keeps the registry; \<open>c\<close> is the thread whose context it may have saved.\<close>

lemma thread_inv_step:
  assumes ti: "thread_inv N s A" and r: "refines (sch s') A'" and inv: "ainv A'" and reg: "reg (sch s') = reg (sch s)"
    and u: "uth s' = uth s"
    and w: "\<And>a. waits A' a \<Longrightarrow> ctxof (sch s') a = ctxof (sch s) a \<and> waits A a
        \<or> (\<exists>c. ctxof (sch s') a = Some c \<and> ctx_ok (sch s) c)"
  shows "thread_inv N s' A'"
proof -
  have d: "dom (ut_heap (sch s')) = dom (ut_heap (sch s))" using reg_ids [OF reg] by (rule ids_dom_eq)
  have "\<exists>c. ctxof (sch s') a = Some c \<and> ctx_ok (sch s') c" if "waits A' a" for a
    using w [OF that] thread_invD(8) [OF ti, of a] by (auto simp: ctx_ok_cong [OF d])
  moreover have "reg_ok (sch s')" using reg_ok_frame [OF reg] thread_invD(3) [OF ti] by simp
  moreover have "g_threads (sch s') = g_threads (sch s)" "ids (sch s') = ids (sch s)" "ut_brk (sch s') = ut_brk (sch s)"
    "g_sched_running (sch s') = g_sched_running (sch s)" using reg by (simp_all add: reg_def)
  ultimately show ?thesis using ti r inv u d by (auto simp: thread_inv_def)
qed

lemma current_of_running:
  assumes "thread_inv N s A" and "arunning A c"
  shows "g_current (sch s) = Some c" "c \<in> dom (ut_heap (sch s))" "\<exists>i. current_id s = Some i"
  using refines_running [OF thread_invD(1) [OF assms(1)] assms(2)] current_id_defined [OF thread_invD(1,2) [OF assms(1)]]
  by auto

lemma thread_inv_less: "thread_inv (Suc N) s A \<Longrightarrow> thread_inv N s A"
  by (simp add: thread_inv_def)

section \<open>Outcomes\<close>

text \<open>The outcome of a function that returns, and of one that may switch threads; \<open>P\<close> is what the mode guarantees.\<close>

definition ok_ret :: "(('u ctx, 'w) rr \<Rightarrow> bool) \<Rightarrow> nat \<Rightarrow> aspec \<Rightarrow> ('v \<times> ('u ctx, 'w) rr) option \<Rightarrow> bool" where
  "ok_ret P N A r \<longleftrightarrow> (\<exists>v s'. r = Some (v, s') \<and> P s' \<and> thread_inv N s' A)"

definition ok_out :: "(('u ctx, 'w) rr \<Rightarrow> bool) \<Rightarrow> nat \<Rightarrow> aspec \<Rightarrow> nat \<Rightarrow> ('v outc \<times> ('u ctx, 'w) rr) option \<Rightarrow> bool" where
  "ok_out P N A c r \<longleftrightarrow> (\<exists>x s'. r = Some (x, s') \<and> P s'
     \<and> (case x of Ret v \<Rightarrow> thread_inv N s' A | Suspended \<Rightarrow> thread_inv N s' (spec_block c A)))"

lemma ok_immediate: "ok_ret P N A r \<Longrightarrow> ok_out P N A c (immediate r)"
  by (auto simp: ok_ret_def ok_out_def immediate_def)

lemma ok_then_finish:
  assumes "ok_out P N A c r"
    and "\<And>raw s. P s \<Longrightarrow> thread_inv N s A \<Longrightarrow> ok_ret P N A (fin raw s)"
  shows "ok_out P N A c (then_finish fin r)"
proof -
  obtain x s' where x: "r = Some (x, s')" "P s'"
    "case x of Ret v \<Rightarrow> thread_inv N s' A | Suspended \<Rightarrow> thread_inv N s' (spec_block c A)"
    using assms(1) by (auto simp: ok_out_def)
  show ?thesis
  proof (cases x)
    case (Ret raw)
    then have "ok_out P N A c (immediate (fin raw s'))" using assms(2) x by (intro ok_immediate) auto
    then show ?thesis using x(1) Ret by (simp add: then_finish_def)
  next
    case Suspended
    then show ?thesis using x by (auto simp: then_finish_def ok_out_def)
  qed
qed

text \<open>The state of the system with the abstract scheduler state at hand, \<open>Q\<close> for a process that has ended; and that a
  state is reached from the abstract state \<open>A\<close> by a run of the abstract scheduler that dispatches exactly the
  threads \<open>ds\<close>.\<close>

definition sys_at ::
  "(('u ctx, 'w) rr \<Rightarrow> bool) \<Rightarrow> (proc_end \<Rightarrow> ('u ctx, 'w) rr \<Rightarrow> bool) \<Rightarrow> nat \<Rightarrow> aspec \<Rightarrow> ('u, 'w) sys \<Rightarrow> bool" where
  "sys_at P Q N A S \<longleftrightarrow> (case S of
       User x s \<Rightarrow> P s \<and> thread_inv N s A \<and> (\<exists>c. arunning A c)
     | InSched s \<Rightarrow> P s \<and> thread_inv N s A \<and> aidle A
     | Ended e s \<Rightarrow> Q e s)"

definition sys_from ::
  "(('u ctx, 'w) rr \<Rightarrow> bool) \<Rightarrow> (proc_end \<Rightarrow> ('u ctx, 'w) rr \<Rightarrow> bool) \<Rightarrow> nat \<Rightarrow> aspec \<Rightarrow> nat list \<Rightarrow> ('u, 'w) sys \<Rightarrow> bool" where
  "sys_from P Q N A ds S \<longleftrightarrow> (\<exists>ls A'. arun A ls A' \<and> dispatch_order ls = ds \<and> sys_at P Q N A' S)"

lemma sys_from_here: "sys_at P Q N A S \<Longrightarrow> sys_from P Q N A [] S"
  unfolding sys_from_def by (blast intro: arun.nil dispatch_order.simps(1))

lemma sys_from_run:
  assumes "arun A ls B" and "sys_from P Q N B ds S"
  shows "sys_from P Q N A (dispatch_order ls @ ds) S"
  using assms arun_append [OF assms(1)] unfolding sys_from_def by (metis dispatch_order_append)

lemma arun_one: "astep A l A' \<Longrightarrow> arun A [l] A'"
  by (blast intro: arun.intros)

text \<open>A run without a dispatch.\<close>

definition undispatched :: "aspec \<Rightarrow> aspec \<Rightarrow> bool" where
  "undispatched A B \<longleftrightarrow> (\<exists>ls. arun A ls B \<and> dispatch_order ls = [])"

lemma undispatched_refl: "undispatched A A"
  unfolding undispatched_def by (blast intro: arun.nil dispatch_order.simps(1))

lemma undispatched_step: "astep A l B \<Longrightarrow> dispatch_order [l] = [] \<Longrightarrow> undispatched A B"
  unfolding undispatched_def by (blast intro: arun_one)

lemma sys_from_undispatched:
  assumes "undispatched A B" and "sys_at P Q N B S"
  shows "sys_from P Q N A [] S"
  using assms unfolding undispatched_def sys_from_def by blast

lemmas sys_from_step = sys_from_undispatched [OF undispatched_step]

text \<open>The threads dispatched by one step of the system and by \<open>n\<close> steps.\<close>

definition dispatched :: "'w os \<Rightarrow> ('u, 'w) sys \<Rightarrow> nat list" where
  "dispatched os S = (case S of InSched s \<Rightarrow> (case scheduler_iter os s of Some (Dispatch (Some c), s') \<Rightarrow> [c] | _ \<Rightarrow> []) | _ \<Rightarrow> [])"

primrec dispatch_trace :: "'w os \<Rightarrow> 'u user \<Rightarrow> (u64 \<Rightarrow> u64 \<Rightarrow> 'u) \<Rightarrow> nat \<Rightarrow> ('u, 'w) sys \<Rightarrow> nat list" where
  "dispatch_trace os user start 0 S = []"
| "dispatch_trace os user start (Suc n) S =
     dispatched os S @ (case sys_step os user start S of None \<Rightarrow> [] | Some S' \<Rightarrow> dispatch_trace os user start n S')"

section \<open>Creating a thread\<close>

lemma aidle_after:
  assumes "ainv A" and "arunning A c"
  shows "aidle (spec_yield c A)" "aidle (spec_block c A)" "aidle (spec_exit c v A)"
proof -
  have only: "ast A a = Some UT_RUNNING \<Longrightarrow> a = c" for a using assms by (auto simp: ainv_def arunning_def)
  then show "aidle (spec_yield c A)" "aidle (spec_block c A)" by (auto simp: aidle_def spec_yield_def spec_block_def)
  have wake: "aidle B \<Longrightarrow> aidle (spec_wake w B)" for w B by (simp add: aidle_def spec_wake_def)
  have "aidle (A\<lparr>ast := (ast A)(c \<mapsto> UT_DONE), aret := r\<rparr>)" for r using only by (auto simp: aidle_def)
  then show "aidle (spec_exit c v A)" using wake by (simp add: spec_exit_def Let_def split: option.split)
qed

lemma waits_exit: "waits (spec_exit c v A) a \<Longrightarrow> a \<noteq> c \<and> waits A a"
  by (auto simp: waits_def spec_exit_def spec_wake_def Let_def split: option.splits if_splits)

lemma refines_brk: "refines x A \<Longrightarrow> refines (x\<lparr>ut_brk := n\<rparr>) A"
proof -
  have "next_of (x\<lparr>ut_brk := n\<rparr>) = next_of x" by (rule next_of_cong) simp
  then show "refines x A \<Longrightarrow> refines (x\<lparr>ut_brk := n\<rparr>) A" by (simp add: refines_def runq_def)
qed

lemma brk_fresh:
  assumes "thread_inv N s A"
  shows "ut_heap (sch s) (ut_brk (sch s)) = None"
  using thread_invD(6) [OF assms, of "ut_brk (sch s)"] by (cases "ut_heap (sch s) (ut_brk (sch s))") auto

lemma ok_create_none:
  assumes ti: "thread_inv N s A" and s: "sch s' = (sch s)\<lparr>ut_brk := n\<rparr>" "ut_brk (sch s) \<le> n"
    and u: "uth s' = (uth s)\<lparr>g_next_id := j\<rparr>" "unat (g_next_id (uth s)) \<le> unat j" "unat j + M < 2 ^ 64"
  shows "thread_inv M s' A"
proof -
  have e: "ids (sch s') = ids (sch s)" "ctxof (sch s') = ctxof (sch s)" "ut_heap (sch s') = ut_heap (sch s)"
    by (simp_all add: s(1) ids_def ctxof_def fun_eq_iff)
  have "reg_ok (sch s')" using thread_invD(3) [OF ti] e(1,3) by (simp add: reg_ok_def s(1))
  moreover have "refines (sch s') A" using refines_brk [OF thread_invD(1) [OF ti]] by (simp add: s(1))
  moreover have "a < ut_brk (sch s')" if "a \<in> dom (ut_heap (sch s'))" for a
    using thread_invD(6) [OF ti, of a] that s by simp
  moreover have "unat i < unat (g_next_id (uth s'))" if "ids (sch s') a = Some i" for a i
    using thread_invD(7) [OF ti, of a i] that u by (simp add: e(1))
  moreover have "\<exists>c. ctxof (sch s') a = Some c \<and> ctx_ok (sch s') c" if "waits A a" for a
    using thread_invD(8) [OF ti that] by (auto simp: e(2) ctx_ok_cong [OF arg_cong [OF e(3), of dom]])
  ultimately show ?thesis
    using thread_invD(2,4,5) [OF ti] u(3) unfolding thread_inv_def by (simp add: u(1) s(1))
qed

lemma live_mono: "dom (ut_heap x) \<subseteq> dom (ut_heap x') \<Longrightarrow> live x p \<Longrightarrow> live x' p"
  unfolding live_def by blast

lemma ctx_ok_mono: "dom (ut_heap x) \<subseteq> dom (ut_heap x') \<Longrightarrow> ctx_ok x c \<Longrightarrow> ctx_ok x' c"
  by (cases c) (simp_all add: live_mono [of x x'])

lemma ok_create_some:
  assumes ti: "thread_inv (Suc N) s A" and a: "a = ut_brk (sch s)" and i: "i = g_next_id (uth s)"
    and r: "refines (sch s') (spec_spawn a A)" and ids: "ids (sch s') = (ids (sch s))(a \<mapsto> i)"
    and cx: "ctxof (sch s') = (ctxof (sch s))(a \<mapsto> CEntry a)" and th: "g_threads (sch s') = g_threads (sch s) @ [Some a]"
    and brk: "ut_brk (sch s') = Suc a" and run: "g_sched_running (sch s') = g_sched_running (sch s)"
    and d: "dom (ut_heap (sch s')) = insert a (dom (ut_heap (sch s)))"
    and u: "g_allocated (uth s') = g_allocated (uth s) @ [Some a]" "g_next_id (uth s') = i + 1"
  shows "thread_inv N s' (spec_spawn a A)"
proof -
  have new: "ut_heap (sch s) a = None" using brk_fresh [OF ti] a by simp
  have next_id: "unat (i + 1) = Suc (unat i)" using thread_invD(9) [OF ti] i by (simp add: unat_word_ariths)
  have "a \<notin> dom (ast A)" using new refinesD(6) [OF thread_invD(1) [OF ti]] by auto
  then have "ainv (spec_spawn a A)" using thread_invD(2) [OF ti] by (intro ainv_spawn)
  moreover have "reg_ok (sch s')"
  proof -
    obtain ps where ps: "g_threads (sch s) = map Some ps" "distinct ps" "set ps = dom (ut_heap (sch s))"
      and inj: "\<And>a b j. ids (sch s) a = Some j \<Longrightarrow> ids (sch s) b = Some j \<Longrightarrow> a = b"
      using thread_invD(3) [OF ti] unfolding reg_ok_def by blast
    have "g_threads (sch s') = map Some (ps @ [a])" "distinct (ps @ [a])" "set (ps @ [a]) = dom (ut_heap (sch s'))"
      using ps new unfolding th d by auto
    moreover have "b = b'" if "ids (sch s') b = Some j" "ids (sch s') b' = Some j" for b b' j
    proof -
      have old: "ids (sch s) x \<noteq> Some i" for x using thread_invD(7) [OF ti, of x i] i by auto
      show ?thesis using that inj [of b j b'] old [of b] old [of b'] unfolding ids by (auto split: if_splits)
    qed
    ultimately show ?thesis unfolding reg_ok_def by blast
  qed
  moreover have "b < ut_brk (sch s')" if "b \<in> dom (ut_heap (sch s'))" for b
    using thread_invD(6) [OF ti, of b] that a unfolding d brk by fastforce
  moreover have "unat j < unat (g_next_id (uth s'))" if "ids (sch s') b = Some j" for b j
    using thread_invD(7) [OF ti, of b j] that i next_id by (auto simp: u(2) ids split: if_splits)
  moreover have "\<exists>c. ctxof (sch s') b = Some c \<and> ctx_ok (sch s') c" if "waits (spec_spawn a A) b" for b
  proof (cases "b = a")
    case True
    then show ?thesis by (simp add: cx live_def d)
  next
    case False
    then have "waits A b" using that by (simp add: waits_def spec_spawn_def)
    then obtain c where "ctxof (sch s) b = Some c" "ctx_ok (sch s) c" using thread_invD(8) [OF ti] by blast
    then show ?thesis using False ctx_ok_mono [of "sch s" "sch s'" c] d by (auto simp: cx)
  qed
  moreover have "unat (g_next_id (uth s')) + N < 2 ^ 64" using thread_invD(9) [OF ti] i next_id by (simp add: u(2))
  ultimately show ?thesis using r run thread_invD(4,5) [OF ti] unfolding thread_inv_def by (simp add: th u(1))
qed

lemma enq_new:
  "thread_inv N s A \<Longrightarrow> \<exists>y. rr_scheduler_enqueue (Some (ut_brk (sch s))) (with_ut (ut_brk (sch s)) u tc (sch s)) = Some y"
  using enq_fresh [OF thread_invD(1) brk_fresh] by blast

section \<open>What the threads need from the mode\<close>

text \<open>All intercepted functions that the program calls are of the kind \<open>P\<close>.\<close>

definition only_calls :: "(libc_call \<Rightarrow> bool) \<Rightarrow> 'u user \<Rightarrow> bool" where
  "only_calls P user \<longleftrightarrow> (\<forall>x m m' call k. user x m = (m', RCall call, k) \<longrightarrow> P call)"

lemma only_calls_True [simp]: "only_calls (\<lambda>call. True) user"
  by (simp add: only_calls_def)

text \<open>\<open>mode\<close> is the invariant of the mode, \<open>over\<close> what holds when the process has ended, and \<open>allowed\<close>
  the calls that the program may make.\<close>

locale run_mode =
  fixes os :: "'w os" and mode :: "('u ctx, 'w) rr \<Rightarrow> bool" and over :: "proc_end \<Rightarrow> ('u ctx, 'w) rr \<Rightarrow> bool"
    and allowed :: "libc_call \<Rightarrow> bool"
  assumes ready: "mode s \<Longrightarrow> runtime_ready (cfg s)"
    and alloc: "mode s \<Longrightarrow> alloc_ok os"
    and env: "mode s \<Longrightarrow> cfg s' = cfg s \<Longrightarrow> rcd s' = rcd s \<Longrightarrow> rpl s' = rpl s \<Longrightarrow> iou s' = iou s
      \<Longrightarrow> quiet os (world s) (world s') \<Longrightarrow> mode s'"
    and calls: "mode s \<Longrightarrow> thread_inv N s A \<Longrightarrow> arunning A c \<Longrightarrow> allowed call \<Longrightarrow> ok_out mode N A c (do_call os k call s)"
    and finishes: "mode s \<Longrightarrow> thread_inv N s A \<Longrightarrow> ok_ret mode N A (finish os pt raw s)"
    and exits: "mode s \<Longrightarrow> thread_inv N s A \<Longrightarrow> \<exists>s'. rr_shutdown os CDone s = Some s' \<and> over (Exited code) s'"
    and io_waits: "mode s \<Longrightarrow> thread_inv N s A \<Longrightarrow> aidle A \<Longrightarrow> \<exists>rc e s'. rr_io_wait os s = Some ((rc, e), s')
      \<and> (case e of None \<Rightarrow> mode s' \<and> (\<exists>B. undispatched A B \<and> thread_inv N s' B \<and> aidle B) | Some e \<Rightarrow> over e s')"
    and switches: "mode s \<Longrightarrow> \<exists>ok s'. note_switch os i j s = Some (ok, s')
      \<and> (if ok then mode s' \<and> sch s' = sch s \<and> uth s' = uth s else over Aborted s')"
begin

lemma mode_sch: "mode s \<Longrightarrow> mode (s\<lparr>sch := x\<rparr>)"
  by (erule env) simp_all

lemma mode_errno: "mode s \<Longrightarrow> thread_inv N s A \<Longrightarrow> mode (s\<lparr>errno := e\<rparr>) \<and> thread_inv N (s\<lparr>errno := e\<rparr>) A"
  using env [of s "s\<lparr>errno := e\<rparr>"] thread_inv_cong [of "s\<lparr>errno := e\<rparr>" s] by simp

lemma mode_umem: "mode s \<Longrightarrow> thread_inv N s A \<Longrightarrow> mode (s\<lparr>umem := m\<rparr>) \<and> thread_inv N (s\<lparr>umem := m\<rparr>) A"
  using env [of s "s\<lparr>umem := m\<rparr>"] thread_inv_cong [of "s\<lparr>umem := m\<rparr>" s] by simp

lemma mode_fs:
  assumes "mode s" and "thread_inv N s A"
  shows "mode (snd (rr_set_fs_base os b s))" "thread_inv N (snd (rr_set_fs_base os b s)) A"
proof -
  let ?s = "snd (rr_set_fs_base os b s)"
  have "quiet os (world s) (world ?s) \<and> cfg ?s = cfg s \<and> rcd ?s = rcd s \<and> rpl ?s = rpl s \<and> iou ?s = iou s \<and> sch ?s = sch s \<and> uth ?s = uth s"
    by (cases rule: kres_cases [of "os_set_fs os b" s]) (auto simp: rr_set_fs_base_def dest: quiet_calls)
  then show "mode ?s" "thread_inv N ?s A" using env [OF assms(1)] thread_inv_cong [of ?s s] assms(2) by auto
qed

lemma enter:
  assumes "mode s" and "thread_inv N s A" and "aidle A"
  shows "sys_at mode over N A (enter_sched os s)"
  using mode_fs [OF assms(1,2)] assms(3) by (simp add: sys_at_def enter_sched_def)

lemma replies:
  assumes "ok_out mode N A c r" and "ainv A" and "arunning A c"
  shows "\<exists>S. map_option (reply os k) r = Some S \<and> sys_from mode over N A [] S"
proof -
  obtain x s' where x: "r = Some (x, s')" "mode s'"
    "case x of Ret v \<Rightarrow> thread_inv N s' A | Suspended \<Rightarrow> thread_inv N s' (spec_block c A)"
    using assms(1) by (auto simp: ok_out_def)
  show ?thesis
  proof (cases x)
    case (Ret v)
    then show ?thesis using x assms(3) by (auto simp: reply_def sys_at_def intro!: sys_from_here)
  next
    case Suspended
    then show ?thesis using x sys_from_step [OF astep.block [OF assms(3)] _ enter [OF x(2) _ aidle_after(2) [OF assms(2,3)]]]
      by (simp add: reply_def)
  qed
qed

lemma yield_ok:
  assumes rs: "mode s" and ti: "thread_inv N s A" and run: "arunning A c"
  shows "\<exists>s'. uthread_yield (CYield k) s = Some (True, s') \<and> mode s' \<and> thread_inv N s' (spec_yield c A)"
proof -
  obtain x where x: "rr_scheduler_yield_current (CYield k) (sch s) = Some (True, x)" "refines x (spec_yield c A)"
    using yield_refines [OF thread_invD(1,2) [OF ti] run thread_invD(4) [OF ti]] by blast
  have cx: "ctxof x = (ctxof (sch s))(c \<mapsto> CYield k)" using ctxof_yield [OF x(1)] current_of_running(1) [OF ti run] .
  have "thread_inv N (s\<lparr>sch := x\<rparr>) (spec_yield c A)"
  proof (rule thread_inv_step [OF ti])
    show "ainv (spec_yield c A)" using ainv_yield [OF thread_invD(2) [OF ti] run] .
    show "reg (sch (s\<lparr>sch := x\<rparr>)) = reg (sch s)" using reg_yield [OF x(1)] by simp
  qed (use x(2) cx in \<open>auto simp: waits_def spec_yield_def split: if_splits\<close>)
  moreover have "mode (s\<lparr>sch := x\<rparr>)" using rs by (rule mode_sch)
  moreover have "runtime_ready (cfg s)" using ready [OF rs] .
  ultimately show ?thesis using x(1) by (simp add: uthread_yield_def on_sched_ret_def)
qed

lemma exit_ok:
  assumes rs: "mode s" and ti: "thread_inv N s A" and run: "arunning A c"
  shows "\<exists>S. do_exit os v s = Some S \<and> sys_from mode over N A [] S"
proof -
  obtain x where x: "rr_scheduler_exit_current CDone v (sch s) = Some (True, x)" "refines x (spec_exit c v A)"
    using exit_refines [OF thread_invD(1,2) [OF ti] run thread_invD(4) [OF ti]] by blast
  have cx: "ctxof x = (ctxof (sch s))(c \<mapsto> CDone)" using ctxof_exit [OF x(1)] current_of_running(1) [OF ti run] .
  have 1: "thread_inv N (s\<lparr>sch := x\<rparr>) (spec_exit c v A)"
  proof (rule thread_inv_step [OF ti])
    show "ainv (spec_exit c v A)" using ainv_exit [OF thread_invD(2) [OF ti] run] .
    show "reg (sch (s\<lparr>sch := x\<rparr>)) = reg (sch s)" using reg_exit [OF x(1)] by simp
  qed (use x(2) cx in \<open>auto dest: waits_exit\<close>)
  have 2: "mode (s\<lparr>sch := x\<rparr>)" using rs by (rule mode_sch)
  have "runtime_ready (cfg s)" using ready [OF rs] .
  then have "do_exit os v s = Some (enter_sched os (s\<lparr>sch := x\<rparr>))"
    using x(1) by (simp add: do_exit_def uthread_exit_def on_sched_ret_def)
  then show ?thesis
    using sys_from_step [OF astep.exit [OF run] _ enter [OF 2 1 aidle_after(3) [OF thread_invD(2) [OF ti] run]]] by simp
qed

lemma join_ok:
  assumes rs: "mode s" and ti: "thread_inv N s A" and run: "arunning A c"
  shows "\<exists>S. map_option (reply os k) (uthread_join (\<lambda>t. CJoin t out k) i out s) = Some S \<and> sys_from mode over N A [] S"
proof -
  have rd: "runtime_ready (cfg s)" using ready [OF rs] .
  have err: "sys_from mode over N A [] (User u (s\<lparr>errno := e\<rparr>))" for u e
    using mode_errno [OF rs ti, of e] run by (auto simp: sys_at_def intro!: sys_from_here)
  have mem: "sys_from mode over N A [] (User u (s\<lparr>umem := m\<rparr>))" for u m
    using mode_umem [OF rs ti, of m] run by (auto simp: sys_at_def intro!: sys_from_here)
  have plain: "sys_from mode over N A [] (User u s)" for u using rs ti run by (auto simp: sys_at_def intro!: sys_from_here)
  from thread_invD(3,1,2) [OF ti] run thread_invD(4) [OF ti] show ?thesis
  proof (cases rule: join_cases [where i = i and ctx = "\<lambda>t. CJoin t out k" and out = out])
    case (wait t x)
    have dt: "live (sch s) (Some t)" using wait(1) by (auto simp: live_def ids_def)
    have jw: "ainv (spec_joinwait t c A)"
      using ainv_joinwait [OF thread_invD(2) [OF ti]] run by (auto simp: arunning_def)
    have run': "arunning (spec_joinwait t c A) c" using run by (simp add: arunning_def spec_joinwait_def)
    have "thread_inv N (s\<lparr>sch := x\<rparr>) (spec_block c (spec_joinwait t c A))"
    proof (rule thread_inv_step [OF ti])
      show "ainv (spec_block c (spec_joinwait t c A))" using ainv_block [OF jw run'] .
    qed (use wait(6-8) dt in \<open>auto simp: waits_def spec_block_def spec_joinwait_def split: if_splits\<close>)
    moreover have "mode (s\<lparr>sch := x\<rparr>)" using rs by (rule mode_sch)
    ultimately have "sys_at mode over N (spec_block c (spec_joinwait t c A)) (enter_sched os (s\<lparr>sch := x\<rparr>))"
      using enter [OF _ _ aidle_after(2) [OF jw run']] by blast
    moreover have "t \<in> dom (ast A)" using wait(1) refinesD(3) [OF thread_invD(1) [OF ti], of t] by (auto simp: ids_def)
    ultimately have "sys_from mode over N A [] (enter_sched os (s\<lparr>sch := x\<rparr>))"
      using sys_from_run [OF arun_one [OF astep.joinwait [OF run]] sys_from_step [OF astep.block [OF run']]] by simp
    then show ?thesis using wait(5) rd by (simp add: uthread_join_def reply_def)
  next
    case (finished t v)
    then show ?thesis using rd mem plain by (simp add: uthread_join_def reply_def)
  qed (use rd err in \<open>simp_all add: uthread_join_def reply_def\<close>)
qed

lemma create_ok:
  assumes rs: "mode s" and ti: "thread_inv (Suc N) s A" and run: "arunning A c"
  shows "\<exists>i s' A'. uthread_create os CEntry fn arg s = Some (i, s') \<and> mode s' \<and> thread_inv N s' A' \<and> arunning A' c
    \<and> undispatched A A'"
proof -
  let ?a = "ut_brk (sch s)"
  note fresh = brk_fresh [OF ti]
  obtain r s' where s': "rr_uthread_create os CEntry fn arg s = Some (r, s')" "created os CEntry fn arg s r s'"
    using create_total [OF alloc [OF rs] fresh enq_new [OF ti]] by blast
  have fr: "cfg s' = cfg s" "rcd s' = rcd s" "rpl s' = rpl s" "iou s' = iou s" "quiet os (world s) (world s')"
    using s'(2) by (simp_all add: created_def create_frame_def)
  have rs': "mode s'" using rs fr by (rule env)
  have rd: "runtime_ready (cfg s)" using ready [OF rs] .
  then have ret: "\<exists>i. uthread_create os CEntry fn arg s = Some (i, s')" using s'(1) by (cases r) (simp_all add: uthread_create_def)
  show ?thesis
  proof (cases r)
    case None
    then obtain n j where n: "sch s' = (sch s)\<lparr>ut_brk := n\<rparr>" "?a \<le> n" "uth s' = (uth s)\<lparr>g_next_id := j\<rparr>"
      and j: "j = g_next_id (uth s) \<or> j = g_next_id (uth s) + 1"
      using s'(2) by (auto simp: created_def)
    have "unat (g_next_id (uth s) + 1) = Suc (unat (g_next_id (uth s)))"
      using thread_invD(9) [OF ti] by (simp add: unat_word_ariths)
    then have "unat (g_next_id (uth s)) \<le> unat j" "unat j + N < 2 ^ 64" using j thread_invD(9) [OF ti] by auto
    then have "thread_inv N s' A" using ok_create_none [OF ti n(1,2,3)] by blast
    then show ?thesis using ret rs' run undispatched_refl by blast
  next
    case (Some i)
    then obtain m pg stk tls tc ac where i: "i = g_next_id (uth s)"
      and e: "rr_scheduler_enqueue (Some ?a) (with_ut ?a (new_ut i m pg stk fn arg tls (CEntry ?a)) tc (sch s)) = Some (sch s')"
      and u: "uth s' = (uth s)\<lparr>g_next_id := i + 1, g_allocated := g_allocated (uth s) @ [Some ?a], g_allocated_cap := ac\<rparr>"
      using s'(2) by (auto simp: created_def)
    obtain y where y: "rr_scheduler_enqueue (Some ?a) (with_ut ?a (new_ut i m pg stk fn arg tls (CEntry ?a)) tc (sch s)) = Some y"
      "refines y (spec_spawn ?a A)" "ids y = (ids (sch s))(?a \<mapsto> i)" "ctxof y = (ctxof (sch s))(?a \<mapsto> CEntry ?a)"
      "g_threads y = g_threads (sch s) @ [Some ?a]" "ut_brk y = Suc ?a" "g_sched_running y = g_sched_running (sch s)"
      "dom (ut_heap y) = insert ?a (dom (ut_heap (sch s)))"
      using spawn_refines [OF thread_invD(1) [OF ti] fresh, of "new_ut i m pg stk fn arg tls (CEntry ?a)" tc]
      by (auto simp del: dom_eq_singleton_conv)
    have "sch s' = y" using e y(1) by simp
    then have "thread_inv N s' (spec_spawn ?a A)"
      using y(2-8) i u by (intro ok_create_some [OF ti refl]) simp_all
    moreover have "?a \<noteq> c" using current_of_running(2) [OF ti run] fresh by auto
    then have "arunning (spec_spawn ?a A) c" using run by (simp add: arunning_def spec_spawn_def)
    moreover have "?a \<notin> dom (ast A)" using fresh refinesD(3) [OF thread_invD(1) [OF ti], of ?a] by auto
    then have "undispatched A (spec_spawn ?a A)" using undispatched_step [OF astep.spawn [OF run]] by simp
    ultimately show ?thesis using ret rs' by blast
  qed
qed

lemma request_ok:
  assumes rs: "mode s" and ti: "thread_inv (Suc N) s A" and run: "arunning A c"
    and al: "\<And>call. req = RCall call \<Longrightarrow> allowed call"
  shows "\<exists>S. request os k req s = Some S \<and> sys_from mode over N A [] S"
proof -
  note ti' = thread_inv_less [OF ti]
  show ?thesis
  proof (cases req)
    case (RCall call)
    then show ?thesis using replies [OF calls [OF rs ti' run al] thread_invD(2) [OF ti] run] by (simp add: request_def)
  next
    case (RCreate fn arg)
    obtain i s' A' where c: "uthread_create os CEntry fn arg s = Some (i, s')" "mode s'" "thread_inv N s' A'" "arunning A' c"
      "undispatched A A'"
      using create_ok [OF rs ti run, of fn arg] by blast
    have "sys_from mode over N A [] (User (k (uint i) (errno s')) s')"
      using c(5) by (rule sys_from_undispatched) (use c(2-4) in \<open>auto simp: sys_at_def\<close>)
    then show ?thesis using RCreate c(1) by (simp add: request_def)
  next
    case RYield
    then show ?thesis using yield_ok [OF rs ti' run, of k]
        sys_from_step [OF astep.yield [OF run] _ enter [OF _ _ aidle_after(1) [OF thread_invD(2) [OF ti] run]]]
      by (fastforce simp: request_def)
  next
    case (RJoin i out)
    then show ?thesis using join_ok [OF rs ti' run] by (simp add: request_def)
  next
    case (RProcExit code)
    then show ?thesis using exits [OF rs ti, of code] by (auto simp: request_def sys_at_def intro!: sys_from_here)
  qed (use exit_ok [OF rs ti' run] in \<open>simp_all add: request_def\<close>)
qed

text \<open>One pass of the loop: it waits, ends the process, or dispatches a thread that can be resumed.\<close>

text \<open>One pass of the dispatcher loop, with an empty queue and with a first thread.\<close>

lemma iter_idle:
  assumes rs: "mode s" and ti: "thread_inv N s A" and idle: "aidle A" and q: "aq A = []"
  shows "(\<exists>s'. scheduler_iter os s = Some (Continue, s') \<and> sys_from mode over N A [] (InSched s'))
    \<or> (\<exists>e s'. scheduler_iter os s = Some (End e, s') \<and> sys_from mode over N A [] (Ended e s'))"
proof -
  obtain rc e s' where s': "rr_io_wait os s = Some ((rc, e), s')"
    "case e of None \<Rightarrow> mode s' \<and> (\<exists>B. undispatched A B \<and> thread_inv N s' B \<and> aidle B) | Some e \<Rightarrow> over e s'"
    using io_waits [OF rs ti idle] by blast
  have it: "scheduler_iter os s = Some (case e of Some e \<Rightarrow> End e | None \<Rightarrow> Continue, s')"
    using pop_refines_empty [OF thread_invD(1) [OF ti] q] s'(1) thread_invD(4) [OF ti]
    by (simp add: scheduler_iter_def on_sched_ret_def)
  show ?thesis
  proof (cases e)
    case None
    then obtain B where "undispatched A B" "sys_at mode over N B (InSched s')" using s'(2) by (auto simp: sys_at_def)
    then show ?thesis using it None sys_from_undispatched by fastforce
  next
    case (Some x)
    then have "sys_from mode over N A [] (Ended x s')" using s'(2) by (intro sys_from_here) (simp add: sys_at_def)
    then show ?thesis using it Some by simp
  qed
qed

lemma switch_ok:
  assumes ti: "thread_inv N s A" and idle: "aidle A" and q: "aq A = c # xs" and x: "runq_pop_front (sch s) = Some (Some c, sch s1)"
    and r: "refines (sch s1) (A\<lparr>aq := xs\<rparr>)" "reg (sch s1) = reg (sch s)" "c \<in> dom (ut_heap (sch s1))" and s1: "mode s1" "uth s1 = uth s"
  obtains s2 ctx where "do {
       s \<leftarrow> on_sched (make_current (Some c)) s1;
       u \<leftarrow> deref (sch s) (Some c);
       Some (Dispatch (Some c), snd (rr_set_fs_base os (ut_tls_block u) s))
     } = Some (Dispatch (Some c), s2)" "mode s2" "thread_inv N s2 (spec_dispatch c A)" "ctxof (sch s2) c = Some ctx" "ctx_ok (sch s2) ctx"
proof -
  obtain y v where "make_current (Some c) (sch s1) = Some y" and y: "refines y (spec_dispatch c A)" "reg y = reg (sch s1)" "ctxof y = ctxof (sch s1)"
    and "ut_heap y c = Some v" and eq: "do {
         s \<leftarrow> on_sched (make_current (Some c)) s1;
         u \<leftarrow> deref (sch s) (Some c);
         Some (Dispatch (Some c), snd (rr_set_fs_base os (ut_tls_block u) s))
       } = Some (Dispatch (Some c), snd (rr_set_fs_base os (ut_tls_block v) (s1\<lparr>sch := y\<rparr>)))"
    using r(1) q r(3) by (rule iter_switch)
  define s2 where "s2 = snd (rr_set_fs_base os (ut_tls_block v) (s1\<lparr>sch := y\<rparr>))"
  have cx: "ctxof y = ctxof (sch s)" using y(3) ctxof_pop [OF x] by simp
  have rg: "reg y = reg (sch s)" using y(2) r(2) by simp
  have "thread_inv N (s1\<lparr>sch := y\<rparr>) (spec_dispatch c A)"
  proof (rule thread_inv_step [OF ti])
    show "ainv (spec_dispatch c A)" using ainv_dispatch [OF thread_invD(2) [OF ti] idle q] .
  qed (use y(1) rg cx s1(2) in \<open>auto simp: waits_def spec_dispatch_def split: if_splits\<close>)
  from mode_fs [OF mode_sch [OF s1(1), of y] this]
  have ok: "mode s2" "thread_inv N s2 (spec_dispatch c A)" by (simp_all add: s2_def)
  have d: "dom (ut_heap (sch s2)) = dom (ut_heap (sch s))" using ids_dom_eq [OF reg_ids [OF rg]] by (simp add: s2_def)
  have "waits A c" using thread_invD(2) [OF ti] q by (auto simp: ainv_def waits_def)
  then obtain ctx where "ctxof (sch s) c = Some ctx" "ctx_ok (sch s) ctx" using thread_invD(8) [OF ti] by blast
  then have "ctxof (sch s2) c = Some ctx" "ctx_ok (sch s2) ctx"
    using cx by (simp add: s2_def, simp only: ctx_ok_cong [OF d])
  then show ?thesis using that [of s2 ctx] eq ok by (simp add: s2_def)
qed

lemma iter_ok:
  assumes rs: "mode s" and ti: "thread_inv N s A" and idle: "aidle A"
  shows "(\<exists>s'. scheduler_iter os s = Some (Continue, s') \<and> sys_from mode over N A [] (InSched s'))
    \<or> (\<exists>e s'. scheduler_iter os s = Some (End e, s') \<and> sys_from mode over N A [] (Ended e s'))
    \<or> (\<exists>c s' A' ctx. scheduler_iter os s = Some (Dispatch (Some c), s') \<and> astep A (ADispatch c) A'
         \<and> mode s' \<and> thread_inv N s' A' \<and> arunning A' c
         \<and> ctxof (sch s') c = Some ctx \<and> ctx_ok (sch s') ctx)"
proof (cases "aq A")
  case Nil
  then show ?thesis using iter_idle [OF rs ti idle] by blast
next
  case (Cons c xs)
  obtain x u i where x: "runq_pop_front (sch s) = Some (Some c, x)" "refines x (A\<lparr>aq := xs\<rparr>)" "reg x = reg (sch s)" "ut_heap x c = Some u"
    and eq: "scheduler_iter os s = do {
       (ok, s) \<leftarrow> note_switch os i (ut_id u) (s\<lparr>sch := x\<rparr>);
       if \<not> ok then Some (End Aborted, s)
       else do {
         s \<leftarrow> on_sched (make_current (Some c)) s;
         u \<leftarrow> deref (sch s) (Some c);
         Some (Dispatch (Some c), snd (rr_set_fs_base os (ut_tls_block u) s))
       }
     }"
    using iter_pop [OF thread_invD(4,1,2) [OF ti] Cons] by blast
  obtain ok s1 where sw: "note_switch os i (ut_id u) (s\<lparr>sch := x\<rparr>) = Some (ok, s1)"
    "if ok then mode s1 \<and> sch s1 = x \<and> uth s1 = uth s else over Aborted s1"
    using switches [OF mode_sch [OF rs, of x], of i "ut_id u"] by auto
  show ?thesis
  proof (cases ok)
    case False
    then have "sys_from mode over N A [] (Ended Aborted s1)" using sw(2) by (intro sys_from_here) (simp add: sys_at_def)
    then show ?thesis using eq sw(1) False by simp
  next
    case True
    then have s1: "mode s1" "sch s1 = x" "uth s1 = uth s" using sw(2) by simp_all
    have pre: "runq_pop_front (sch s) = Some (Some c, sch s1)" "refines (sch s1) (A\<lparr>aq := xs\<rparr>)" "reg (sch s1) = reg (sch s)"
      "c \<in> dom (ut_heap (sch s1))" using x s1(2) by auto
    obtain s2 ctx where s2: "do {
         s \<leftarrow> on_sched (make_current (Some c)) s1;
         u \<leftarrow> deref (sch s) (Some c);
         Some (Dispatch (Some c), snd (rr_set_fs_base os (ut_tls_block u) s))
       } = Some (Dispatch (Some c), s2)" "mode s2" "thread_inv N s2 (spec_dispatch c A)" "ctxof (sch s2) c = Some ctx" "ctx_ok (sch s2) ctx"
      by (rule switch_ok [OF ti idle Cons pre s1(1,3)])
    have "scheduler_iter os s = Some (Dispatch (Some c), s2)" using eq sw(1) True s2(1) by simp
    moreover have "arunning (spec_dispatch c A) c" by (simp add: arunning_def spec_dispatch_def)
    ultimately show ?thesis using s2(2-) astep.dispatch [OF idle Cons] by blast
  qed
qed

lemma resume_ok:
  assumes rs: "mode s" and ti: "thread_inv N s A" and run: "arunning A c"
    and ctx: "ctxof (sch s) c = Some ctx" "ctx_ok (sch s) ctx"
  shows "\<exists>S. resume os start (Some c) s = Some S \<and> sys_from mode over N A [] S"
proof -
  obtain u where u: "ut_heap (sch s) c = Some u" "ut_ctx u = Some ctx" using ctx(1) by (auto simp: ctxof_def split: bind_splits)
  have plain: "sys_from mode over N A [] (User k s)" for k using rs ti run by (auto simp: sys_at_def intro!: sys_from_here)
  show ?thesis
  proof (cases ctx)
    case (CEntry a)
    then obtain v where "ut_heap (sch s) a = Some v" using ctx(2) by (auto simp: live_def)
    then show ?thesis using u CEntry plain exit_ok [OF rs ti run, of 0]
      by (cases "ut_start_fn v = 0") (simp_all add: resume_def uthread_entry_def)
  next
    case (CYield k)
    then show ?thesis using u plain by (simp add: resume_def)
  next
    case (CJoin target out k)
    then obtain t v where t: "target = Some t" "ut_heap (sch s) t = Some v" using ctx(2) by (auto simp: live_def)
    have "sys_from mode over N A [] (User x (s\<lparr>umem := m\<rparr>))" for x m
      using mode_umem [OF rs ti, of m] run by (auto simp: sys_at_def intro!: sys_from_here)
    then show ?thesis using u t CJoin plain join_finish_defined [OF t(2), of out] by (simp add: resume_def)
  next
    case (CIo pt self k)
    then obtain t v where t: "self = Some t" "ut_heap (sch s) t = Some v" using ctx(2) by (auto simp: live_def)
    obtain r s' where "finish os pt (ut_io_result v) s = Some (r, s')" "mode s'" "thread_inv N s' A"
      using finishes [OF rs ti, of pt "ut_io_result v"] by (auto simp: ok_ret_def)
    then show ?thesis using u t CIo run by (auto simp: resume_def io_resume_def sys_at_def intro!: sys_from_here)
  next
    case CDone
    then show ?thesis using ctx(2) by simp
  qed
qed

text \<open>Each step is defined, keeps the invariant and is a run of the abstract scheduler with the same dispatches.\<close>

lemma step_refines:
  assumes inv: "sys_at mode over (Suc N) A S" and al: "only_calls allowed user"
  shows "\<exists>S'. sys_step os user start S = Some S' \<and> sys_from mode over N A (dispatched os S) S'"
proof (cases S)
  case (User x s)
  then obtain c where 1: "mode s" "thread_inv (Suc N) s A" "arunning A c" using inv by (auto simp: sys_at_def)
  obtain m req k where u: "user x (umem s) = (m, req, k)" by (cases "user x (umem s)")
  have "req = RCall call \<Longrightarrow> allowed call" for call using al u unfolding only_calls_def by blast
  then show ?thesis using request_ok [of "s\<lparr>umem := m\<rparr>" N A c req k] mode_umem [OF 1(1,2), of m] 1(3) User u
    by (simp add: sys_step_def dispatched_def)
next
  case (InSched s)
  then have 1: "mode s" "thread_inv N s A" "aidle A" using inv thread_inv_less by (auto simp: sys_at_def)
  from iter_ok [OF 1] show ?thesis
  proof (elim disjE exE conjE)
    fix c s' A' ctx
    assume it: "scheduler_iter os s = Some (Dispatch (Some c), s')" and st: "astep A (ADispatch c) A'"
      and "mode s'" "thread_inv N s' A'" "arunning A' c" "ctxof (sch s') c = Some ctx" "ctx_ok (sch s') ctx"
    then obtain S' where "resume os start (Some c) s' = Some S'" "sys_from mode over N A' [] S'"
      using resume_ok [of s' N A' c ctx start] by blast
    then show ?thesis using it InSched sys_from_run [OF arun_one [OF st]] by (fastforce simp: sys_step_def dispatched_def)
  qed (use InSched in \<open>simp_all add: sys_step_def dispatched_def\<close>)
next
  case (Ended e s)
  then show ?thesis using inv by (auto simp: sys_step_def sys_at_def dispatched_def intro!: sys_from_here)
qed

lemma run_refines:
  assumes "only_calls allowed user"
  shows "sys_at mode over (n + N) A S \<Longrightarrow>
    \<exists>S'. sys_run os user start n S = Some S' \<and> sys_from mode over N A (dispatch_trace os user start n S) S'"
proof (induction n arbitrary: S A)
  case 0
  then show ?case by (simp add: sys_from_here)
next
  case (Suc n)
  have "sys_at mode over (Suc (n + N)) A S" using Suc.prems by simp
  then obtain S1 ls B where S1: "sys_step os user start S = Some S1" "arun A ls B" "dispatch_order ls = dispatched os S"
    "sys_at mode over (n + N) B S1"
    using step_refines [of "n + N" A S user start] assms by (fastforce simp: sys_from_def)
  then show ?case using Suc.IH [OF S1(4)] sys_from_run [OF S1(2)] by fastforce
qed

end

end
