(* ===== verification/RR_Demo.thy ===== *)
theory RR_Demo
  imports RR_Record RR_Replay
begin

text \<open>
  A concrete environment in which the hypotheses about the kernel and libc hold: a small world
  with one log file, one input file, a bump allocator for mappings and a queue of pending
  completions. The properties about code that calls the environment are instantiated here.
\<close>

record dw =
  d_log :: "u8 list"
  d_rest :: "u8 list"
  d_brk :: u64
  d_cqes :: "cqe list"
  d_sqes :: "sqe list"
  d_uid :: int

definition dw0 :: dw where
  "dw0 = \<lparr> d_log = [], d_rest = [], d_brk = 65536, d_cqes = [], d_sqes = [], d_uid = 1000 \<rparr>"

text \<open>libc's own functions: the clock always shows the same time, the working directory is \<^verbatim>\<open>/r\<close>.\<close>

fun demo_real :: "libc_call \<Rightarrow> mem \<Rightarrow> dw \<Rightarrow> int res \<times> mem \<times> dw" where
  "demo_real (CClockGettime c p) m w = (Inr 0, write_mem p (le_bytes 8 (7 :: u64) @ le_bytes 8 (9 :: u64)) m, w)"
| "demo_real (CGettimeofday p z) m w = (Inr 0, write_mem p (le_bytes 8 (7 :: u64) @ le_bytes 8 (5 :: u64)) m, w)"
| "demo_real CGetpid m w = (Inr 42, m, w)"
| "demo_real CGetuid m w = (Inr (d_uid w), m, w)"
| "demo_real (CGetcwd p n) m w = (Inr (uint p), write_mem p [47, 114, 0] m, w)"
| "demo_real (CStat p st) m w = (Inl 2, m, w)"
| "demo_real _ m w = (Inr 0, m, w)"

definition demo_os :: "dw os" where
  "demo_os = \<lparr>
     os_dlsym = (\<lambda>_. True),
     os_write = (\<lambda>fd bs w. (Inr (length bs), if fd = 3 then w\<lparr>d_log := d_log w @ bs\<rparr> else w)),
     os_read = (\<lambda>fd n w. (Inr (take n (d_rest w)), w\<lparr>d_rest := drop n (d_rest w)\<rparr>)),
     os_open_log = (\<lambda>p w. (Inr 3, w\<lparr>d_log := []\<rparr>)),
     os_open_ro = (\<lambda>p w. (Inr 4, w)),
     os_close = (\<lambda>fd w. w),
     os_mmap = (\<lambda>n rw w. (Inr (d_brk w), w\<lparr>d_brk := d_brk w + n\<rparr>)),
     os_mprotect_rw = (\<lambda>a n w. (Inr (), w)),
     os_munmap = (\<lambda>a n w. w),
     os_alloc = (\<lambda>n w. (Inr (), w)),
     os_getcontext = (\<lambda>w. (Inr (), w)),
     os_set_fs = (\<lambda>b w. (Inr (), w)),
     os_get_fs = (\<lambda>w. (Inr 4096, w)),
     os_sizeof_ucontext = 968,
     os_pagesize = 4096,
     os_sigstksz = 8192,
     os_sigaltstack = (\<lambda>a n w. (Inr (), w)),
     os_sigaction_segv = (\<lambda>w. (Inr (), w)),
     os_sigblock = (\<lambda>ss w. (Inr (), w)),
     os_signalfd = (\<lambda>ss w. (Inr 5, w)),
     os_siginfo_addr = 256,
     os_expirations_addr = 512,
     os_ts_addr = 768,
     os_timerfd_create = (\<lambda>w. (Inr 6, w)),
     os_timerfd_settime = (\<lambda>fd sp w. (Inr (), w)),
     os_uring_init = (\<lambda>n w. (True, w)),
     os_uring_exit = (\<lambda>w. w),
     os_get_sqe = (\<lambda>w. (Some (length (d_sqes w)), w)),
     os_prep_sqe = (\<lambda>i q w. w\<lparr>d_sqes := d_sqes w @ [q]\<rparr>),
     os_submit = (\<lambda>w. (1, w)),
     os_wait_cqe = (\<lambda>w. (case d_cqes w of [] \<Rightarrow> ((- EINTR, None), w) | c # cs \<Rightarrow> ((0, Some c), w))),
     os_cqe_seen = (\<lambda>w. w\<lparr>d_cqes := tl (d_cqes w)\<rparr>),
     os_real = demo_real \<rparr>"

section \<open>It satisfies the hypotheses\<close>

lemma demo_write_ok: "write_ok demo_os 3 d_log (\<lambda>_. 0)"
  by (simp add: write_ok_def demo_os_def)

lemma demo_read_ok: "read_ok demo_os fd d_rest (\<lambda>_. 0)"
  by (auto simp: read_ok_def demo_os_def)

text \<open>A state that records into the log file, and one that replays \<open>evs\<close>; in both the main thread runs.\<close>

definition demo_main :: "'c uthread_t" where
  "demo_main = ut_zero\<lparr>ut_id := 1, ut_state := UT_RUNNING\<rparr>"

definition demo_sch :: "'c sched" where
  "demo_sch = sched_init\<lparr>ut_heap := [1 \<mapsto> demo_main], ut_brk := 2, g_current := Some 1, g_sched_running := True,
     g_threads := [Some 1], g_threads_cap := 16\<rparr>"

definition demo_base :: "('c, dw) rr" where
  "demo_base = (rr_load (\<lambda>_. 0) dw0)\<lparr>sch := demo_sch,
     uth := \<lparr> g_next_id = 2, g_scheduler_tls = 4096, g_allocated = [Some 1], g_allocated_cap = 16 \<rparr>\<rparr>"

definition demo_rec :: "('c, dw) rr" where
  "demo_rec = (demo_base :: ('c, dw) rr)\<lparr>
     cfg := (cfg (demo_base :: ('c, dw) rr))\<lparr>mode_record := True, runtime_ready := True\<rparr>,
     rcd := (rcd (demo_base :: ('c, dw) rr))\<lparr>g_log_fd := 3, g_ring := Some 8192\<rparr>\<rparr>"

definition demo_rpl :: "rr_event_t list \<Rightarrow> ('c, dw) rr" where
  "demo_rpl evs = (demo_base :: ('c, dw) rr)\<lparr>
     cfg := (cfg (demo_base :: ('c, dw) rr))\<lparr>mode_replay := True, runtime_ready := True\<rparr>,
     rpl := (rpl (demo_base :: ('c, dw) rr))\<lparr>g_replay_fd := 4, g_replay_header_ok := True\<rparr>,
     world := dw0\<lparr>d_rest := concat (map enc_event evs)\<rparr>\<rparr>"

lemmas demo_defs = demo_main_def demo_sch_def demo_base_def demo_rec_def demo_rpl_def rr_load_def dw0_def
  g_rr_config_init_def sched_init_def ut_zero_def

lemma demo_rec_simps [simp]:
  "rr_active demo_rec" "\<not> rr_replay_active demo_rec" "current_id demo_rec = Some 1" "mode_record (cfg demo_rec)"
  "umem demo_rec = (\<lambda>_. 0)" "g_rr_seq (rcd demo_rec) = 0" "world demo_rec = dw0" "sch demo_rec = demo_sch"
  by (simp_all add: rr_active_def rr_replay_active_def cfg_active_def cfg_replay_active_def current_id_def
      rr_scheduler_current_def demo_defs)

lemma demo_rec_inv: "rec_inv demo_os d_log (\<lambda>_. 0) demo_rec"
  using demo_write_ok by (simp add: rec_inv_def demo_defs)

lemma demo_event_log: "event_log d_log demo_rec [] []"
  by (simp add: event_log_def contents_def ring_bytes_def numbered_def demo_defs)

lemma demo_rpl_simps [simp]:
  "\<not> rr_active (demo_rpl evs)" "rr_replay_active (demo_rpl evs)" "current_id (demo_rpl evs) = Some 1"
  "umem (demo_rpl evs) = (\<lambda>_. 0)" "sch (demo_rpl evs) = demo_sch" "replay_time_virtual (cfg (demo_rpl evs))"
  by (simp_all add: rr_active_def rr_replay_active_def cfg_active_def cfg_replay_active_def current_id_def
      rr_scheduler_current_def demo_defs)

lemma demo_replay_log:
  "\<forall>ev \<in> set evs. wf_event ev \<Longrightarrow> seq_from 1 evs \<Longrightarrow> replay_log demo_os d_rest (\<lambda>_. 0) (demo_rpl evs) evs"
  using demo_read_ok by (simp add: replay_log_def demo_defs)

end
