(* ===== verification/RR_Safety.thy ===== *)
theory RR_Safety
  imports RR_Mode RR_Demo
begin

text \<open>
  Recording, for an arbitrary program: the log is a header followed by well-formed, consecutively numbered
  events. Every intercepted function, the wait for I/O with completions and signals, the note of a thread switch and the
  destructor have a defined result (every log write ends) and keep this invariant and that of the threads. So recording is
  a mode in the sense of \<open>run_mode\<close>, and every step of a recorded process is defined, keeps the
  invariant and is a run of the abstract scheduler.
\<close>

section \<open>The invariant\<close>

definition rec_sys :: "'w os \<Rightarrow> ('w \<Rightarrow> u8 list) \<Rightarrow> ('w \<Rightarrow> nat) \<Rightarrow> u8 list \<Rightarrow> ('c, 'w) rr \<Rightarrow> bool" where
  "rec_sys os fl \<mu> hdr s \<longleftrightarrow> rr_active s \<and> \<not> rr_replay_active s \<and> rec_inv os fl \<mu> s \<and> (\<exists>evs. event_log fl s hdr evs)"

text \<open>The log file at the end of the process.\<close>

definition complete_log :: "('w \<Rightarrow> u8 list) \<Rightarrow> u8 list \<Rightarrow> ('c, 'w) rr \<Rightarrow> bool" where
  "complete_log fl hdr s \<longleftrightarrow> (\<exists>evs. fl (world s) = hdr @ concat (map enc_event evs) \<and> (\<forall>ev \<in> set evs. wf_event ev) \<and> numbered evs)"

definition sys_inv :: "nat \<Rightarrow> 'w os \<Rightarrow> ('w \<Rightarrow> u8 list) \<Rightarrow> ('w \<Rightarrow> nat) \<Rightarrow> u8 list \<Rightarrow> ('u, 'w) sys \<Rightarrow> bool" where
  "sys_inv N os fl \<mu> hdr S \<longleftrightarrow> (case S of
       User x s \<Rightarrow> rec_sys os fl \<mu> hdr s \<and> (\<exists>A c. thread_inv N s A \<and> arunning A c)
     | InSched s \<Rightarrow> rec_sys os fl \<mu> hdr s \<and> (\<exists>A. thread_inv N s A \<and> aidle A)
     | Ended e s \<Rightarrow> complete_log fl hdr s)"

lemma rec_sys_env:
  assumes "rec_sys os fl \<mu> hdr s" and "cfg s' = cfg s" and "rcd s' = rcd s" and "fl (world s') = fl (world s)"
  shows "rec_sys os fl \<mu> hdr s'"
  using assms by (simp add: rec_sys_def rr_active_def rr_replay_active_def rec_inv_def event_log_def contents_def)

lemma rec_sys_log:
  assumes rs: "rec_sys os fl \<mu> hdr s" and i: "current_id s = Some i"
  obtains s' where "rr_log_syscall os nr ret a0 d l s = Some s'" "rec_sys os fl \<mu> hdr s'" "log_frame (snd (rr_next_seq s)) s'"
proof -
  obtain evs where evs: "event_log fl s hdr evs" using rs by (auto simp: rec_sys_def)
  have act: "rr_active s" and inv: "rec_inv os fl \<mu> s" using rs by (simp_all add: rec_sys_def)
  obtain s' where s': "rr_log_syscall os nr ret a0 d l s = Some s'" "rec_inv os fl \<mu> s'"
    "event_log fl s' hdr (evs @ [syscall_event (of_nat (Suc (length evs))) i nr ret a0 (logged_data (umem s) d l)])"
    "log_frame (snd (rr_next_seq s)) s'"
    using log_syscall_total [OF act inv evs i] by blast
  have "rec_sys os fl \<mu> hdr s'"
    using rs s'(2,3) log_frameD(1) [OF s'(4)] by (auto simp: rec_sys_def rr_active_def rr_replay_active_def rr_next_seq_frame)
  with s' that show ?thesis by blast
qed

lemma next_seq_uth [simp]: "uth (snd (rr_next_seq s)) = uth s" "iou (snd (rr_next_seq s)) = iou s" "sigs (snd (rr_next_seq s)) = sigs s"
  by (simp_all add: rr_next_seq_def Let_def)

lemma log_frame_sch: "log_frame (snd (rr_next_seq s)) s' \<Longrightarrow> sch s' = sch s \<and> uth s' = uth s \<and> umem s' = umem s"
  using log_frameD(2,6,7) by (fastforce simp: rr_next_seq_frame)

section \<open>Library calls\<close>

lemma ok_log:
  assumes "rec_sys os fl \<mu> hdr s" and "thread_inv N s A"
  shows "ok_ret (rec_sys os fl \<mu> hdr) N A (do { s \<leftarrow> rr_log_syscall os nr ret a0 d l s; Some (v, s) })"
proof -
  obtain i where "current_id s = Some i" using current_id_defined [OF thread_invD(1,2) [OF assms(2)]] by blast
  with assms(1) obtain s' where s': "rr_log_syscall os nr ret a0 d l s = Some s'" "rec_sys os fl \<mu> hdr s'" "log_frame (snd (rr_next_seq s)) s'"
    by (rule rec_sys_log)
  then have "thread_inv N s' A" using log_frame_sch [OF s'(3)] assms(2) thread_inv_cong by blast
  with s' show ?thesis by (auto simp: ok_ret_def)
qed

text \<open>Changes of the environment, \<^verbatim>\<open>errno\<close> and memory.\<close>

lemma ok_env:
  assumes "rec_sys os fl \<mu> hdr s" and "thread_inv N s A" and "log_private os fl" and "quiet os (world s) w"
  shows "rec_sys os fl \<mu> hdr (s\<lparr>errno := e, umem := m, world := w\<rparr>)" "thread_inv N (s\<lparr>errno := e, umem := m, world := w\<rparr>) A"
    "rec_sys os fl \<mu> hdr (s\<lparr>umem := m, world := w\<rparr>)" "thread_inv N (s\<lparr>umem := m, world := w\<rparr>) A"
    "rec_sys os fl \<mu> hdr (s\<lparr>errno := e, world := w\<rparr>)" "thread_inv N (s\<lparr>errno := e, world := w\<rparr>) A"
    "rec_sys os fl \<mu> hdr (s\<lparr>world := w\<rparr>)" "thread_inv N (s\<lparr>world := w\<rparr>) A"
    "rec_sys os fl \<mu> hdr (s\<lparr>errno := e\<rparr>)" "thread_inv N (s\<lparr>errno := e\<rparr>) A"
    "rec_sys os fl \<mu> hdr (s\<lparr>umem := m\<rparr>)" "thread_inv N (s\<lparr>umem := m\<rparr>) A"
  using assms(1,2) quietD [OF assms(4,3)] by (auto intro: rec_sys_env simp: thread_inv_def)

lemma ok_real:
  assumes "rec_sys os fl \<mu> hdr s" and "thread_inv N s A" and "log_private os fl" and "real_call os call f s = (v, s')"
  shows "rec_sys os fl \<mu> hdr s'" "thread_inv N s' A"
proof -
  obtain r m w where "os_real os call (umem s) (world s) = (r, m, w)" by (cases "os_real os call (umem s) (world s)")
  moreover from this have "quiet os (world s) w" by (rule quiet_calls)
  ultimately show "rec_sys os fl \<mu> hdr s'" "thread_inv N s' A"
    using assms(4) ok_env [OF assms(1-3), of w] by (auto simp: real_call_def split: sum.splits)
qed

lemma rec_sys_active: "rec_sys os fl \<mu> hdr s \<Longrightarrow> rr_active s \<and> \<not> rr_replay_active s"
  by (simp add: rec_sys_def)

lemma ok_submit:
  assumes rs: "rec_sys os fl \<mu> hdr s" and ti: "thread_inv N s A" and lp: "log_private os fl" and run: "arunning A c"
    and ctx: "ctx_ok (sch s) ctx"
  shows "ok_out (rec_sys os fl \<mu> hdr) N A c (submit_op os ctx op s)"
proof -
  obtain u where u: "ut_heap (sch s) c = Some u" and cur: "g_current (sch s) = Some c"
    using current_of_running [OF ti run] by auto
  obtain slot w where gs: "os_get_sqe os (world s) = (slot, w)" by (cases "os_get_sqe os (world s)")
  then have q: "quiet os (world s) w" by (rule quiet_calls)
  show ?thesis
  proof (cases slot)
    case None
    then show ?thesis using ok_env(9,10) [OF ok_env(7,8) [OF rs ti lp q] lp quiet_refl, of EAGAIN] gs
      by (auto simp: submit_op_def kcall_def ok_out_def)
  next
    case (Some i)
    define s1 where "s1 = s\<lparr>world := os_prep_sqe os i \<lparr>sq_op = op, sq_user_data = ut_id u\<rparr> w\<rparr>"
    have eq: "submit_op os ctx op s = submit_and_block os ctx (Some c) s1"
      using gs Some u cur by (simp add: submit_op_def kcall_def kdo_def rr_scheduler_current_def s1_def)
    have 1: "rec_sys os fl \<mu> hdr s1" "thread_inv N s1 A" using ok_env(7,8) [OF rs ti lp] q by (simp_all add: s1_def)
    obtain rc w' where sub: "os_submit os (world s1) = (rc, w')" by (cases "os_submit os (world s1)")
    then have q': "quiet os (world s1) w'" by (rule quiet_calls)
    note 2 = ok_env(7,8) [OF 1 lp q']
    show ?thesis
    proof (cases "sint rc < 0")
      case True
      then show ?thesis using 2 eq sub by (auto simp: submit_and_block_def kcall_def ok_out_def)
    next
      case False
      obtain x where x: "rr_scheduler_block_current ctx (sch s1) = Some (True, x)" "refines x (spec_block c A)"
        using block_refines [OF thread_invD(1) [OF 1(2)] run thread_invD(4) [OF 1(2)]] by blast
      define s2 where "s2 = s1\<lparr>world := w', sch := x\<rparr>"
      have cx: "ctxof x = (ctxof (sch s1))(c \<mapsto> ctx)" using ctxof_block [OF x(1), of c] cur by (simp add: s1_def)
      have "thread_inv N s2 (spec_block c A)"
      proof (rule thread_inv_step [OF 2(2)])
        show "refines (sch s2) (spec_block c A)" using x(2) by (simp add: s2_def)
        show "ainv (spec_block c A)" using ainv_block [OF thread_invD(2) [OF ti] run] .
        show "reg (sch s2) = reg (sch (s1\<lparr>world := w'\<rparr>))" using reg_block [OF x(1)] by (simp add: s2_def)
      qed (use cx ctx in \<open>auto simp: s2_def s1_def waits_def spec_block_def split: if_splits\<close>)
      moreover have "rec_sys os fl \<mu> hdr s2" using 2(1) by (rule rec_sys_env) (simp_all add: s2_def)
      moreover have "submit_op os ctx op s = Some (Suspended, s2)"
        using eq sub False x(1) by (simp add: submit_and_block_def kcall_def on_sched_ret_def s2_def)
      ultimately show ?thesis by (auto simp: ok_out_def)
    qed
  qed
qed

lemma ok_raw:
  assumes "rec_sys os fl \<mu> hdr s" and "thread_inv N s A" and "log_private os fl"
  shows "raw_to_ssize raw s = (v, s') \<Longrightarrow> rec_sys os fl \<mu> hdr s' \<and> thread_inv N s' A"
    and "raw_to_int raw s = (v, s') \<Longrightarrow> rec_sys os fl \<mu> hdr s' \<and> thread_inv N s' A"
  using assms ok_env(9,10) [OF assms quiet_refl, of "- raw"]
  by (auto simp: raw_to_ssize_def raw_to_int_def split: if_splits)

lemma ok_raw_log:
  assumes "rec_sys os fl \<mu> hdr s" and "thread_inv N s A" and "log_private os fl"
  shows "ok_ret (rec_sys os fl \<mu> hdr) N A (case raw_to_ssize raw s of (ret, s) \<Rightarrow> do { s \<leftarrow> rr_log_syscall os nr raw a0 d l s; Some (ret, s) })"
    and "ok_ret (rec_sys os fl \<mu> hdr) N A (case raw_to_int raw s of (ret, s) \<Rightarrow> do { s \<leftarrow> rr_log_syscall os nr raw a0 d l s; Some (ret, s) })"
proof -
  obtain v s1 where 1: "raw_to_ssize raw s = (v, s1)" by (cases "raw_to_ssize raw s")
  obtain v' s2 where 2: "raw_to_int raw s = (v', s2)" by (cases "raw_to_int raw s")
  show "ok_ret (rec_sys os fl \<mu> hdr) N A (case raw_to_ssize raw s of (ret, s) \<Rightarrow> do { s \<leftarrow> rr_log_syscall os nr raw a0 d l s; Some (ret, s) })"
    using ok_raw(1) [OF assms 1] ok_log 1 by auto
  show "ok_ret (rec_sys os fl \<mu> hdr) N A (case raw_to_int raw s of (ret, s) \<Rightarrow> do { s \<leftarrow> rr_log_syscall os nr raw a0 d l s; Some (ret, s) })"
    using ok_raw(2) [OF assms 2] ok_log 2 by auto
qed

lemma ok_nanosleep_finish:
  assumes "rec_sys os fl \<mu> hdr s" and "thread_inv N s A" and "log_private os fl"
  shows "ok_ret (rec_sys os fl \<mu> hdr) N A (nanosleep_finish os tfd rem raw s)"
proof -
  let ?s1 = "s\<lparr>world := os_close os tfd (world s)\<rparr>"
  have 1: "rec_sys os fl \<mu> hdr ?s1" "thread_inv N ?s1 A" using ok_env(7,8) [OF assms] by simp_all
  show ?thesis
  proof (cases "sint raw < 0")
    case True
    then show ?thesis
      using ok_log [OF ok_env(9,10) [OF 1 assms(3) quiet_refl, of "- raw"]] by (simp add: nanosleep_finish_def kdo_def)
  next
    case False
    let ?s2 = "if rem \<noteq> 0 then ?s1\<lparr>umem := write_mem rem (replicate 16 0) (umem s)\<rparr> else ?s1"
    have "(if rem \<noteq> 0 then copy_to rem (replicate 16 0) ?s1 else Some ?s1) = Some ?s2"
      by (simp add: copy_to_def memcpy_def)
    moreover have "rec_sys os fl \<mu> hdr ?s2" "thread_inv N ?s2 A"
      using 1 ok_env(11,12) [OF 1 assms(3) quiet_refl] by (cases "rem = 0"; simp)+
    ultimately show ?thesis using ok_log [of os fl \<mu> hdr ?s2 N A NR_nanosleep 0 0 0 0 0] False
      by (simp add: nanosleep_finish_def kdo_def Let_def)
  qed
qed

lemma ok_finish:
  assumes "rec_sys os fl \<mu> hdr s" and "thread_inv N s A" and "log_private os fl"
  shows "ok_ret (rec_sys os fl \<mu> hdr) N A (finish os pt raw s)"
  by (cases pt)
    (simp_all add: finish_def read_finish_def write_finish_def recv_finish_def send_finish_def accept_finish_def
      connect_finish_def openat_finish_def close_finish_def Let_def ok_raw_log [OF assms] ok_nanosleep_finish [OF assms])

lemma ok_real_log:
  assumes "rec_sys os fl \<mu> hdr s" and "thread_inv N s A" and "log_private os fl"
  shows "ok_ret (rec_sys os fl \<mu> hdr) N A (case real_call os call f s of (rc, s) \<Rightarrow>
    do { s \<leftarrow> rr_log_syscall os nr (g rc s) a0 (d rc) (l rc s) s; Some (rc, s) })"
proof -
  obtain v s' where r: "real_call os call f s = (v, s')" by (cases "real_call os call f s")
  then show ?thesis using ok_log [OF ok_real [OF assms r]] by simp
qed

lemma ok_real_record:
  assumes "rec_sys os fl \<mu> hdr s" and "thread_inv N s A" and "log_private os fl"
  shows "ok_ret (rec_sys os fl \<mu> hdr) N A (case real_call os call f s of (rc, s) \<Rightarrow>
    if rr_active s then do { s \<leftarrow> rr_log_syscall os nr (g rc s) a0 (d rc) (l rc s) s; Some (rc, s) } else Some (rc, s))"
proof -
  obtain v s' where r: "real_call os call f s = (v, s')" by (cases "real_call os call f s")
  note ok = ok_real [OF assms r]
  then show ?thesis using r ok_log [OF ok] rec_sys_active [OF ok(1)] by simp
qed

lemma ok_record_struct:
  assumes "rec_sys os fl \<mu> hdr s" and "thread_inv N s A" and "log_private os fl"
  shows "ok_ret (rec_sys os fl \<mu> hdr) N A (record_struct os call nr a0 p sz s)"
  unfolding record_struct_def by (rule ok_real_record [OF assms])

lemma ok_nanosleep:
  assumes "rec_sys os fl \<mu> hdr s" and "thread_inv N s A" and lp: "log_private os fl" and run: "arunning A c"
    and ctx: "\<And>tfd. ctx_ok (sch s) (ctx tfd)"
  shows "ok_out (rec_sys os fl \<mu> hdr) N A c (nanosleep os ctx req rem s)"
proof (cases rule: kres_cases [of "os_timerfd_create os" s])
  case (fail e w)
  note 1 = ok_env(5,6) [OF assms(1-3) quiet_calls(7) [OF fail(2)], of e]
  show ?thesis using ok_immediate [OF ok_log [OF 1]] fail(1) rec_sys_active [OF assms(1)] by (simp add: nanosleep_def)
next
  case (ok tfd w)
  note 1 = ok_env(7,8) [OF assms(1-3) quiet_calls(7) [OF ok(2)]]
  show ?thesis
  proof (cases rule: kres_cases [of "os_timerfd_settime os tfd (replicate 16 0 @ read_mem (umem s) req sizeof_timespec)" "s\<lparr>world := w\<rparr>"])
    case (fail e w')
    have "quiet os w (os_close os tfd w')" using quiet_calls(8) [OF fail(2)] by simp
    then have "rec_sys os fl \<mu> hdr (s\<lparr>errno := e, world := os_close os tfd w'\<rparr>)" "thread_inv N (s\<lparr>errno := e, world := os_close os tfd w'\<rparr>) A"
      using ok_env(5,6) [OF 1 lp, of "os_close os tfd w'" e] by simp_all
    from ok_immediate [OF ok_log [OF this]] show ?thesis
      using ok(1) fail(1) rec_sys_active [OF assms(1)] by (simp add: nanosleep_def kdo_def Let_def)
  next
    case ok2: (ok v w')
    have "quiet os w w'" using quiet_calls(8) [OF ok2(2)] by simp
    then have 2: "rec_sys os fl \<mu> hdr (s\<lparr>world := w'\<rparr>)" "thread_inv N (s\<lparr>world := w'\<rparr>) A"
      using ok_env(7,8) [OF 1 lp, of w'] by simp_all
    have "ok_out (rec_sys os fl \<mu> hdr) N A c (then_finish (nanosleep_finish os tfd rem)
        (rr_io_submit_timerfd_read_and_wait os (ctx tfd) tfd (os_expirations_addr os) (s\<lparr>world := w'\<rparr>)))"
      unfolding rr_io_submit_timerfd_read_and_wait_def
      by (rule ok_then_finish [OF ok_submit [OF 2 lp run]]) (simp_all add: ctx ok_nanosleep_finish lp)
    then show ?thesis using ok(1) ok2(1) rec_sys_active [OF assms(1)] by (simp add: nanosleep_def Let_def)
  qed
qed

lemma immediate_case: "(case p of (a, b) \<Rightarrow> immediate (f a b)) = immediate (case p of (a, b) \<Rightarrow> f a b)"
  by (cases p) simp

text \<open>Every intercepted function, in record mode.\<close>

lemma ok_do_call:
  assumes rs: "rec_sys os fl \<mu> hdr s" and ti: "thread_inv N s A" and lp: "log_private os fl" and run: "arunning A c"
  shows "ok_out (rec_sys os fl \<mu> hdr) N A c (do_call os k call s)"
proof -
  have act: "rr_active s" "\<not> rr_replay_active s" using rec_sys_active [OF rs] by simp_all
  have cur: "rr_scheduler_current (sch s) = Some c" and ctx: "ctx_ok (sch s) (CIo pt (Some c) k)" for pt
    using current_of_running [OF ti run] by (auto simp: rr_scheduler_current_def live_def)
  note sub = ok_then_finish [OF ok_submit [OF rs ti lp run ctx]]
  note imm = ok_immediate [OF ok_real_record [OF rs ti lp]] ok_immediate [OF ok_real_log [OF rs ti lp]]
    ok_immediate [OF ok_record_struct [OF rs ti lp]]
  note fin = ok_finish [OF _ _ lp, where pt = "PtRead fd buf" for fd buf, unfolded finish_def io_point.case]
    ok_finish [OF _ _ lp, where pt = "PtWrite fd" for fd, unfolded finish_def io_point.case]
    ok_finish [OF _ _ lp, where pt = "PtRecv fd buf" for fd buf, unfolded finish_def io_point.case]
    ok_finish [OF _ _ lp, where pt = "PtSend fd" for fd, unfolded finish_def io_point.case]
    ok_finish [OF _ _ lp, where pt = "PtAccept fd" for fd, unfolded finish_def io_point.case]
    ok_finish [OF _ _ lp, where pt = "PtConnect fd" for fd, unfolded finish_def io_point.case]
    ok_finish [OF _ _ lp, where pt = "PtOpenat fd" for fd, unfolded finish_def io_point.case]
    ok_finish [OF _ _ lp, where pt = "PtClose fd" for fd, unfolded finish_def io_point.case]
  show ?thesis
  proof (cases call)
    case (CRead fd buf n)
    then show ?thesis using act cur imm(2) sub [OF fin(1)] by (simp add: do_call_def read_def rr_io_submit_read_and_wait_def immediate_case)
  next
    case (CWrite fd buf n)
    then show ?thesis using act cur imm(2) sub [OF fin(2)] by (simp add: do_call_def write_fn_def rr_io_submit_write_and_wait_def immediate_case)
  next
    case (CRecv fd buf n fs)
    then show ?thesis using act cur sub [OF fin(3)] by (simp add: do_call_def recv_def rr_io_submit_recv_and_wait_def)
  next
    case (CSend fd buf n fs)
    then show ?thesis using act cur sub [OF fin(4)] by (simp add: do_call_def send_def rr_io_submit_send_and_wait_def)
  next
    case (CAccept fd a l)
    then show ?thesis using act cur sub [OF fin(5)] by (simp add: do_call_def accept_def rr_io_submit_accept_and_wait_def)
  next
    case (CConnect fd a l)
    then show ?thesis using act cur sub [OF fin(6)] by (simp add: do_call_def connect_def rr_io_submit_connect_and_wait_def)
  next
    case (COpenat d p fs m)
    then show ?thesis using act cur sub [OF fin(7)] by (simp add: do_call_def openat_def rr_io_submit_openat_and_wait_def Let_def)
  next
    case (CClose fd)
    then show ?thesis using act cur sub [OF fin(8)] by (simp add: do_call_def close_def rr_io_submit_close_and_wait_def)
  next
    case (CNanosleep req rem)
    then show ?thesis using cur ok_nanosleep [OF rs ti lp run ctx] by (simp add: do_call_def)
  next
    case (CGetcwd buf n)
    have "getcwd os buf n s = (case real_call os (CGetcwd buf n) 0 s of (rc, s) \<Rightarrow>
        if rr_active s then do { s \<leftarrow> rr_log_syscall os NR_getcwd (if rc \<noteq> 0 then 0 else - errno s) n (of_int rc)
          (if rc \<noteq> 0 then of_nat (strnlen (umem s) (of_int rc) (unat n)) else 0) s; Some (rc, s) } else Some (rc, s))"
      using act by (cases "real_call os (CGetcwd buf n) 0 s") (simp add: getcwd_def Let_def)
    then show ?thesis using CGetcwd imm(1) by (simp add: do_call_def)
  qed (use act imm in \<open>simp_all add: do_call_def clock_gettime_def gettimeofday_def getpid_def getuid_def uname_def
      stat_def fstat_def lstat_def stat_like_def\<close>)
qed

section \<open>The end of the process\<close>

lemma exit_durable:
  assumes rs: "rec_sys os fl \<mu> hdr s" and ti: "thread_inv N s A" and lp: "log_private os fl"
  shows "\<exists>s'. rr_shutdown os CDone s = Some s' \<and> fl (world s') = contents fl s"
proof -
  obtain ps where ps: "g_threads (sch s) = map Some ps" "distinct ps" "set ps = dom (ut_heap (sch s))"
    using thread_invD(3) [OF ti] by (auto simp: reg_ok_def)
  have act: "rr_active s" "\<not> mode_replay (cfg s)" and inv: "rec_inv os fl \<mu> s"
    using rs by (auto simp: rec_sys_def rr_active_def cfg_active_def rr_replay_active_def cfg_replay_active_def)
  show ?thesis using shutdown_durable [OF inv lp act, of ps CDone] ps thread_invD(5) [OF ti] by auto
qed

lemma ok_proc_exit:
  assumes rs: "rec_sys os fl \<mu> hdr s" and ti: "thread_inv N s A" and lp: "log_private os fl"
  shows "\<exists>s'. rr_shutdown os CDone s = Some s' \<and> complete_log fl hdr s'"
  using exit_durable [OF assms] rs by (auto simp: complete_log_def rec_sys_def event_log_def)

section \<open>The dispatcher\<close>

lemma rec_sys_sch: "rec_sys os fl \<mu> hdr s \<Longrightarrow> rec_sys os fl \<mu> hdr (s\<lparr>sch := x\<rparr>)"
  by (erule rec_sys_env) simp_all

lemma ok_wake:
  assumes rs: "rec_sys os fl \<mu> hdr s" and ti: "thread_inv N s A" and idle: "aidle A"
  shows "\<exists>s' A'. on_sched (rr_scheduler_wake_by_id i r None 0) s = Some s' \<and> rec_sys os fl \<mu> hdr s' \<and> thread_inv N s' A' \<and> aidle A'
    \<and> undispatched A A'"
proof (cases "\<exists>a. ids (sch s) a = Some i")
  case False
  then have "on_sched (rr_scheduler_wake_by_id i r None 0) s = Some s"
    using wake_unknown [OF thread_invD(3) [OF ti]] by (simp add: on_sched_def)
  then show ?thesis using assms undispatched_refl by blast
next
  case True
  then obtain a where a: "ids (sch s) a = Some i" by blast
  obtain x where x: "rr_scheduler_wake_by_id i r None 0 (sch s) = Some x" "refines x (spec_wake a A)"
    using wake_refines [OF thread_invD(3,1,2) [OF ti] a] by blast
  have "thread_inv N (s\<lparr>sch := x\<rparr>) (spec_wake a A)"
  proof (rule thread_inv_step [OF ti])
    show "ainv (spec_wake a A)" using ainv_wake [OF thread_invD(2) [OF ti]] .
    show "reg (sch (s\<lparr>sch := x\<rparr>)) = reg (sch s)" using reg_wake [OF x(1)] by simp
  qed (use x(2) ctxof_wake [OF x(1)] in \<open>auto simp: waits_def spec_wake_def split: if_splits\<close>)
  moreover have "aidle (spec_wake a A)" using idle by (simp add: aidle_def spec_wake_def)
  moreover have "a \<in> dom (ast A)" using a refinesD(3) [OF thread_invD(1) [OF ti], of a] by (auto simp: ids_def)
  then have "undispatched A (spec_wake a A)" using undispatched_step [OF astep.wake [OF idle]] by simp
  moreover have "on_sched (rr_scheduler_wake_by_id i r None 0) s = Some (s\<lparr>sch := x\<rparr>)" using x(1) by (simp add: on_sched_def)
  ultimately show ?thesis using rec_sys_sch [OF rs] by blast
qed

lemma log_signal_ok:
  assumes rs: "rec_sys os fl \<mu> hdr s" and i: "current_id s = Some i"
  obtains s' where "rr_log_signal os n a s = Some s'" "rec_sys os fl \<mu> hdr s'" "log_frame (snd (rr_next_seq s)) s'"
proof -
  obtain evs where evs: "event_log fl s hdr evs" using rs by (auto simp: rec_sys_def)
  have act: "rr_active s" and inv: "rec_inv os fl \<mu> s" using rs by (simp_all add: rec_sys_def)
  obtain s' where s': "rr_log_signal os n a s = Some s'" "rec_inv os fl \<mu> s'"
    "event_log fl s' hdr (evs @ [signal_event (of_nat (Suc (length evs))) i n a])" "log_frame (snd (rr_next_seq s)) s'"
    using log_signal_total [OF act inv evs i] by blast
  have "rec_sys os fl \<mu> hdr s'"
    using rs s'(2,3) log_frameD(1) [OF s'(4)] by (auto simp: rec_sys_def rr_active_def rr_replay_active_def rr_next_seq_frame)
  with s' that show ?thesis by blast
qed

lemma ok_signal:
  assumes rs: "rec_sys os fl \<mu> hdr s" and ti: "thread_inv N s A" and lp: "log_private os fl"
  shows "\<exists>e s'. rr_signal_process os s = Some (e, s') \<and>
    (case e of None \<Rightarrow> rec_sys os fl \<mu> hdr s' \<and> thread_inv N s' A | Some _ \<Rightarrow> complete_log fl hdr s')"
proof -
  obtain i where i: "current_id s = Some i" using current_id_defined [OF thread_invD(1,2) [OF ti]] by blast
  let ?n = "le_word (read_mem (umem s) (os_siginfo_addr os) 4) :: u32"
  obtain s1 where s1: "rr_log_signal os ?n (ucast i) s = Some s1" "rec_sys os fl \<mu> hdr s1" "log_frame (snd (rr_next_seq s)) s1"
    using log_signal_ok [OF rs i] by blast
  have t1: "thread_inv N s1 A" using thread_inv_cong log_frame_sch [OF s1(3)] ti by blast
  show ?thesis
  proof (cases "?n = SIGINT \<or> ?n = SIGTERM")
    case True
    have "rec_inv os fl \<mu> s1" using s1(2) by (simp add: rec_sys_def)
    then obtain s2 where s2: "rr_record_shutdown os s1 = Some s2" "fl (world s2) = contents fl s1"
      using record_shutdown_durable [OF _ lp] by blast
    then have "complete_log fl hdr s2" using s1(2) by (auto simp: complete_log_def rec_sys_def event_log_def)
    moreover have "rr_signal_process os s = Some (Some (Exited 0), s2)"
      using True s1(1) s2(1) i by (simp add: rr_signal_process_def Let_def)
    ultimately show ?thesis by auto
  next
    case False
    then have "rr_signal_process os s = Some (None, s1)" using s1(1) i by (simp add: rr_signal_process_def Let_def)
    then show ?thesis using s1(2) t1 by auto
  qed
qed

lemma signal_read_frame:
  "cfg (snd (rr_io_submit_signal_read os fd s)) = cfg s \<and> rcd (snd (rr_io_submit_signal_read os fd s)) = rcd s
   \<and> sch (snd (rr_io_submit_signal_read os fd s)) = sch s \<and> uth (snd (rr_io_submit_signal_read os fd s)) = uth s
   \<and> quiet os (world s) (world (snd (rr_io_submit_signal_read os fd s)))"
proof (cases "g_ring_ready (iou s)")
  case True
  obtain slot w where g: "os_get_sqe os (world s) = (slot, w)" by (cases "os_get_sqe os (world s)")
  have q: "quiet os (world s) w" using g by (rule quiet_calls)
  show ?thesis
  proof (cases slot)
    case None
    then show ?thesis using True g q by (simp add: rr_io_submit_signal_read_def kcall_def Let_def)
  next
    case (Some i)
    let ?sqe = "\<lparr>sq_op = SqRead fd (os_siginfo_addr os) (of_nat sizeof_siginfo) 0, sq_user_data = RR_SIGNAL_SENTINEL\<rparr>"
    obtain rc w' where s: "os_submit os (os_prep_sqe os i ?sqe w) = (rc, w')" by (cases "os_submit os (os_prep_sqe os i ?sqe w)")
    have "quiet os (os_prep_sqe os i ?sqe w) w'" using s by (rule quiet_calls)
    then have "quiet os (world s) w'" using quiet_trans [of os "world s" "os_prep_sqe os i ?sqe w" w'] q by simp
    then show ?thesis using True g s Some by (simp add: rr_io_submit_signal_read_def kcall_def kdo_def Let_def)
  qed
qed (simp add: rr_io_submit_signal_read_def)

lemma ok_same:
  assumes "rec_sys os fl \<mu> hdr s" and "thread_inv N s A" and "log_private os fl" and "cfg s' = cfg s" and "rcd s' = rcd s"
    and "sch s' = sch s" and "uth s' = uth s" and "quiet os (world s) (world s')"
  shows "rec_sys os fl \<mu> hdr s'" "thread_inv N s' A"
  using rec_sys_env [OF assms(1,4,5)] quietD [OF assms(8,3)] thread_inv_cong [OF assms(6,7)] assms(2) by simp_all

definition ok_sched where
  "ok_sched N os fl \<mu> hdr A e s \<longleftrightarrow> (case e of
       None \<Rightarrow> rec_sys os fl \<mu> hdr s \<and> (\<exists>B. undispatched A B \<and> thread_inv N s B \<and> aidle B) | Some _ \<Rightarrow> complete_log fl hdr s)"

lemma ok_schedI:
  "rec_sys os fl \<mu> hdr s \<Longrightarrow> thread_inv N s A \<Longrightarrow> aidle A \<Longrightarrow> ok_sched N os fl \<mu> hdr A None s"
  "complete_log fl hdr s \<Longrightarrow> ok_sched N os fl \<mu> hdr A (Some x) s"
  using undispatched_refl [of A] by (auto simp: ok_sched_def)

lemma ok_seen:
  assumes "rec_sys os fl \<mu> hdr s" and "thread_inv N s A" and "log_private os fl"
  shows "rec_sys os fl \<mu> hdr (kdo (os_cqe_seen os) s)" "thread_inv N (kdo (os_cqe_seen os) s) A"
  using ok_same [OF assms, of "kdo (os_cqe_seen os) s"] by (simp_all add: kdo_def)

text \<open>The completion of the read from the signal descriptor, and that of any other operation.\<close>

lemma ok_io_signal:
  assumes rs: "rec_sys os fl \<mu> hdr s" and ti: "thread_inv N s A" and idle: "aidle A" and lp: "log_private os fl"
  shows "\<exists>e s'. do {
      (ended, s) \<leftarrow> (if long then rr_signal_process os s else Some (None, s));
      case ended of Some e \<Rightarrow> Some ((0, Some e), s)
      | None \<Rightarrow>
          (let s = (if 0 \<le> g_signal_fd (iou s) then snd (rr_io_submit_signal_read os (g_signal_fd (iou s)) s) else s)
           in Some ((0, None), kdo (os_cqe_seen os) s))
    } = Some ((0 :: int, e), s') \<and> ok_sched N os fl \<mu> hdr A e s'"
proof -
  obtain e s2 where s2: "(if long then rr_signal_process os s else Some (None, s)) = Some (e, s2)"
    "case e of None \<Rightarrow> rec_sys os fl \<mu> hdr s2 \<and> thread_inv N s2 A | Some _ \<Rightarrow> complete_log fl hdr s2"
    using ok_signal [OF rs ti lp] rs ti by (cases long) auto
  show ?thesis
  proof (cases e)
    case (Some x)
    then show ?thesis using s2 by (auto intro: ok_schedI)
  next
    case None
    define s3 where "s3 = (if 0 \<le> g_signal_fd (iou s2) then snd (rr_io_submit_signal_read os (g_signal_fd (iou s2)) s2) else s2)"
    have "rec_sys os fl \<mu> hdr s3" "thread_inv N s3 A"
      using s2(2) None ok_same [of os fl \<mu> hdr s2 N A s3] lp signal_read_frame [of os "g_signal_fd (iou s2)" s2] by (auto simp: s3_def)
    then have "ok_sched N os fl \<mu> hdr A None (kdo (os_cqe_seen os) s3)" using ok_seen [OF _ _ lp] idle by (blast intro: ok_schedI)
    then show ?thesis using s2(1) None by (auto simp: s3_def Let_def)
  qed
qed

lemma ok_io_wake:
  assumes rs: "rec_sys os fl \<mu> hdr s" and ti: "thread_inv N s A" and idle: "aidle A" and lp: "log_private os fl"
  shows "\<exists>s'. on_sched (rr_scheduler_wake_by_id i r None 0) s = Some s' \<and> ok_sched N os fl \<mu> hdr A (None :: proc_end option) (kdo (os_cqe_seen os) s')"
proof -
  obtain s2 B where s2: "on_sched (rr_scheduler_wake_by_id i r None 0) s = Some s2"
    "rec_sys os fl \<mu> hdr s2" "thread_inv N s2 B" "aidle B" "undispatched A B"
    using ok_wake [OF rs ti idle] by blast
  then have "ok_sched N os fl \<mu> hdr A (None :: proc_end option) (kdo (os_cqe_seen os) s2)"
    using ok_seen [OF s2(2,3) lp] by (auto simp: ok_sched_def)
  then show ?thesis using s2(1) by blast
qed

lemma ok_io_wait:
  assumes rs: "rec_sys os fl \<mu> hdr s" and ti: "thread_inv N s A" and idle: "aidle A" and lp: "log_private os fl"
  shows "\<exists>rc e s'. rr_io_wait os s = Some ((rc, e), s') \<and> ok_sched N os fl \<mu> hdr A e s'"
proof (cases "g_ring_ready (iou s)")
  case False
  then show ?thesis using ok_env(9,10) [OF rs ti lp quiet_refl, of EINVAL] idle by (auto simp: rr_io_wait_def intro: ok_schedI)
next
  case ready: True
  obtain rc ocqe w where wt: "os_wait_cqe os (world s) = ((rc, ocqe), w)" by (cases "os_wait_cqe os (world s)") auto
  then have q: "quiet os (world s) w" by (rule quiet_calls)
  note 1 = ok_env(7,8) [OF rs ti lp q]
  show ?thesis
  proof (cases "sint rc < 0 \<or> ocqe = None")
    case True
    then show ?thesis using ready wt ok_env(9,10) [OF 1 lp quiet_refl, of "- rc"] idle
      by (auto simp: rr_io_wait_def kcall_def intro: ok_schedI)
  next
    case False
    then obtain cq where cq: "ocqe = Some cq" by auto
    define s1 where "s1 = s\<lparr>world := w, umem := apply_stores (cq_stores cq) (umem s)\<rparr>"
    have s1: "rec_sys os fl \<mu> hdr s1" "thread_inv N s1 A" using ok_env(11,12) [OF 1 lp quiet_refl] by (simp_all add: s1_def)
    note eq = rr_io_wait_def kcall_def wt ready cq s1_def Let_def
    show ?thesis
    proof (cases "cq_user_data cq = RR_SIGNAL_SENTINEL")
      case True
      obtain e s' where "rr_io_wait os s = Some ((0, e), s')" "ok_sched N os fl \<mu> hdr A e s'"
        using ok_io_signal [OF s1 idle lp, of "int sizeof_siginfo \<le> sint (cq_res cq)", unfolded s1_def] False True
        by (auto simp: eq simp del: bind_Some_conv)
      then show ?thesis by blast
    next
      case nsig: False
      obtain s' where "on_sched (rr_scheduler_wake_by_id (cq_user_data cq) (cq_res cq) None 0) s1 = Some s'"
        "ok_sched N os fl \<mu> hdr A (None :: proc_end option) (kdo (os_cqe_seen os) s')"
        using ok_io_wake [OF s1 idle lp] by blast
      moreover from this(1) have "rr_io_wait os s = Some ((0, None), kdo (os_cqe_seen os) s')" using False nsig by (simp add: eq)
      ultimately show ?thesis by blast
    qed
  qed
qed

lemma ok_note_switch:
  assumes rs: "rec_sys os fl \<mu> hdr s"
  shows "\<exists>s'. note_switch os i j s = Some (True, s') \<and> rec_sys os fl \<mu> hdr s' \<and> sch s' = sch s \<and> uth s' = uth s"
proof -
  obtain evs where evs: "event_log fl s hdr evs" using rs by (auto simp: rec_sys_def)
  have m: "mode_record (cfg s)" "\<not> rr_replay_active s" and inv: "rec_inv os fl \<mu> s"
    using rs by (simp_all add: rec_sys_def rr_active_def cfg_active_def)
  obtain s' where s': "note_switch os i j s = Some (True, s')" "rec_inv os fl \<mu> s'"
    "event_log fl s' hdr (evs @ switch_events (length evs) i j)" "s' = s \<or> log_frame (snd (rr_next_seq s)) s'"
    using note_switch_record [OF m inv evs] by blast
  have fr: "sch s' = sch s \<and> uth s' = uth s" "cfg s' = cfg s"
    using s'(4) log_frame_sch [of s s'] log_frameD(1) [of "snd (rr_next_seq s)" s'] by (auto simp: rr_next_seq_frame)
  then have "rec_sys os fl \<mu> hdr s'" using rs s'(2,3) by (auto simp: rec_sys_def rr_active_def rr_replay_active_def)
  with s'(1) fr show ?thesis by blast
qed

section \<open>Recording as a mode\<close>

definition rec_mode :: "'w os \<Rightarrow> ('w \<Rightarrow> u8 list) \<Rightarrow> ('w \<Rightarrow> nat) \<Rightarrow> u8 list \<Rightarrow> ('c, 'w) rr \<Rightarrow> bool" where
  "rec_mode os fl \<mu> hdr s \<longleftrightarrow> rec_sys os fl \<mu> hdr s \<and> log_private os fl \<and> alloc_ok os"

lemma rec_modeD: "rec_mode os fl \<mu> hdr s \<Longrightarrow> rec_sys os fl \<mu> hdr s" "rec_mode os fl \<mu> hdr s \<Longrightarrow> log_private os fl"
  "rec_mode os fl \<mu> hdr s \<Longrightarrow> alloc_ok os"
  by (simp_all add: rec_mode_def)

interpretation recm: run_mode "os :: 'w os" "rec_mode os fl \<mu> hdr :: ('u ctx, 'w) rr \<Rightarrow> bool" "\<lambda>e. complete_log fl hdr" "\<lambda>call. True"
proof
  fix s s' :: "('u ctx, 'w) rr" and N A
  assume m: "rec_mode os fl \<mu> hdr s"
  note d = rec_modeD [OF m]
  show "runtime_ready (cfg s)" using rec_sys_active [OF d(1)] by (simp add: rr_active_def cfg_active_def)
  show "alloc_ok os" by (rule d(3))
  show "\<exists>ok s'. note_switch os i j s = Some (ok, s')
    \<and> (if ok then rec_mode os fl \<mu> hdr s' \<and> sch s' = sch s \<and> uth s' = uth s else complete_log fl hdr s')" for i j
    using ok_note_switch [OF d(1), of i j] d(2,3) by (auto simp: rec_mode_def)
  show "rec_mode os fl \<mu> hdr s'" if "cfg s' = cfg s" "rcd s' = rcd s" "quiet os (world s) (world s')"
    using rec_sys_env [OF d(1) that(1,2) quietD [OF that(3) d(2)]] d(2,3) by (simp add: rec_mode_def)
  assume ti: "thread_inv N s A"
  show "ok_ret (rec_mode os fl \<mu> hdr) N A (finish os pt raw s)" for pt raw
    using ok_finish [OF d(1) ti d(2), of pt raw] d(2,3) by (auto simp: ok_ret_def rec_mode_def)
  show "\<exists>s'. rr_shutdown os CDone s = Some s' \<and> complete_log fl hdr s'" by (rule ok_proc_exit [OF d(1) ti d(2)])
  show "ok_out (rec_mode os fl \<mu> hdr) N A c (do_call os k call s)" if "arunning A c" for c k call
    using ok_do_call [OF d(1) ti d(2) that, of k call] d(2,3) by (auto simp: ok_out_def rec_mode_def)
  show "\<exists>rc e s'. rr_io_wait os s = Some ((rc, e), s') \<and> (case e of
      None \<Rightarrow> rec_mode os fl \<mu> hdr s' \<and> (\<exists>B. undispatched A B \<and> thread_inv N s' B \<and> aidle B) | Some e \<Rightarrow> complete_log fl hdr s')"
    if "aidle A"
    using ok_io_wait [OF d(1) ti that d(2)] d(2,3) by (fastforce simp: ok_sched_def rec_mode_def split: option.splits)
qed

section \<open>Every step is safe\<close>

abbreviation rec_at :: "nat \<Rightarrow> 'w os \<Rightarrow> ('w \<Rightarrow> u8 list) \<Rightarrow> ('w \<Rightarrow> nat) \<Rightarrow> u8 list \<Rightarrow> aspec \<Rightarrow> ('u, 'w) sys \<Rightarrow> bool" where
  "rec_at N os fl \<mu> hdr \<equiv> sys_at (rec_mode os fl \<mu> hdr) (\<lambda>e. complete_log fl hdr) N"

lemma sys_inv_at:
  "log_private os fl \<Longrightarrow> alloc_ok os \<Longrightarrow> sys_inv N os fl \<mu> hdr S \<longleftrightarrow> (\<exists>A. rec_at N os fl \<mu> hdr A S)"
  by (cases S) (auto simp: sys_inv_def sys_at_def rec_mode_def)

lemma sys_step_safe:
  assumes "sys_inv (Suc N) os fl \<mu> hdr S" and "log_private os fl" and "alloc_ok os"
  shows "\<exists>S'. sys_step os user start S = Some S' \<and> sys_inv N os fl \<mu> hdr S'"
  using assms(1) recm.step_refines [OF _ only_calls_True] unfolding sys_inv_at [OF assms(2,3)] sys_from_def by blast

lemma sys_run_safe:
  assumes "log_private os fl" and "alloc_ok os" and "sys_inv (n + N) os fl \<mu> hdr S"
  shows "\<exists>S'. sys_run os user start n S = Some S' \<and> sys_inv N os fl \<mu> hdr S'"
  using assms(3) recm.run_refines [OF only_calls_True] unfolding sys_inv_at [OF assms(1,2)] sys_from_def by blast

end
