(* ===== verification/RR_View.thy ===== *)
theory RR_View
  imports RR_State
begin

text \<open>
  What two runs of the library have to agree on for the program to see no difference: the scheduler
  state up to addresses of stacks and thread-local storage and the capacity of the registry, the process memory, \<^verbatim>\<open>errno\<close> and the
  next thread id. \<open>erase\<close> forgets those; every scheduler operation commutes with it, so
  it takes states with the same erasure to states with the same erasure.
\<close>

section \<open>Erasing addresses\<close>

definition erase_ut :: "'c uthread_t \<Rightarrow> 'c uthread_t" where
  "erase_ut u = u\<lparr>ut_stack := 0, ut_stack_size := 0, ut_tls_block := 0, ut_stack_map := 0, ut_stack_map_size := 0\<rparr>"

definition erase :: "'c sched \<Rightarrow> 'c sched" where
  "erase s = s\<lparr>ut_heap := (\<lambda>a. map_option erase_ut (ut_heap s a)), g_sched_stack := 0, g_threads_cap := 0\<rparr>"

lemma erase_ut_fields [simp]:
  "ut_id (erase_ut u) = ut_id u" "ut_state (erase_ut u) = ut_state u" "ut_ctx (erase_ut u) = ut_ctx u"
  "ut_join_waiter (erase_ut u) = ut_join_waiter u" "ut_retval (erase_ut u) = ut_retval u" "ut_next (erase_ut u) = ut_next u"
  "ut_io_result (erase_ut u) = ut_io_result u" "ut_io_data_len (erase_ut u) = ut_io_data_len u"
  "ut_io_data (erase_ut u) = ut_io_data u" "ut_start_fn (erase_ut u) = ut_start_fn u" "ut_start_arg (erase_ut u) = ut_start_arg u"
  by (simp_all add: erase_ut_def)

lemma erase_fields [simp]:
  "ut_brk (erase s) = ut_brk s" "g_runq_head (erase s) = g_runq_head s" "g_runq_tail (erase s) = g_runq_tail s"
  "g_current (erase s) = g_current s" "g_sched_running (erase s) = g_sched_running s" "g_threads (erase s) = g_threads s"
  "ut_heap (erase s) a = map_option erase_ut (ut_heap s a)"
  by (simp_all add: erase_def)

lemma deref_erase: "deref (erase s) p = map_option erase_ut (deref s p)"
  by (cases p) simp_all

lemma erase_upd_fields [simp]:
  "(erase s)\<lparr>g_runq_head := p\<rparr> = erase (s\<lparr>g_runq_head := p\<rparr>)" "(erase s)\<lparr>g_runq_tail := p\<rparr> = erase (s\<lparr>g_runq_tail := p\<rparr>)"
  "(erase s)\<lparr>g_current := p\<rparr> = erase (s\<lparr>g_current := p\<rparr>)"
  "erase (s\<lparr>ut_heap := h, g_runq_head := p\<rparr>) = (erase (s\<lparr>ut_heap := h\<rparr>))\<lparr>g_runq_head := p\<rparr>"
  by (simp_all add: erase_def)

section \<open>Operations that commute with erasure\<close>

text \<open>Such an operation does the same on states with the same erasure.\<close>

lemma transfer:
  assumes "\<And>s. f (erase s) = map_option erase (f s)" and "erase s = erase t" and "f s = Some s'"
  shows "\<exists>t'. f t = Some t' \<and> erase s' = erase t'"
  using assms(1) [of s] assms(1) [of t] assms(2,3) by (cases "f t") auto

lemma transfer_ret:
  assumes "\<And>s. f (erase s) = map_option (map_prod id erase) (f s)" and "erase s = erase t" and "f s = Some (r, s')"
  shows "\<exists>t'. f t = Some (r, t') \<and> erase s' = erase t'"
  using assms(1) [of s] assms(1) [of t] assms(2,3) by (cases "f t") auto

lemma ut_upd_erase:
  assumes "\<And>u. f (erase_ut u) = erase_ut (f u)"
  shows "ut_upd p f (erase s) = map_option erase (ut_upd p f s)"
  using assms by (auto simp: ut_upd_def erase_def fun_eq_iff split: option.split)

lemma bind_map_option: "Option.bind (map_option g m) f = Option.bind m (\<lambda>x. f (g x))"
  by (cases m) auto

lemma map_option_bind: "map_option g (Option.bind m f) = Option.bind m (\<lambda>x. map_option g (f x))"
  by (cases m) auto

lemmas blind_simps = bind_map_option map_option_bind Let_def if_distrib [of "map_option g" for g] deref_erase

lemma set_next_erase: "ut_upd p (ut_next_update (\<lambda>_. q)) (erase s) = map_option erase (ut_upd p (ut_next_update (\<lambda>_. q)) s)"
  by (rule ut_upd_erase) (simp add: erase_ut_def)

lemma set_state_erase: "ut_upd p (ut_state_update (\<lambda>_. q)) (erase s) = map_option erase (ut_upd p (ut_state_update (\<lambda>_. q)) s)"
  by (rule ut_upd_erase) (simp add: erase_ut_def)

lemma set_ctx_erase: "ut_upd p (ut_ctx_update (\<lambda>_. q)) (erase s) = map_option erase (ut_upd p (ut_ctx_update (\<lambda>_. q)) s)"
  by (rule ut_upd_erase) (simp add: erase_ut_def)

lemma set_done_erase:
  "ut_upd p (\<lambda>u. u\<lparr>ut_retval := v, ut_state := q\<rparr>) (erase s) = map_option erase (ut_upd p (\<lambda>u. u\<lparr>ut_retval := v, ut_state := q\<rparr>) s)"
  by (rule ut_upd_erase) (simp add: erase_ut_def)

lemma set_waiter_erase:
  "ut_upd p (ut_join_waiter_update (\<lambda>_. q)) (erase s) = map_option erase (ut_upd p (ut_join_waiter_update (\<lambda>_. q)) s)"
  by (rule ut_upd_erase) (simp add: erase_ut_def)

lemma if_erase: "(if b then erase x else erase y) = erase (if b then x else y)"
  by simp

lemmas upd_erase = set_next_erase set_state_erase set_ctx_erase set_done_erase set_waiter_erase

lemma enqueue_erase: "rr_scheduler_enqueue p (erase s) = map_option erase (rr_scheduler_enqueue p s)"
  unfolding rr_scheduler_enqueue_def
  by (simp add: blind_simps upd_erase cong: if_cong)

lemma pop_erase: "runq_pop_front (erase s) = map_option (map_prod id erase) (runq_pop_front s)"
  unfolding runq_pop_front_def
  by (simp add: blind_simps upd_erase if_erase cong: if_cong)

lemma yield_erase: "rr_scheduler_yield_current c (erase s) = map_option (map_prod id erase) (rr_scheduler_yield_current c s)"
  unfolding rr_scheduler_yield_current_def
  by (simp add: blind_simps upd_erase enqueue_erase cong: if_cong)

lemma block_erase: "rr_scheduler_block_current c (erase s) = map_option (map_prod id erase) (rr_scheduler_block_current c s)"
  unfolding rr_scheduler_block_current_def
  by (simp add: blind_simps upd_erase cong: if_cong)

lemma wake_joiner_erase: "wake_joiner p (erase s) = map_option erase (wake_joiner p s)"
  unfolding wake_joiner_def by (simp add: blind_simps upd_erase enqueue_erase cong: if_cong)

lemma exit_erase: "rr_scheduler_exit_current c v (erase s) = map_option (map_prod id erase) (rr_scheduler_exit_current c v s)"
  unfolding rr_scheduler_exit_current_def
  by (simp add: blind_simps upd_erase wake_joiner_erase cong: if_cong)

lemma make_current_erase: "make_current p (erase s) = map_option erase (make_current p s)"
  by (simp add: make_current_def rr_scheduler_set_current_def upd_erase)

lemma find_from_erase: "find_from (erase s) i ps = find_from s i ps"
  by (induction s i ps rule: find_from.induct) (auto split: option.split)

lemma find_erase: "rr_scheduler_find i (erase s) = rr_scheduler_find i s"
  by (simp add: rr_scheduler_find_def find_from_erase)

section \<open>States that look the same to the program\<close>

definition same_view :: "('c, 'w) rr \<Rightarrow> ('c, 'v) rr \<Rightarrow> bool" where
  "same_view s t \<longleftrightarrow> erase (sch s) = erase (sch t) \<and> umem s = umem t \<and> errno s = errno t
     \<and> g_next_id (uth s) = g_next_id (uth t)"

lemma same_viewD:
  assumes "same_view s t"
  shows "erase (sch s) = erase (sch t)" "umem t = umem s" "errno t = errno s" "g_next_id (uth t) = g_next_id (uth s)"
  using assms by (simp_all add: same_view_def)

lemma erase_eqD:
  assumes "erase x = erase y"
  shows "ut_brk y = ut_brk x" "g_runq_head y = g_runq_head x" "g_current y = g_current x"
    "g_sched_running y = g_sched_running x" "g_threads y = g_threads x"
    "map_option erase_ut (ut_heap y a) = map_option erase_ut (ut_heap x a)" "rr_scheduler_find i y = rr_scheduler_find i x"
  using arg_cong [OF assms, of ut_brk] arg_cong [OF assms, of g_runq_head] arg_cong [OF assms, of g_current]
    arg_cong [OF assms, of g_sched_running] arg_cong [OF assms, of g_threads]
    arg_cong [OF assms, of "\<lambda>s. ut_heap s a"] arg_cong [OF assms, of "rr_scheduler_find i"]
  by (simp_all add: find_erase)

lemma erase_lookup:
  assumes "erase x = erase y" and "ut_heap x a = Some u"
  obtains v where "ut_heap y a = Some v" "erase_ut v = erase_ut u"
  using erase_eqD(6) [OF assms(1), of a] assms(2) by auto

lemma erase_ut_eqD:
  assumes "erase_ut v = erase_ut u"
  shows "ut_id v = ut_id u" "ut_state v = ut_state u" "ut_ctx v = ut_ctx u" "ut_join_waiter v = ut_join_waiter u"
    "ut_retval v = ut_retval u" "ut_io_result v = ut_io_result u" "ut_start_fn v = ut_start_fn u" "ut_start_arg v = ut_start_arg u"
  using arg_cong [OF assms, of ut_id] arg_cong [OF assms, of ut_state] arg_cong [OF assms, of ut_ctx]
    arg_cong [OF assms, of ut_join_waiter] arg_cong [OF assms, of ut_retval] arg_cong [OF assms, of ut_io_result]
    arg_cong [OF assms, of ut_start_fn] arg_cong [OF assms, of ut_start_arg]
  by simp_all

lemma current_id_erase:
  assumes "erase (sch s) = erase (sch t)"
  shows "current_id t = current_id s"
proof -
  have "map_option ut_id (ut_heap (sch t) a) = map_option ut_id (ut_heap (sch s) a)" for a
    using arg_cong [OF erase_eqD(6) [OF assms, of a], of "map_option ut_id"] by (simp add: option.map_comp comp_def)
  then show ?thesis
    using erase_eqD(3) [OF assms] by (simp add: current_id_def rr_scheduler_current_def split: option.split)
qed

end
