(* ===== verification/RR_Replayable.thy ===== *)
theory RR_Replayable
  imports RR_Syscalls RR_View RR_Demo
begin

text \<open>
  Record, then replay: for the wrappers that return at once, what was logged while recording makes
  the replayed call return the same value, with the same \<^verbatim>\<open>errno\<close> and the same effect on
  memory. The locale \<open>replayable\<close> is this contract between the two modes of a wrapper, and it
  is interpreted on the wrappers whose results fit into an event.
\<close>

section \<open>Uninterrupted log access keeps errno\<close>

abbreviation never :: "'w \<Rightarrow> nat" where "never \<equiv> \<lambda>_. 0"

lemma write_loop_quiet:
  assumes ok: "write_ok os fd fl never"
  shows "written \<le> length bs \<Longrightarrow> \<exists>w'. write_loop os fd bs written err w = Some (0, err, w')"
proof (induction "length bs - written" arbitrary: written w rule: less_induct)
  case less
  show ?case
  proof (cases "written < length bs")
    case False
    then show ?thesis by (simp add: write_loop.simps)
  next
    case True
    then have ne: "drop written bs \<noteq> []" by simp
    from ok ne show ?thesis
    proof (cases rule: write_ok_cases [where w = w])
      case (wrote n w')
      have "length bs - (written + n) < length bs - written" "written + n \<le> length bs" using wrote(2,3) True by auto
      from less.hyps [OF this, of w'] show ?thesis using wrote True by (simp add: write_loop.simps [of os fd bs written err w])
    qed simp
  qed
qed

lemma write_direct_quiet:
  "write_ok os (g_log_fd (rcd s)) fl never \<Longrightarrow> rr_write_direct os bs s = Some (rc, s') \<Longrightarrow> errno s' = errno s"
  using write_loop_quiet [of os "g_log_fd (rcd s)" fl 0 bs "errno s" "world s"] by (auto simp: rr_write_direct_def)

lemma flush_quiet:
  assumes inv: "rec_inv os fl never s" and f: "rr_record_flush os s = Some s'"
  shows "errno s' = errno s"
proof -
  have ok: "write_ok os (g_log_fd (rcd s)) fl never" using inv by (simp add: rec_inv_def)
  obtain w where w: "rr_write_direct os (ring_bytes (rcd s)) s = Some (0, s\<lparr>errno := errno s, world := w\<rparr>)"
    using write_loop_quiet [OF ok, of 0 "ring_bytes (rcd s)" "errno s" "world s"] by (auto simp: rr_write_direct_def)
  then show ?thesis using f by (auto simp: rr_record_flush_def split: if_splits)
qed

lemma append_quiet:
  assumes inv: "rec_inv os fl never s" and len: "length e \<le> RR_LOG_RING_SIZE" and a: "rr_record_append os e s = Some s'"
  shows "errno s' = errno s"
proof -
  have "g_ring (rcd s) \<noteq> None" using inv by (simp add: rec_inv_def)
  from a [unfolded append_cases [OF this len]] show ?thesis
    using flush_quiet [OF inv] by (auto split: if_splits)
qed

lemma rec_inv_next_seq: "rec_inv os fl \<mu> (snd (rr_next_seq s)) = rec_inv os fl \<mu> s"
  by (simp add: rr_next_seq_def rec_inv_def Let_def)

lemma errno_next_seq: "errno (snd (rr_next_seq s)) = errno s"
  by (simp add: rr_next_seq_def Let_def)

lemma append_event_quiet:
  assumes "rec_inv os fl never s" and "rr_record_append os (enc_event ev) (snd (rr_next_seq s)) = Some s'"
  shows "errno s' = errno s"
  using append_quiet [OF _ _ assms(2)] assms(1) sizeof_event_ring by (simp add: rec_inv_next_seq errno_next_seq)

lemma log_syscall_quiet:
  "rec_inv os fl never s \<Longrightarrow> rr_log_syscall os nr r a0 d l s = Some s' \<Longrightarrow> errno s' = errno s"
  by (auto simp: rr_log_syscall_def case_prod_beta dest: append_event_quiet split: if_splits)

lemma log_sched_quiet:
  "rec_inv os fl never s \<Longrightarrow> rr_log_sched os f t s = Some s' \<Longrightarrow> errno s' = errno s"
  by (auto simp: rr_log_sched_def case_prod_beta dest: append_event_quiet split: if_splits)

lemma read_loop_quiet:
  assumes ok: "read_ok os fd rest never"
  shows "length got \<le> len \<Longrightarrow> \<exists>rc bs w'. read_loop os fd len got err w = Some (rc, bs, err, w')"
proof (induction "len - length got" arbitrary: got w rule: less_induct)
  case less
  show ?case
  proof (cases "length got < len")
    case False
    then show ?thesis by (simp add: read_loop.simps)
  next
    case True
    then have pos: "0 < len - length got" by simp
    from ok pos show ?thesis
    proof (cases rule: read_ok_cases [where w = w])
      case (got bs w')
      show ?thesis
      proof (cases "bs = []")
        case True
        then show ?thesis using got \<open>length got < len\<close> by (simp add: read_loop.simps [of os fd len got err w])
      next
        case False
        then have "len - length (got @ bs) < len - length got" "length (got @ bs) \<le> len"
          using got(2) \<open>length got < len\<close> by (cases bs, auto)+
        from less.hyps [OF this, of w'] show ?thesis
          using got False \<open>length got < len\<close> by (simp add: read_loop.simps [of os fd len got err w])
      qed
    qed simp
  qed
qed

lemma next_event_quiet:
  assumes log: "replay_log os rest never s evs" and n: "rr_replay_next_event os s = Some (Some ev, s')"
  shows "errno s' = errno s"
proof -
  have "read_ok os (g_replay_fd (rpl s)) rest never" using log by (simp add: replay_log_def)
  from read_loop_quiet [OF this, of "[]" sizeof_event "errno s" "world s"]
  obtain rc bs w where "rr_read_full os (g_replay_fd (rpl s)) sizeof_event s = Some ((rc, bs), s\<lparr>errno := errno s, world := w\<rparr>)"
    by (auto simp: rr_read_full_def)
  then show ?thesis using n by (auto simp: rr_replay_next_event_def Let_def split: if_splits)
qed

section \<open>Recording and replaying states\<close>

definition recording :: "'w os \<Rightarrow> ('w \<Rightarrow> u8 list) \<Rightarrow> u8 list \<Rightarrow> ('c, 'w) rr \<Rightarrow> rr_event_t list \<Rightarrow> bool" where
  "recording os fl hdr s evs \<longleftrightarrow> rr_active s \<and> \<not> rr_replay_active s \<and> rec_inv os fl never s
     \<and> event_log fl s hdr evs \<and> current_id s \<noteq> None"

definition replaying :: "'w os \<Rightarrow> ('w \<Rightarrow> u8 list) \<Rightarrow> ('c, 'w) rr \<Rightarrow> rr_event_t list \<Rightarrow> bool" where
  "replaying os rest t evs \<longleftrightarrow> \<not> rr_active t \<and> rr_replay_active t \<and> replay_time_virtual (cfg t)
     \<and> replay_log os rest never t evs"

text \<open>Two states that differ in the log, its buffer and the world only.\<close>

definition log_only :: "('c, 'w) rr \<Rightarrow> ('c, 'w) rr \<Rightarrow> bool" where
  "log_only s s' \<longleftrightarrow> cfg s' = cfg s \<and> sch s' = sch s \<and> iou s' = iou s \<and> sigs s' = sigs s \<and> uth s' = uth s
     \<and> umem s' = umem s \<and> errno s' = errno s"

lemma log_onlyD:
  assumes "log_only s s'"
  shows "cfg s' = cfg s" "sch s' = sch s" "iou s' = iou s" "sigs s' = sigs s" "uth s' = uth s" "umem s' = umem s" "errno s' = errno s"
  using assms by (simp_all add: log_only_def)

lemma log_only_view1: "log_only s s' \<Longrightarrow> same_view s' t = same_view s t"
  by (simp add: same_view_def log_only_def)

lemma log_only_view2: "log_only t t' \<Longrightarrow> same_view s t' = same_view s t"
  by (simp add: same_view_def log_only_def)

lemma current_id_sch: "sch s' = sch s \<Longrightarrow> current_id s' = current_id s"
  by (simp add: current_id_def split: option.split)

lemma log_frame_only:
  assumes "log_frame (snd (rr_next_seq s)) s'" and "errno s' = errno s"
  shows "log_only s s'"
  using log_frameD [OF assms(1)] assms(2) by (simp add: log_only_def rr_next_seq_def Let_def)

lemma recording_after_log:
  assumes r: "recording os fl hdr s evs" and o: "log_only s s'" and inv: "rec_inv os fl never s'" and log: "event_log fl s' hdr evs'"
  shows "recording os fl hdr s' evs'"
  using r log_onlyD(1) [OF o] current_id_sch [OF log_onlyD(2) [OF o]] inv log
  by (simp add: recording_def rr_active_def rr_replay_active_def)

lemma recording_log:
  assumes r: "recording os fl hdr s evs" and i: "current_id s = Some utid"
  shows "\<exists>s'. rr_log_syscall os nr ret a0 d l s = Some s'
    \<and> recording os fl hdr s' (evs @ [syscall_event (of_nat (Suc (length evs))) utid nr ret a0 (logged_data (umem s) d l)])
    \<and> log_only s s'"
proof -
  have act: "rr_active s" and inv: "rec_inv os fl never s" and log: "event_log fl s hdr evs"
    using r by (simp_all add: recording_def)
  obtain s' where s': "rr_log_syscall os nr ret a0 d l s = Some s'" "rec_inv os fl never s'"
    "event_log fl s' hdr (evs @ [syscall_event (of_nat (Suc (length evs))) utid nr ret a0 (logged_data (umem s) d l)])"
    "log_frame (snd (rr_next_seq s)) s'"
    using log_syscall_total [OF act inv log i] by blast
  have "log_only s s'" using s'(4) log_syscall_quiet [OF inv s'(1)] by (rule log_frame_only)
  with s' recording_after_log [OF r] show ?thesis by blast
qed

text \<open>A call of the environment that leaves the log file alone.\<close>

lemma recording_world:
  assumes "recording os fl hdr s evs" and "fl w = fl (world s)"
  shows "recording os fl hdr (s\<lparr>errno := e, umem := m, world := w\<rparr>) evs"
  using assms by (simp add: recording_def rr_active_def rr_replay_active_def rec_inv_def event_log_def contents_def current_id_def
      split: option.splits)

lemma recording_world2:
  assumes "recording os fl hdr s evs" and "fl w = fl (world s)"
  shows "recording os fl hdr (s\<lparr>umem := m, world := w\<rparr>) evs"
  using recording_world [where e = "errno s", OF assms] by simp

lemma replaying_event:
  assumes r: "replaying os rest t (ev # es)" and m: "matches_syscall nr utid ev p" and i: "current_id t = Some utid"
  shows "\<exists>t'. replay_get_event os nr t = Some (Some (copy_out ev p), t') \<and> replaying os rest t' es \<and> log_only t t'"
proof -
  have log: "replay_log os rest never t (ev # es)" using r by (simp add: replaying_def)
  obtain t' where t': "rr_replay_next_event os t = Some (Some ev, t')" "replay_log os rest never t' es" "replay_frame t t'"
    using next_event_Cons [OF log] by blast
  have "rr_replay_next_syscall os nr utid t = Some (Some (copy_out ev p), t')"
    using t'(1) m log by (simp add: rr_replay_next_syscall_def matches_syscall_def replay_log_def)
  moreover have "log_only t t'"
    using replay_frameD [OF t'(3)] next_event_quiet [OF log t'(1)] by (simp add: log_only_def)
  moreover have "replaying os rest t' es"
    using r t'(2) replay_frameD(1) [OF t'(3)] by (simp add: replaying_def rr_active_def rr_replay_active_def)
  ultimately show ?thesis using i by (simp add: replay_get_event_def)
qed

text \<open>The event that recording logs is the one that the replayed call of the same thread expects, and its
  data come back.\<close>

definition sc_payload :: "i32 \<Rightarrow> i32 \<Rightarrow> u64 \<Rightarrow> u8 list \<Rightarrow> syscall_payload" where
  "sc_payload nr ret a0 bs = \<lparr> sc_nr = nr, sc_retval = ret, sc_arg0 = a0, sc_data = pad sizeof_data bs,
     sc_data_len = of_nat (length bs) \<rparr>"

lemma matches_logged: "matches_syscall nr utid (syscall_event sq utid nr ret a0 bs) (sc_payload nr ret a0 bs)"
  by (simp add: matches_syscall_def syscall_event_def sc_payload_def)

lemma copy_out_logged:
  assumes "length bs \<le> 64"
  shows "re_retval (copy_out ev (sc_payload nr ret a0 bs)) = ret"
    "unat (re_data_len (copy_out ev (sc_payload nr ret a0 bs))) = length bs"
    "k \<le> length bs \<Longrightarrow> take k (re_data (copy_out ev (sc_payload nr ret a0 bs))) = take k bs"
  using assms by (simp_all add: copy_out_def sc_payload_def sizeofs Let_def pad_def unat_of_nat)

lemma length_logged_data: "length (logged_data m d l) \<le> 64"
  by (simp add: logged_data_def sizeofs Let_def)

lemmas replaying_logged = replaying_event [OF _ matches_logged]

section \<open>The contract between the two modes\<close>

primrec call_n :: "('s \<Rightarrow> (int \<times> 's) option) \<Rightarrow> nat \<Rightarrow> 's \<Rightarrow> (int list \<times> 's) option" where
  "call_n f 0 s = Some ([], s)"
| "call_n f (Suc n) s = do { (v, s) \<leftarrow> f s; (vs, s) \<leftarrow> call_n f n s; Some (v # vs, s) }"

locale replayable =
  fixes rec_call :: "'s \<Rightarrow> (int \<times> 's) option"
    and rep_call :: "'t \<Rightarrow> (int \<times> 't) option"
    and logged :: "'s \<Rightarrow> rr_event_t list \<Rightarrow> bool"
    and pending :: "'t \<Rightarrow> rr_event_t list \<Rightarrow> bool"
    and same :: "'s \<Rightarrow> 't \<Rightarrow> bool"
  assumes faithful: "logged s evs \<Longrightarrow>
      \<exists>v s' ev. rec_call s = Some (v, s') \<and> logged s' (evs @ [ev])
        \<and> (\<forall>t es. same s t \<longrightarrow> pending t (ev # es) \<longrightarrow> (\<exists>t'. rep_call t = Some (v, t') \<and> pending t' es \<and> same s' t'))"
begin

lemma faithful_n:
  "logged s evs \<Longrightarrow>
   \<exists>vs s' new. call_n rec_call n s = Some (vs, s') \<and> logged s' (evs @ new) \<and> length new = n
     \<and> (\<forall>t es. same s t \<longrightarrow> pending t (new @ es) \<longrightarrow>
          (\<exists>t'. call_n rep_call n t = Some (vs, t') \<and> pending t' es \<and> same s' t'))"
proof (induction n arbitrary: s evs)
  case 0
  then show ?case by auto
next
  case (Suc n)
  obtain v s1 ev where 1: "rec_call s = Some (v, s1)" "logged s1 (evs @ [ev])"
    "\<And>t es. same s t \<Longrightarrow> pending t (ev # es) \<Longrightarrow> \<exists>t'. rep_call t = Some (v, t') \<and> pending t' es \<and> same s1 t'"
    using faithful [OF Suc.prems] by blast
  obtain vs s2 new where 2: "call_n rec_call n s1 = Some (vs, s2)" "logged s2 ((evs @ [ev]) @ new)" "length new = n"
    "\<And>t es. same s1 t \<Longrightarrow> pending t (new @ es) \<Longrightarrow> \<exists>t'. call_n rep_call n t = Some (vs, t') \<and> pending t' es \<and> same s2 t'"
    using Suc.IH [OF 1(2)] by blast
  have "\<exists>t'. call_n rep_call (Suc n) t = Some (v # vs, t') \<and> pending t' es \<and> same s2 t'"
    if "same s t" "pending t ((ev # new) @ es)" for t es
    using 1(3) [of t "new @ es"] 2(4) [of _ es] that by fastforce
  then show ?case using 1(1) 2(1-3) by (intro exI [of _ "v # vs"] exI [of _ s2] exI [of _ "ev # new"]) simp
qed

end

section \<open>Wrappers that fill a struct\<close>

text \<open>What the manual promises of the libc function: it fails with a positive error number and no effect
  on memory, or returns 0 and fills the \<open>sz\<close> bytes at \<open>p\<close>. It does not touch the log file.\<close>

definition real_struct :: "'w os \<Rightarrow> ('w \<Rightarrow> u8 list) \<Rightarrow> libc_call \<Rightarrow> u64 \<Rightarrow> nat \<Rightarrow> bool" where
  "real_struct os fl call p sz \<longleftrightarrow> (\<forall>m w. case os_real os call m w of
       (Inl e, m', w') \<Rightarrow> 0 < sint e \<and> m' = m \<and> fl w' = fl w
     | (Inr v, m', w') \<Rightarrow> v = 0 \<and> fl w' = fl w \<and> (\<exists>bs. length bs = sz \<and> m' = write_mem p bs m))"

lemma neg_i32: "0 < sint (e :: i32) \<Longrightarrow> sint (- e) < 0"
proof -
  assume "0 < sint e"
  moreover have "sint e < 2 ^ 31" using sint_lt [of e] by simp
  ultimately have "signed_take_bit 31 (- sint e) = - sint e"
    by (intro signed_take_bit_int_eq_self) simp_all
  then show ?thesis using \<open>0 < sint e\<close> sint_word_ariths(4) [of e] by simp
qed

lemma real_struct_cases:
  assumes "real_struct os fl call p sz"
  obtains (fail) e w where "real_call os call (-1) s = (-1, s\<lparr>errno := e, umem := umem s, world := w\<rparr>)" "0 < sint e" "fl w = fl (world s)"
  | (ok) bs w where "real_call os call (-1) s = (0, s\<lparr>umem := write_mem p bs (umem s), world := w\<rparr>)" "length bs = sz" "fl w = fl (world s)"
proof -
  obtain r m w where r: "os_real os call (umem s) (world s) = (r, m, w)" by (cases "os_real os call (umem s) (world s)")
  from assms [unfolded real_struct_def, rule_format, of "umem s" "world s"] show ?thesis
    using r fail ok by (cases r) (auto simp: real_call_def)
qed

definition struct_replay :: "'w os \<Rightarrow> i32 \<Rightarrow> u64 \<Rightarrow> nat \<Rightarrow> ('c, 'w) rr \<Rightarrow> (int \<times> ('c, 'w) rr) option" where
  "struct_replay os nr p sz t = do {
     (oev, t) \<leftarrow> replay_get_event os nr t;
     case oev of None \<Rightarrow> Some (-1, t) | Some ev \<Rightarrow> fill_struct p sz ev t }"

lemma fill_fail:
  assumes "0 < sint e"
  shows "fill_struct p sz (copy_out ev (sc_payload nr (- e) a0 [])) t = Some (-1, t\<lparr>errno := e\<rparr>)"
  using neg_i32 [OF assms] by (simp add: fill_struct_def copy_out_logged raw_to_int_def)

lemma fill_ok:
  assumes "length bs \<le> 64" and "length bs \<le> sz" and "p \<noteq> 0"
  shows "fill_struct p sz (copy_out ev (sc_payload nr 0 a0 bs)) t = Some (0, t\<lparr>umem := write_mem p bs (umem t)\<rparr>)"
  using assms by (simp add: fill_struct_def copy_out_logged raw_to_int_def copy_to_def memcpy_def Let_def)

lemma struct_replay_fail:
  assumes r: "replaying os rest t (syscall_event sq utid nr (- e) a0 [] # es)" and i: "current_id t = Some utid" and e: "0 < sint e"
  shows "\<exists>t'. struct_replay os nr p sz t = Some (-1, t') \<and> replaying os rest t' es
    \<and> sch t' = sch t \<and> uth t' = uth t \<and> umem t' = umem t \<and> errno t' = e"
proof -
  obtain t1 where t1: "replay_get_event os nr t = Some (Some (copy_out (syscall_event sq utid nr (- e) a0 []) (sc_payload nr (- e) a0 [])), t1)"
    "replaying os rest t1 es" "log_only t t1"
    using replaying_logged [OF r i] by blast
  have "replaying os rest (t1\<lparr>errno := e\<rparr>) es"
    using t1(2) by (simp add: replaying_def replay_log_def rr_active_def rr_replay_active_def)
  then show ?thesis using t1(1) log_onlyD [OF t1(3)] by (simp add: struct_replay_def fill_fail [OF e])
qed

lemma struct_replay_ok:
  assumes r: "replaying os rest t (syscall_event sq utid nr 0 a0 bs # es)" and i: "current_id t = Some utid"
    and len: "length bs \<le> 64" "length bs \<le> sz" and p: "p \<noteq> 0"
  shows "\<exists>t'. struct_replay os nr p sz t = Some (0, t') \<and> replaying os rest t' es
    \<and> sch t' = sch t \<and> uth t' = uth t \<and> umem t' = write_mem p bs (umem t) \<and> errno t' = errno t"
proof -
  obtain t1 where t1: "replay_get_event os nr t = Some (Some (copy_out (syscall_event sq utid nr 0 a0 bs) (sc_payload nr 0 a0 bs)), t1)"
    "replaying os rest t1 es" "log_only t t1"
    using replaying_logged [OF r i] by blast
  have "replaying os rest (t1\<lparr>umem := write_mem p bs (umem t1)\<rparr>) es"
    using t1(2) by (simp add: replaying_def replay_log_def rr_active_def rr_replay_active_def)
  then show ?thesis using t1(1) log_onlyD [OF t1(3)] by (simp add: struct_replay_def fill_ok [OF len p])
qed

lemma recording_active: "recording os fl hdr s evs \<Longrightarrow> rr_active s \<and> \<not> rr_replay_active s"
  by (simp add: recording_def)

lemma logged_struct:
  assumes "length bs = sz" and "0 < sz" and "sz < 2 ^ 32" and "p \<noteq> 0"
  shows "logged_data (write_mem p bs m) p (of_nat sz) = take 64 bs"
proof -
  have u: "unat (of_nat sz :: u32) = sz" using assms(3) by (simp add: unat_of_nat)
  then have pos: "0 < (of_nat sz :: u32)" using assms(2) by (simp add: word_less_nat_alt)
  have "read_mem (write_mem p bs m) p k = take k bs" if "k \<le> sz" for k
    using read_write_mem [of bs p m] take_read_mem [of k sz "write_mem p bs m" p] assms(1,3) that by simp
  then show ?thesis using pos u assms(1,4) by (simp add: logged_data_def sizeofs Let_def)
qed

lemma record_struct_logs:
  assumes r: "recording os fl hdr s evs" and i: "current_id s = Some utid" and rs: "real_struct os fl call p sz"
    and p: "p \<noteq> 0" and sz: "0 < sz" "sz < 2 ^ 32"
  shows "\<exists>v s' ret bs. record_struct os call nr a0 p sz s = Some (v, s') \<and> sch s' = sch s \<and> uth s' = uth s
    \<and> recording os fl hdr s' (evs @ [syscall_event (of_nat (Suc (length evs))) utid nr ret a0 (take 64 bs)])
    \<and> (v = -1 \<and> ret = - errno s' \<and> bs = [] \<and> 0 < sint (errno s') \<and> umem s' = umem s
        \<or> v = 0 \<and> ret = 0 \<and> length bs = sz \<and> umem s' = write_mem p bs (umem s) \<and> errno s' = errno s)"
  using rs
proof (cases rule: real_struct_cases [where s = s])
  case (fail e w)
  define s1 where "s1 = s\<lparr>errno := e, umem := umem s, world := w\<rparr>"
  have r1: "recording os fl hdr s1 evs" unfolding s1_def using r fail(3) by (rule recording_world)
  have "current_id s1 = Some utid" using i current_id_sch [of s1 s] by (simp add: s1_def)
  then obtain s' where s': "rr_log_syscall os nr (- e) a0 p 0 s1 = Some s'"
    "recording os fl hdr s' (evs @ [syscall_event (of_nat (Suc (length evs))) utid nr (- e) a0 (logged_data (umem s1) p 0)])" "log_only s1 s'"
    using recording_log [OF r1] by blast
  have "record_struct os call nr a0 p sz s = Some (-1, s')"
    using fail(1) s'(1) recording_active [OF r1] by (simp add: record_struct_def s1_def to_log_int_def)
  then show ?thesis using s'(2) log_onlyD [OF s'(3)] fail(2) by (auto simp: logged_data_def s1_def)
next
  case (ok bs w)
  define s1 where "s1 = s\<lparr>umem := write_mem p bs (umem s), world := w\<rparr>"
  have r1: "recording os fl hdr s1 evs" unfolding s1_def using r ok(3) by (rule recording_world2)
  have "current_id s1 = Some utid" using i current_id_sch [of s1 s] by (simp add: s1_def)
  then obtain s' where s': "rr_log_syscall os nr 0 a0 p (of_nat sz) s1 = Some s'"
    "recording os fl hdr s' (evs @ [syscall_event (of_nat (Suc (length evs))) utid nr 0 a0 (logged_data (umem s1) p (of_nat sz))])" "log_only s1 s'"
    using recording_log [OF r1] by blast
  have "record_struct os call nr a0 p sz s = Some (0, s')"
    using ok(1) s'(1) recording_active [OF r1] by (simp add: record_struct_def s1_def to_log_int_def)
  moreover have "logged_data (umem s1) p (of_nat sz) = take 64 bs"
    unfolding s1_def using logged_struct [OF ok(2) sz p] by simp
  ultimately show ?thesis using s'(2) log_onlyD [OF s'(3)] ok(2) by (intro exI [of _ 0] exI [of _ s'] exI [of _ 0] exI [of _ bs]) (simp add: s1_def)
qed

text \<open>The contract for a struct that fits into an event.\<close>

definition struct_logged where
  "struct_logged os fl hdr call p sz s evs \<longleftrightarrow> recording os fl hdr s evs \<and> real_struct os fl call p sz \<and> p \<noteq> 0"

lemma struct_faithful:
  assumes l: "struct_logged os fl hdr call p sz s evs" and sz: "0 < sz" "sz \<le> 64"
  shows "\<exists>v s' ev. record_struct os call nr a0 p sz s = Some (v, s') \<and> struct_logged os fl hdr call p sz s' (evs @ [ev])
    \<and> (\<forall>t es. same_view s t \<longrightarrow> replaying os2 rest t (ev # es) \<longrightarrow>
         (\<exists>t'. struct_replay os2 nr p sz t = Some (v, t') \<and> replaying os2 rest t' es \<and> same_view s' t'))"
proof -
  have r: "recording os fl hdr s evs" and rs: "real_struct os fl call p sz" and p: "p \<noteq> 0" using l by (simp_all add: struct_logged_def)
  obtain utid where i: "current_id s = Some utid" using r by (auto simp: recording_def)
  obtain v s' ret bs where s': "record_struct os call nr a0 p sz s = Some (v, s')" "sch s' = sch s" "uth s' = uth s"
    "recording os fl hdr s' (evs @ [syscall_event (of_nat (Suc (length evs))) utid nr ret a0 (take 64 bs)])"
    and c: "v = -1 \<and> ret = - errno s' \<and> bs = [] \<and> 0 < sint (errno s') \<and> umem s' = umem s
        \<or> v = 0 \<and> ret = 0 \<and> length bs = sz \<and> umem s' = write_mem p bs (umem s) \<and> errno s' = errno s"
    using record_struct_logs [OF r i rs p, of nr a0] sz by auto
  let ?ev = "syscall_event (of_nat (Suc (length evs))) utid nr ret a0 (take 64 bs)"
  have "\<exists>t'. struct_replay os2 nr p sz t = Some (v, t') \<and> replaying os2 rest t' es \<and> same_view s' t'"
    if v: "same_view s t" and rep: "replaying os2 rest t (?ev # es)" for t es
  proof -
    have it: "current_id t = Some utid" using current_id_erase [OF same_viewD(1) [OF v]] i by simp
    show ?thesis using c
    proof
      assume f: "v = -1 \<and> ret = - errno s' \<and> bs = [] \<and> 0 < sint (errno s') \<and> umem s' = umem s"
      with struct_replay_fail [of os2 rest t _ utid nr "errno s'" a0 es p sz] rep it show ?thesis
        using same_viewD [OF v] s'(2,3) by (fastforce simp: same_view_def)
    next
      assume f: "v = 0 \<and> ret = 0 \<and> length bs = sz \<and> umem s' = write_mem p bs (umem s) \<and> errno s' = errno s"
      with struct_replay_ok [of os2 rest t _ utid nr a0 bs es sz p] rep it sz p show ?thesis
        using same_viewD [OF v] s'(2,3) by (fastforce simp: same_view_def)
    qed
  qed
  then show ?thesis using s'(1,4) rs p by (fastforce simp: struct_logged_def)
qed

lemma struct_faithful_for:
  assumes l: "struct_logged os fl hdr call p sz s evs" and sz: "0 < sz" "sz \<le> 64"
    and w1: "w1 s = record_struct os call nr a0 p sz s"
    and w2: "\<And>t evs. replaying os2 rest t evs \<Longrightarrow> w2 t = struct_replay os2 nr p sz t"
  shows "\<exists>v s' ev. w1 s = Some (v, s') \<and> struct_logged os fl hdr call p sz s' (evs @ [ev])
    \<and> (\<forall>t es. same_view s t \<longrightarrow> replaying os2 rest t (ev # es) \<longrightarrow>
         (\<exists>t'. w2 t = Some (v, t') \<and> replaying os2 rest t' es \<and> same_view s' t'))"
proof -
  obtain v s' ev where 1: "record_struct os call nr a0 p sz s = Some (v, s')" "struct_logged os fl hdr call p sz s' (evs @ [ev])"
    and 2: "\<And>t es. same_view s t \<Longrightarrow> replaying os2 rest t (ev # es) \<Longrightarrow>
      \<exists>t'. struct_replay os2 nr p sz t = Some (v, t') \<and> replaying os2 rest t' es \<and> same_view s' t'"
    using struct_faithful [OF l sz, of nr a0 os2 rest] by blast
  have "\<exists>t'. w2 t = Some (v, t') \<and> replaying os2 rest t' es \<and> same_view s' t'"
    if "same_view s t" "replaying os2 rest t (ev # es)" for t es
    using 2 [OF that] by (simp add: w2 [OF that(2)])
  then show ?thesis using 1 w1 by auto
qed

lemma recording_clock: "recording os fl hdr s evs \<Longrightarrow>
    clock_gettime os c p s = record_struct os (CClockGettime c p) NR_clock_gettime (of_int c) p sizeof_timespec s"
  by (simp add: clock_gettime_def recording_def)

lemma recording_tod: "recording os fl hdr s evs \<Longrightarrow>
    gettimeofday os p z s = record_struct os (CGettimeofday p z) NR_gettimeofday 0 p sizeof_timeval s"
  by (simp add: gettimeofday_def recording_def)

lemma next_event_cfg: "rr_replay_next_event os t = Some (r, t') \<Longrightarrow> cfg t' = cfg t"
  by (auto simp: rr_replay_next_event_def rr_read_full_def Let_def split: if_splits)

lemma next_syscall_cfg:
  assumes "rr_replay_next_syscall os nr i t = Some (r, t')"
  shows "cfg t' = cfg t"
proof (cases "\<not> g_replay_header_ok (rpl t) \<or> g_replay_fd (rpl t) < 0")
  case True
  then show ?thesis using assms by (auto simp: rr_replay_next_syscall_def)
next
  case False
  then obtain oev t1 where n: "rr_replay_next_event os t = Some (oev, t1)"
    using assms by (auto simp: rr_replay_next_syscall_def)
  from next_event_cfg [OF n] show ?thesis
    using assms False n by (cases oev) (auto simp: rr_replay_next_syscall_def split: if_splits rr_payload.splits)
qed

lemma get_event_cfg: "replay_get_event os nr t = Some (r, t') \<Longrightarrow> cfg t' = cfg t"
  by (auto simp: replay_get_event_def dest: next_syscall_cfg)

lemma replaying_clock:
  assumes "replaying os rest t evs"
  shows "clock_gettime os c p t = struct_replay os NR_clock_gettime p sizeof_timespec t"
  using assms get_event_cfg [of os NR_clock_gettime t]
  by (cases "replay_get_event os NR_clock_gettime t")
    (auto simp: clock_gettime_def struct_replay_def replaying_def split: option.split)

lemma replaying_tod:
  assumes "replaying os rest t evs"
  shows "gettimeofday os p z t = struct_replay os NR_gettimeofday p sizeof_timeval t"
  using assms get_event_cfg [of os NR_gettimeofday t]
  by (cases "replay_get_event os NR_gettimeofday t")
    (auto simp: gettimeofday_def struct_replay_def replaying_def split: option.split)

interpretation rp_clock: replayable "clock_gettime os1 c p" "clock_gettime os2 c p"
  "struct_logged os1 fl hdr (CClockGettime c p) p sizeof_timespec" "replaying os2 rest" same_view
  for os1 os2 fl hdr rest c p
proof (unfold_locales, rule struct_faithful_for)
  show "struct_logged os1 fl hdr (CClockGettime c p) p sizeof_timespec s evs \<Longrightarrow>
      clock_gettime os1 c p s = record_struct os1 (CClockGettime c p) NR_clock_gettime (of_int c) p sizeof_timespec s" for s evs
    unfolding struct_logged_def using recording_clock by blast
  show "replaying os2 rest t evs \<Longrightarrow> clock_gettime os2 c p t = struct_replay os2 NR_clock_gettime p sizeof_timespec t" for t evs
    by (rule replaying_clock)
qed (simp_all add: sizeof_timespec_def)

interpretation rp_tod: replayable "gettimeofday os1 p z" "gettimeofday os2 p z"
  "struct_logged os1 fl hdr (CGettimeofday p z) p sizeof_timeval" "replaying os2 rest" same_view
  for os1 os2 fl hdr rest p z
proof (unfold_locales, rule struct_faithful_for)
  show "struct_logged os1 fl hdr (CGettimeofday p z) p sizeof_timeval s evs \<Longrightarrow>
      gettimeofday os1 p z s = record_struct os1 (CGettimeofday p z) NR_gettimeofday 0 p sizeof_timeval s" for s evs
    unfolding struct_logged_def using recording_tod by blast
  show "replaying os2 rest t evs \<Longrightarrow> gettimeofday os2 p z t = struct_replay os2 NR_gettimeofday p sizeof_timeval t" for t evs
    by (rule replaying_tod)
qed (simp_all add: sizeof_timeval_def)

section \<open>Wrappers that only return a number\<close>

text \<open>\<^verbatim>\<open>getpid\<close> and \<^verbatim>\<open>getuid\<close> always succeed; the contract needs the result to be
  a non-negative 32-bit number, which is the case for every process id but not for every user id.\<close>

definition real_scalar :: "'w os \<Rightarrow> ('w \<Rightarrow> u8 list) \<Rightarrow> libc_call \<Rightarrow> bool" where
  "real_scalar os fl call \<longleftrightarrow> (\<forall>m w. \<exists>v w'. os_real os call m w = (Inr v, m, w') \<and> 0 \<le> v \<and> v < 2 ^ 31 \<and> fl w' = fl w)"

definition scalar_logged where
  "scalar_logged os fl hdr call s evs \<longleftrightarrow> recording os fl hdr s evs \<and> real_scalar os fl call"

lemma sint_small: "0 \<le> v \<Longrightarrow> v < 2 ^ 31 \<Longrightarrow> sint (of_int v :: i32) = v"
  by (simp add: signed_take_bit_int_eq_self sint_sbintrunc')

lemma real_scalar_call:
  assumes "real_scalar os fl call"
  obtains v w where "real_call os call f s = (v, s\<lparr>umem := umem s, world := w\<rparr>)" "0 \<le> v" "v < 2 ^ 31" "fl w = fl (world s)"
proof -
  obtain v w where "os_real os call (umem s) (world s) = (Inr v, umem s, w)" "0 \<le> v" "v < 2 ^ 31" "fl w = fl (world s)"
    using assms unfolding real_scalar_def by metis
  then show ?thesis by (intro that [of v w]) (simp_all add: real_call_def)
qed

lemma replay_scalar_logged:
  assumes r: "replaying os rest t (syscall_event sq utid nr ret a0 [] # es)" and i: "current_id t = Some utid" and ret: "0 \<le> sint ret"
  shows "\<exists>t'. replay_scalar os nr t = Some (sint ret, t') \<and> replaying os rest t' es \<and> log_only t t'"
  using replaying_logged [OF r i] ret by (auto simp: replay_scalar_def copy_out_logged raw_to_int_def)

lemma scalar_faithful:
  assumes l: "scalar_logged os fl hdr call s evs"
    and w1: "w1 s = (case real_call os call (-1) s of (rc, s) \<Rightarrow>
        if rr_active s then do { s \<leftarrow> rr_log_syscall os nr (of_int rc) 0 0 0 s; Some (rc, s) } else Some (rc, s))"
    and w2: "\<And>t evs. replaying os2 rest t evs \<Longrightarrow> w2 t = do { (v, t) \<leftarrow> replay_scalar os2 nr t; Some (g v, t) }"
    and g: "\<And>v. 0 \<le> v \<Longrightarrow> v < 2 ^ 31 \<Longrightarrow> g v = v"
  shows "\<exists>v s' ev. w1 s = Some (v, s') \<and> scalar_logged os fl hdr call s' (evs @ [ev])
    \<and> (\<forall>t es. same_view s t \<longrightarrow> replaying os2 rest t (ev # es) \<longrightarrow>
         (\<exists>t'. w2 t = Some (v, t') \<and> replaying os2 rest t' es \<and> same_view s' t'))"
proof -
  have r: "recording os fl hdr s evs" and rs: "real_scalar os fl call" using l by (simp_all add: scalar_logged_def)
  obtain utid where i: "current_id s = Some utid" using r by (auto simp: recording_def)
  obtain v w where v: "real_call os call (-1) s = (v, s\<lparr>umem := umem s, world := w\<rparr>)" "0 \<le> v" "v < 2 ^ 31" "fl w = fl (world s)"
    using rs by (rule real_scalar_call)
  define s1 where "s1 = s\<lparr>umem := umem s, world := w\<rparr>"
  have r1: "recording os fl hdr s1 evs" unfolding s1_def using r v(4) by (rule recording_world2)
  have "current_id s1 = Some utid" using i current_id_sch [of s1 s] by (simp add: s1_def)
  then obtain s' where s': "rr_log_syscall os nr (of_int v) 0 0 0 s1 = Some s'"
    "recording os fl hdr s' (evs @ [syscall_event (of_nat (Suc (length evs))) utid nr (of_int v) 0 (logged_data (umem s1) 0 0)])" "log_only s1 s'"
    using recording_log [OF r1] by blast
  have w: "w1 s = Some (v, s')" using w1 v(1) s'(1) recording_active [OF r1] by (simp add: s1_def)
  let ?ev = "syscall_event (of_nat (Suc (length evs))) utid nr (of_int v) 0 []"
  have "\<exists>t'. w2 t = Some (v, t') \<and> replaying os2 rest t' es \<and> same_view s' t'"
    if sv: "same_view s t" and rep: "replaying os2 rest t (?ev # es)" for t es
  proof -
    have "current_id t = Some utid" using current_id_erase [OF same_viewD(1) [OF sv]] i by simp
    then obtain t' where t': "replay_scalar os2 nr t = Some (v, t')" "replaying os2 rest t' es" "log_only t t'"
      using replay_scalar_logged [OF rep] v(2,3) sint_small [OF v(2,3)] by auto
    have "same_view s' t'" using sv log_onlyD [OF s'(3)] log_onlyD [OF t'(3)] by (simp add: same_view_def s1_def)
    then show ?thesis using t' w2 [OF rep] g [OF v(2,3)] by simp
  qed
  then show ?thesis using w s'(2) rs by (intro exI [of _ v] exI [of _ s'] exI [of _ ?ev]) (simp add: scalar_logged_def logged_data_def)
qed

lemma recording_pid:
  "recording os fl hdr s evs \<Longrightarrow> getpid os s = (case real_call os CGetpid (-1) s of (rc, s) \<Rightarrow>
      if rr_active s then do { s \<leftarrow> rr_log_syscall os NR_getpid (of_int rc) 0 0 0 s; Some (rc, s) } else Some (rc, s))"
  by (simp add: getpid_def recording_def)

lemma recording_uid:
  "recording os fl hdr s evs \<Longrightarrow> getuid os s = (case real_call os CGetuid (-1) s of (rc, s) \<Rightarrow>
      if rr_active s then do { s \<leftarrow> rr_log_syscall os NR_getuid (of_int rc) 0 0 0 s; Some (rc, s) } else Some (rc, s))"
  by (simp add: getuid_def recording_def)

interpretation rp_pid: replayable "getpid os1" "getpid os2" "scalar_logged os1 fl hdr CGetpid" "replaying os2 rest" same_view
  for os1 os2 fl hdr rest
proof (unfold_locales, rule scalar_faithful [where g = "\<lambda>v. v"])
  show "scalar_logged os1 fl hdr CGetpid s evs \<Longrightarrow> getpid os1 s = (case real_call os1 CGetpid (-1) s of (rc, s) \<Rightarrow>
      if rr_active s then do { s \<leftarrow> rr_log_syscall os1 NR_getpid (of_int rc) 0 0 0 s; Some (rc, s) } else Some (rc, s))" for s evs
    unfolding scalar_logged_def using recording_pid by blast
  show "replaying os2 rest t evs \<Longrightarrow> getpid os2 t = do { (v, t) \<leftarrow> replay_scalar os2 NR_getpid t; Some (v, t) }" for t evs
    by (simp add: getpid_def replaying_def)
qed simp_all

interpretation rp_uid: replayable "getuid os1" "getuid os2" "scalar_logged os1 fl hdr CGetuid" "replaying os2 rest" same_view
  for os1 os2 fl hdr rest
proof (unfold_locales, rule scalar_faithful [where g = to_uid])
  show "scalar_logged os1 fl hdr CGetuid s evs \<Longrightarrow> getuid os1 s = (case real_call os1 CGetuid (-1) s of (rc, s) \<Rightarrow>
      if rr_active s then do { s \<leftarrow> rr_log_syscall os1 NR_getuid (of_int rc) 0 0 0 s; Some (rc, s) } else Some (rc, s))" for s evs
    unfolding scalar_logged_def using recording_uid by blast
  show "replaying os2 rest t evs \<Longrightarrow> getuid os2 t = do { (v, t) \<leftarrow> replay_scalar os2 NR_getuid t; Some (to_uid v, t) }" for t evs
    by (simp add: getuid_def replaying_def)
qed (simp_all add: to_uid_def)

section \<open>getcwd\<close>

text \<open>\<^verbatim>\<open>getcwd\<close> with a buffer stores the NUL-terminated path there and returns the buffer, or fails.
  The contract needs a path of at most 64 bytes.\<close>

definition real_getcwd :: "'w os \<Rightarrow> ('w \<Rightarrow> u8 list) \<Rightarrow> u64 \<Rightarrow> u64 \<Rightarrow> bool" where
  "real_getcwd os fl buf n \<longleftrightarrow> (\<forall>m w. case os_real os (CGetcwd buf n) m w of
       (Inl e, m', w') \<Rightarrow> 0 < sint e \<and> m' = m \<and> fl w' = fl w
     | (Inr v, m', w') \<Rightarrow> v = uint buf \<and> fl w' = fl w
         \<and> (\<exists>path. 0 \<notin> set path \<and> length path < unat n \<and> length path \<le> 64 \<and> m' = write_mem buf (path @ [0]) m))"

definition cwd_logged where
  "cwd_logged os fl hdr buf n s evs \<longleftrightarrow> recording os fl hdr s evs \<and> real_getcwd os fl buf n \<and> buf \<noteq> 0"

lemma real_getcwd_cases:
  assumes "real_getcwd os fl buf n"
  obtains (fail) e w where "real_call os (CGetcwd buf n) 0 s = (0, s\<lparr>errno := e, umem := umem s, world := w\<rparr>)" "0 < sint e" "fl w = fl (world s)"
  | (ok) path w where "real_call os (CGetcwd buf n) 0 s = (uint buf, s\<lparr>umem := write_mem buf (path @ [0]) (umem s), world := w\<rparr>)"
      "0 \<notin> set path" "length path < unat n" "length path \<le> 64" "fl w = fl (world s)"
proof -
  obtain r m w where r: "os_real os (CGetcwd buf n) (umem s) (world s) = (r, m, w)" by (cases "os_real os (CGetcwd buf n) (umem s) (world s)")
  from assms [unfolded real_getcwd_def, rule_format, of "umem s" "world s"] show ?thesis
    using r fail ok by (cases r) (auto simp: real_call_def)
qed

lemma read_written_prefix:
  assumes "length bs \<le> n" and "length bs \<le> 2 ^ 64"
  shows "read_mem (write_mem p bs m) p n = bs @ drop (length bs) (read_mem (write_mem p bs m) p n)"
  using append_take_drop_id [of "length bs" "read_mem (write_mem p bs m) p n"]
    take_read_mem [OF assms(1), of "write_mem p bs m" p] read_write_mem [OF assms(2), of p m] by simp

lemma strnlen_path:
  assumes "0 \<notin> set path" and "length path < n" and "length path \<le> 64"
  shows "strnlen (write_mem buf (path @ [0]) m) buf n = length path"
proof -
  have "read_mem (write_mem buf (path @ [0]) m) buf n = path @ 0 # drop (length (path @ [0])) (read_mem (write_mem buf (path @ [0]) m) buf n)"
    using read_written_prefix [of "path @ [0]" n buf m] assms(2,3) by simp
  moreover have "takeWhile (\<lambda>b. b \<noteq> 0) (path @ 0 # ys) = path" for ys
    using assms(1) by (simp add: takeWhile_tail) (metis takeWhile_eq_all_conv)
  ultimately show ?thesis unfolding strnlen_def by metis
qed

lemma logged_path:
  assumes "length path \<le> 64" and "buf \<noteq> 0"
  shows "logged_data (write_mem buf (path @ [0]) m) buf (of_nat (length path)) = path"
proof -
  have u: "unat (of_nat (length path) :: u32) = length path" using assms(1) by (simp add: unat_of_nat)
  then have pos: "0 < (of_nat (length path) :: u32) \<longleftrightarrow> path \<noteq> []" by (cases path) (simp_all add: word_less_nat_alt)
  have "read_mem (write_mem buf (path @ [0]) m) buf (length path) = path"
    using take_read_mem [of "length path" "Suc (length path)" "write_mem buf (path @ [0]) m" buf]
      read_write_mem [of "path @ [0]" buf m] assms(1) by simp
  then show ?thesis using pos u assms by (simp add: logged_data_def sizeofs Let_def)
qed

lemma record_getcwd_logs:
  assumes r: "recording os fl hdr s evs" and i: "current_id s = Some utid" and rs: "real_getcwd os fl buf n" and b: "buf \<noteq> 0"
  shows "\<exists>v s' ret path. getcwd os buf n s = Some (v, s') \<and> sch s' = sch s \<and> uth s' = uth s
    \<and> recording os fl hdr s' (evs @ [syscall_event (of_nat (Suc (length evs))) utid NR_getcwd ret n path])
    \<and> (v = 0 \<and> ret = - errno s' \<and> path = [] \<and> 0 < sint (errno s') \<and> umem s' = umem s
        \<or> v = uint buf \<and> ret = 0 \<and> length path < unat n \<and> length path \<le> 64
            \<and> umem s' = write_mem buf (path @ [0]) (umem s) \<and> errno s' = errno s)"
  using rs
proof (cases rule: real_getcwd_cases [where s = s])
  case (fail e w)
  define s1 where "s1 = s\<lparr>errno := e, umem := umem s, world := w\<rparr>"
  have r1: "recording os fl hdr s1 evs" unfolding s1_def using r fail(3) by (rule recording_world)
  have "current_id s1 = Some utid" using i current_id_sch [of s1 s] by (simp add: s1_def)
  then obtain s' where s': "rr_log_syscall os NR_getcwd (- e) n 0 0 s1 = Some s'"
    "recording os fl hdr s' (evs @ [syscall_event (of_nat (Suc (length evs))) utid NR_getcwd (- e) n (logged_data (umem s1) 0 0)])" "log_only s1 s'"
    using recording_log [OF r1] by blast
  have "getcwd os buf n s = Some (0, s')"
    using fail(1) s'(1) recording_active [OF r1] recording_active [OF r] by (simp add: getcwd_def s1_def)
  then show ?thesis using s'(2) log_onlyD [OF s'(3)] fail(2) by (auto simp: logged_data_def s1_def)
next
  case (ok path w)
  define s1 where "s1 = s\<lparr>umem := write_mem buf (path @ [0]) (umem s), world := w\<rparr>"
  have r1: "recording os fl hdr s1 evs" unfolding s1_def using r ok(5) by (rule recording_world2)
  have "current_id s1 = Some utid" using i current_id_sch [of s1 s] by (simp add: s1_def)
  then obtain s' where s': "rr_log_syscall os NR_getcwd 0 n buf (of_nat (length path)) s1 = Some s'"
    "recording os fl hdr s' (evs @ [syscall_event (of_nat (Suc (length evs))) utid NR_getcwd 0 n (logged_data (umem s1) buf (of_nat (length path)))])" "log_only s1 s'"
    using recording_log [OF r1] by blast
  have ne: "uint buf \<noteq> 0" using b by (simp add: uint_0_iff)
  have "getcwd os buf n s = Some (uint buf, s')"
    using ok(1) s'(1) recording_active [OF r1] recording_active [OF r] ne strnlen_path [OF ok(2-4), of buf "umem s"]
    by (simp add: getcwd_def s1_def)
  moreover have "logged_data (umem s1) buf (of_nat (length path)) = path"
    unfolding s1_def using logged_path [OF ok(4) b] by simp
  ultimately show ?thesis using s'(2) log_onlyD [OF s'(3)] ok(3,4)
    by (intro exI [of _ "uint buf"] exI [of _ s'] exI [of _ 0] exI [of _ path]) (simp add: s1_def)
qed

lemma replay_getcwd_fail:
  assumes r: "replaying os rest t (syscall_event sq utid NR_getcwd (- e) a0 [] # es)" and i: "current_id t = Some utid" and e: "0 < sint e"
  shows "\<exists>t'. getcwd os buf n t = Some (0, t') \<and> replaying os rest t' es
    \<and> sch t' = sch t \<and> uth t' = uth t \<and> umem t' = umem t \<and> errno t' = e"
proof -
  obtain t1 where t1: "replay_get_event os NR_getcwd t = Some (Some (copy_out (syscall_event sq utid NR_getcwd (- e) a0 []) (sc_payload NR_getcwd (- e) a0 [])), t1)"
    "replaying os rest t1 es" "log_only t t1"
    using replaying_logged [OF r i] by blast
  have "replaying os rest (t1\<lparr>errno := e\<rparr>) es"
    using t1(2) by (simp add: replaying_def replay_log_def rr_active_def rr_replay_active_def)
  moreover have "rr_replay_active t" using r by (simp add: replaying_def)
  ultimately show ?thesis using t1(1) log_onlyD [OF t1(3)] neg_i32 [OF e] by (simp add: getcwd_def copy_out_logged)
qed

lemma replay_getcwd_ok:
  assumes r: "replaying os rest t (syscall_event sq utid NR_getcwd 0 a0 path # es)" and i: "current_id t = Some utid"
    and len: "length path < unat n" "length path \<le> 64" and b: "buf \<noteq> 0"
  shows "\<exists>t'. getcwd os buf n t = Some (uint buf, t') \<and> replaying os rest t' es
    \<and> sch t' = sch t \<and> uth t' = uth t \<and> umem t' = write_mem buf (path @ [0]) (umem t) \<and> errno t' = errno t"
proof -
  obtain t1 where t1: "replay_get_event os NR_getcwd t = Some (Some (copy_out (syscall_event sq utid NR_getcwd 0 a0 path) (sc_payload NR_getcwd 0 a0 path)), t1)"
    "replaying os rest t1 es" "log_only t t1"
    using replaying_logged [OF r i] by blast
  have "replaying os rest (t1\<lparr>umem := write_mem buf (path @ [0]) (umem t1)\<rparr>) es"
    using t1(2) by (simp add: replaying_def replay_log_def rr_active_def rr_replay_active_def)
  moreover have "rr_replay_active t" using r by (simp add: replaying_def)
  moreover have "0 < n" using len(1) by (simp add: word_less_nat_alt)
  ultimately show ?thesis using t1(1) log_onlyD [OF t1(3)] len b
    by (simp add: getcwd_def copy_out_logged copy_to_def memcpy_def Let_def)
qed

interpretation rp_cwd: replayable "getcwd os1 buf n" "getcwd os2 buf n" "cwd_logged os1 fl hdr buf n" "replaying os2 rest" same_view
  for os1 os2 fl hdr rest buf n
proof
  fix s evs
  assume l: "cwd_logged os1 fl hdr buf n s evs"
  then have r: "recording os1 fl hdr s evs" and rs: "real_getcwd os1 fl buf n" and b: "buf \<noteq> 0" by (simp_all add: cwd_logged_def)
  obtain utid where i: "current_id s = Some utid" using r by (auto simp: recording_def)
  obtain v s' ret path where s': "getcwd os1 buf n s = Some (v, s')" "sch s' = sch s" "uth s' = uth s"
    "recording os1 fl hdr s' (evs @ [syscall_event (of_nat (Suc (length evs))) utid NR_getcwd ret n path])"
    and c: "v = 0 \<and> ret = - errno s' \<and> path = [] \<and> 0 < sint (errno s') \<and> umem s' = umem s
        \<or> v = uint buf \<and> ret = 0 \<and> length path < unat n \<and> length path \<le> 64
            \<and> umem s' = write_mem buf (path @ [0]) (umem s) \<and> errno s' = errno s"
    using record_getcwd_logs [OF r i rs b] by blast
  let ?ev = "syscall_event (of_nat (Suc (length evs))) utid NR_getcwd ret n path"
  have "\<exists>t'. getcwd os2 buf n t = Some (v, t') \<and> replaying os2 rest t' es \<and> same_view s' t'"
    if v: "same_view s t" and rep: "replaying os2 rest t (?ev # es)" for t es
  proof -
    have it: "current_id t = Some utid" using current_id_erase [OF same_viewD(1) [OF v]] i by simp
    show ?thesis using c replay_getcwd_fail [of os2 rest t _ utid "errno s'" n es buf n]
        replay_getcwd_ok [of os2 rest t _ utid n path es n buf] rep it b same_viewD [OF v] s'(2,3)
      by (fastforce simp: same_view_def)
  qed
  then show "\<exists>v s' ev. getcwd os1 buf n s = Some (v, s') \<and> cwd_logged os1 fl hdr buf n s' (evs @ [ev])
      \<and> (\<forall>t es. same_view s t \<longrightarrow> replaying os2 rest t (ev # es) \<longrightarrow>
           (\<exists>t'. getcwd os2 buf n t = Some (v, t') \<and> replaying os2 rest t' es \<and> same_view s' t'))"
    using s'(1,4) rs b by (fastforce simp: cwd_logged_def)
qed

end
