(* ===== verification/RR_ViewOps.thy ===== *)
theory RR_ViewOps
  imports RR_Safety RR_Replayable
begin

text \<open>
  The thread operations of the library on two states that look the same to the program: each
  returns the same result in both, and the states look the same afterwards. The two states may
  belong to different environments; where resources are allocated, neither may run out of them.
\<close>

section \<open>Environments in which resources do not run out\<close>

definition env_ok :: "'w os \<Rightarrow> bool" where
  "env_ok os \<longleftrightarrow> alloc_ok os \<and> (\<forall>n b w. \<exists>v w'. os_mmap os n b w = (Inr v, w')) \<and> (\<forall>a n w. \<exists>w'. os_mprotect_rw os a n w = (Inr (), w'))
     \<and> (\<forall>w. \<exists>w'. os_getcontext os w = (Inr (), w')) \<and> (\<forall>w. \<exists>v w'. os_get_fs os w = (Inr v, w'))
     \<and> (\<forall>b w. \<exists>w'. os_set_fs os b w = (Inr (), w'))"

lemma env_okD:
  assumes "env_ok os"
  shows "alloc_ok os" "\<exists>v w'. kres (os_mmap os n b) s = (Some v, s\<lparr>world := w'\<rparr>)"
    "\<exists>w'. kres (os_mprotect_rw os a k) s = (Some (), s\<lparr>world := w'\<rparr>)" "\<exists>w'. kres (os_getcontext os) s = (Some (), s\<lparr>world := w'\<rparr>)"
    "\<exists>v w'. kres (os_get_fs os) s = (Some v, s\<lparr>world := w'\<rparr>)" "\<exists>w'. kres (os_set_fs os b') s = (Some (), s\<lparr>world := w'\<rparr>)"
proof -
  have e: "alloc_ok os" "\<And>n b w. \<exists>v w'. os_mmap os n b w = (Inr v, w')" "\<And>a n w. \<exists>w'. os_mprotect_rw os a n w = (Inr (), w')"
    "\<And>w. \<exists>w'. os_getcontext os w = (Inr (), w')" "\<And>w. \<exists>v w'. os_get_fs os w = (Inr v, w')" "\<And>b w. \<exists>w'. os_set_fs os b w = (Inr (), w')"
    using assms by (auto simp: env_ok_def)
  show "alloc_ok os" by (rule e)
  show "\<exists>v w'. kres (os_mmap os n b) s = (Some v, s\<lparr>world := w'\<rparr>)" using e(2) [of n b "world s"] by (auto simp: kres_def)
  show "\<exists>w'. kres (os_mprotect_rw os a k) s = (Some (), s\<lparr>world := w'\<rparr>)" using e(3) [of a k "world s"] by (auto simp: kres_def)
  show "\<exists>w'. kres (os_getcontext os) s = (Some (), s\<lparr>world := w'\<rparr>)" using e(4) [of "world s"] by (auto simp: kres_def)
  show "\<exists>v w'. kres (os_get_fs os) s = (Some v, s\<lparr>world := w'\<rparr>)" using e(5) [of "world s"] by (auto simp: kres_def)
  show "\<exists>w'. kres (os_set_fs os b') s = (Some (), s\<lparr>world := w'\<rparr>)" using e(6) [of b' "world s"] by (auto simp: kres_def)
qed

lemma set_fs_errno: "env_ok os \<Longrightarrow> errno (snd (rr_set_fs_base os b s)) = errno s"
  using env_okD(6) [of os b s] by (auto simp: rr_set_fs_base_def)

lemma set_fs_quiet: "quiet os (world s) (world (snd (rr_set_fs_base os b s)))"
  by (cases rule: kres_cases [of "os_set_fs os b" s]) (auto simp: rr_set_fs_base_def dest: quiet_calls)

section \<open>Changes that neither log nor consume an event\<close>

lemma recording_env:
  assumes "recording os fl hdr s evs" and "log_private os fl" and "cfg s' = cfg s" and "rcd s' = rcd s"
    and "quiet os (world s) (world s')" and "current_id s' \<noteq> None"
  shows "recording os fl hdr s' evs"
  using assms quietD [OF assms(5,2)]
  by (simp add: recording_def rr_active_def rr_replay_active_def rec_inv_def event_log_def contents_def)

lemma replaying_env:
  assumes "replaying os rest t es" and "log_private os rest" and "cfg t' = cfg t" and "rpl t' = rpl t"
    and "quiet os (world t) (world t')"
  shows "replaying os rest t' es"
  using assms quietD [OF assms(5,2)] by (simp add: replaying_def rr_active_def rr_replay_active_def replay_log_def)

lemma same_view_set_fs:
  "env_ok os1 \<Longrightarrow> env_ok os2 \<Longrightarrow> same_view s t \<Longrightarrow> same_view (snd (rr_set_fs_base os1 a s)) (snd (rr_set_fs_base os2 b t))"
  by (simp add: same_view_def set_fs_errno)

lemma same_view_sch:
  "same_view s t \<Longrightarrow> erase x = erase y \<Longrightarrow> same_view (s\<lparr>sch := x\<rparr>) (t\<lparr>sch := y\<rparr>)"
  by (simp add: same_view_def)

lemma on_sched_view:
  assumes "\<And>x. f (erase x) = map_option erase (f x)" and "same_view s t" and "on_sched f s = Some s'"
  shows "\<exists>y. on_sched f t = Some (t\<lparr>sch := y\<rparr>) \<and> same_view s' (t\<lparr>sch := y\<rparr>)"
proof -
  obtain x where x: "f (sch s) = Some x" "s' = s\<lparr>sch := x\<rparr>" using assms(3) by (auto simp: on_sched_def)
  obtain y where "f (sch t) = Some y" "erase x = erase y"
    using transfer [OF assms(1) same_viewD(1) [OF assms(2)] x(1)] by blast
  then show ?thesis using x(2) same_view_sch [OF assms(2), of x y] by (auto simp: on_sched_def)
qed

lemma on_sched_ret_view:
  assumes "\<And>x. f (erase x) = map_option (map_prod id erase) (f x)" and "same_view s t" and "on_sched_ret f s = Some (r, s')"
  shows "\<exists>y. on_sched_ret f t = Some (r, t\<lparr>sch := y\<rparr>) \<and> same_view s' (t\<lparr>sch := y\<rparr>)"
proof -
  obtain x where x: "f (sch s) = Some (r, x)" "s' = s\<lparr>sch := x\<rparr>" using assms(3) by (auto simp: on_sched_ret_def)
  obtain y where "f (sch t) = Some (r, y)" "erase x = erase y"
    using transfer_ret [OF assms(1) same_viewD(1) [OF assms(2)] x(1)] by blast
  then show ?thesis using x(2) same_view_sch [OF assms(2), of x y] by (auto simp: on_sched_ret_def)
qed

section \<open>Thread operations on states that look the same\<close>

lemma yield_view:
  assumes "same_view s t" and "runtime_ready (cfg s)" and "runtime_ready (cfg t)" and "uthread_yield c s = Some (b, s')"
  shows "\<exists>y. uthread_yield c t = Some (b, t\<lparr>sch := y\<rparr>) \<and> same_view s' (t\<lparr>sch := y\<rparr>)"
  using on_sched_ret_view [where f = "rr_scheduler_yield_current c", OF yield_erase assms(1)] assms(2-4) by (simp add: uthread_yield_def)

lemma exit_view:
  assumes "same_view s t" and "runtime_ready (cfg s)" and "runtime_ready (cfg t)" and "uthread_exit c v s = Some (e, s')"
  shows "\<exists>y. uthread_exit c v t = Some (e, t\<lparr>sch := y\<rparr>) \<and> same_view s' (t\<lparr>sch := y\<rparr>)"
proof -
  obtain sw where sw: "on_sched_ret (rr_scheduler_exit_current c v) s = Some (sw, s')" "sw" "e = None"
    using assms(2,4) by (auto simp: uthread_exit_def split: if_splits)
  then obtain y where "on_sched_ret (rr_scheduler_exit_current c v) t = Some (sw, t\<lparr>sch := y\<rparr>)" "same_view s' (t\<lparr>sch := y\<rparr>)"
    using on_sched_ret_view [where f = "rr_scheduler_exit_current c v", OF exit_erase assms(1)] by blast
  then show ?thesis using assms(3) sw by (auto simp: uthread_exit_def)
qed

lemma join_finish_view:
  assumes "same_view s t" and "join_finish p out s = Some (v, s')"
  shows "\<exists>m. join_finish p out t = Some (v, t\<lparr>umem := m\<rparr>) \<and> same_view s' (t\<lparr>umem := m\<rparr>)"
proof -
  obtain a u where u: "p = Some a" "ut_heap (sch s) a = Some u" using assms(2) by (cases p) (auto simp: join_finish_def)
  obtain w where w: "ut_heap (sch t) a = Some w" "erase_ut w = erase_ut u" using erase_lookup [OF same_viewD(1) [OF assms(1)] u(2)] .
  let ?m = "if out \<noteq> 0 then write_mem out (le_bytes 8 (ut_retval u)) (umem t) else umem t"
  have "join_finish p out t = Some (0, t\<lparr>umem := ?m\<rparr>)"
    using join_finish_defined [OF w(1), of out] u(1) erase_ut_eqD(5) [OF w(2)] by simp
  moreover have "v = 0" "s' = s\<lparr>umem := ?m\<rparr>"
    using join_finish_defined [OF u(2), of out] u(1) assms(2) same_viewD(2) [OF assms(1)] by auto
  ultimately show ?thesis using assms(1) by (auto simp: same_view_def)
qed


text \<open>\<open>stays s m\<close>: whatever \<open>m\<close> returns, configuration, log state and world are those of \<open>s\<close>.\<close>

definition stays :: "('c, 'w) rr \<Rightarrow> ('a \<times> ('c, 'w) rr) option \<Rightarrow> bool" where
  "stays s m \<longleftrightarrow> (\<forall>x s'. m = Some (x, s') \<longrightarrow> cfg s' = cfg s \<and> rcd s' = rcd s \<and> rpl s' = rpl s \<and> world s' = world s)"

lemma stays_if: "(b \<Longrightarrow> stays s m) \<Longrightarrow> (\<not> b \<Longrightarrow> stays s n) \<Longrightarrow> stays s (if b then m else n)"
  by simp

lemma stays_bind: "(\<And>x. stays s (f x)) \<Longrightarrow> stays s (Option.bind m f)"
  by (auto simp: stays_def)

lemma stays_ret: "stays s (Some (x, s))"
  by (simp add: stays_def)

lemma stays_fail: "stays s (fail_with e s)"
  by (simp add: stays_def fail_with_def)

lemma stays_join_finish: "stays s (do { (v, s) \<leftarrow> join_finish p out s; Some (Ret v, s) })"
  by (auto simp: stays_def join_finish_def copy_to_def split: if_splits)

lemma stays_join_finish_sch: "stays s (do { (v, s) \<leftarrow> join_finish p out (s\<lparr>sch := x\<rparr>); Some (Ret v, s) })"
  by (auto simp: stays_def join_finish_def copy_to_def split: if_splits)

lemma stays_join_wait:
  "stays s (do { s \<leftarrow> on_sched f s; (switched, s) \<leftarrow> on_sched_ret g s;
                 if switched then Some (Suspended, s) else do { (v, s) \<leftarrow> join_finish p out s; Some (Ret v, s) } })"
  by (auto simp: stays_def on_sched_def on_sched_ret_def join_finish_def copy_to_def split: if_splits)

lemma stays_join: "stays s (uthread_join ctx i out s)"
  unfolding uthread_join_def rr_uthread_join_def Let_def
  by (intro stays_if stays_fail stays_bind stays_join_finish stays_join_wait)

lemma join_frame:
  "uthread_join ctx i out s = Some (r, s') \<Longrightarrow> cfg s' = cfg s \<and> rcd s' = rcd s \<and> rpl s' = rpl s \<and> world s' = world s"
  using stays_join [of s ctx i out] by (simp add: stays_def)

lemma join_wait_view:
  assumes "same_view s t"
    and "do { s \<leftarrow> on_sched (ut_upd p (ut_join_waiter_update (\<lambda>_. self))) s;
              (switched, s) \<leftarrow> on_sched_ret (rr_scheduler_block_current c) s;
              if switched then Some (Suspended, s) else do { (v, s) \<leftarrow> join_finish p out s; Some (Ret v, s) } } = Some (r, s')"
  shows "\<exists>t'. do { t \<leftarrow> on_sched (ut_upd p (ut_join_waiter_update (\<lambda>_. self))) t;
              (switched, t) \<leftarrow> on_sched_ret (rr_scheduler_block_current c) t;
              if switched then Some (Suspended, t) else do { (v, t) \<leftarrow> join_finish p out t; Some (Ret v, t) } } = Some (r, t') \<and> same_view s' t'"
proof -
  obtain s1 sw s2 where 1: "on_sched (ut_upd p (ut_join_waiter_update (\<lambda>_. self))) s = Some s1"
    "on_sched_ret (rr_scheduler_block_current c) s1 = Some (sw, s2)"
    and fin: "(if sw then Some (Suspended, s2) else do { (v, s) \<leftarrow> join_finish p out s2; Some (Ret v, s) }) = Some (r, s')"
    using assms(2) by (auto simp: bind_eq_Some_conv)
  obtain t1 where t1: "on_sched (ut_upd p (ut_join_waiter_update (\<lambda>_. self))) t = Some t1" "same_view s1 t1"
    using on_sched_view [OF set_waiter_erase assms(1) 1(1)] by blast
  obtain t2 where t2: "on_sched_ret (rr_scheduler_block_current c) t1 = Some (sw, t2)" "same_view s2 t2"
    using on_sched_ret_view [where f = "rr_scheduler_block_current c", OF block_erase t1(2) 1(2)] by blast
  show ?thesis
  proof (cases sw)
    case True
    then show ?thesis using fin t1(1) t2 by auto
  next
    case False
    then obtain v where "join_finish p out s2 = Some (v, s')" "r = Ret v" using fin by auto
    then show ?thesis using join_finish_view [OF t2(2)] False t1(1) t2(1) by fastforce
  qed
qed

text \<open>Joining a thread that was found, as a function of what it depends on.\<close>

definition join_found :: "(utp \<Rightarrow> 'c) \<Rightarrow> u64 \<Rightarrow> utp \<Rightarrow> utp \<Rightarrow> bool option \<Rightarrow> ut_state_t \<Rightarrow> utp \<Rightarrow> ('c, 'w) rr \<Rightarrow> (int outc \<times> ('c, 'w) rr) option" where
  "join_found ctx out target self same st jw s = do {
     same \<leftarrow> same;
     if same then fail_with EDEADLK s
     else if st \<noteq> UT_DONE then
       if self = None then fail_with EINVAL s
       else if jw \<noteq> None \<and> jw \<noteq> self then fail_with EBUSY s
       else do {
         s \<leftarrow> on_sched (ut_upd target (ut_join_waiter_update (\<lambda>_. self))) s;
         (switched, s) \<leftarrow> on_sched_ret (rr_scheduler_block_current (ctx target)) s;
         if switched then Some (Suspended, s) else do { (v, s) \<leftarrow> join_finish target out s; Some (Ret v, s) }
       }
     else do { (v, s) \<leftarrow> join_finish target out s; Some (Ret v, s) } }"

definition same_id :: "'c sched \<Rightarrow> u64 \<Rightarrow> bool option" where
  "same_id x i = (if g_current x \<noteq> None then map_option (\<lambda>c. i = ut_id c) (deref x (g_current x)) else Some False)"

lemma join_found_eq:
  "runtime_ready (cfg s) \<Longrightarrow> rr_scheduler_find i (sch s) = Some (Some a) \<Longrightarrow> ut_heap (sch s) a = Some u \<Longrightarrow>
   uthread_join ctx i out s
     = join_found ctx out (Some a) (g_current (sch s)) (same_id (sch s) (ut_id u)) (ut_state u) (ut_join_waiter u) s"
  unfolding uthread_join_def rr_uthread_join_def rr_scheduler_current_def same_id_def join_found_def Let_def by simp

lemma same_id_erase:
  assumes "erase x = erase y"
  shows "same_id y i = same_id x i"
proof -
  have "map_option (\<lambda>c. i = ut_id c) (ut_heap y b) = map_option (\<lambda>c. i = ut_id c) (ut_heap x b)" for b
    using arg_cong [OF erase_eqD(6) [OF assms, of b], of "map_option (\<lambda>c. i = ut_id c)"] by (simp add: option.map_comp comp_def)
  then show ?thesis using erase_eqD(3) [OF assms] by (cases "g_current x") (simp_all add: same_id_def)
qed

lemma fail_view: "same_view s t \<Longrightarrow> fail_with n s = Some (r, s') \<Longrightarrow> \<exists>t'. fail_with n t = Some (r, t') \<and> same_view s' t'"
  by (auto simp: fail_with_def same_view_def)

lemma join_found_view:
  assumes v: "same_view s t" and j: "join_found ctx out p self b st jw s = Some (r, s')"
  shows "\<exists>t'. join_found ctx out p self b st jw t = Some (r, t') \<and> same_view s' t'"
proof -
  have fin: "\<exists>t'. do { (v, t) \<leftarrow> join_finish p out t; Some (Ret v, t) } = Some (r, t') \<and> same_view s' t'"
    if "do { (v, s) \<leftarrow> join_finish p out s; Some (Ret v, s) } = Some (r, s')"
    using that join_finish_view [OF v, of p out] by fastforce
  obtain same where b: "b = Some same" using j by (auto simp: join_found_def)
  consider "same" | "\<not> same" "st \<noteq> UT_DONE" "self = None" | "\<not> same" "st \<noteq> UT_DONE" "self \<noteq> None" "jw \<noteq> None \<and> jw \<noteq> self"
    | "\<not> same" "st \<noteq> UT_DONE" "self \<noteq> None" "\<not> (jw \<noteq> None \<and> jw \<noteq> self)" | "\<not> same" "st = UT_DONE"
    by blast
  then show ?thesis
  proof cases
    case 4
    have "\<exists>t'. do { t \<leftarrow> on_sched (ut_upd p (ut_join_waiter_update (\<lambda>_. self))) t;
              (switched, t) \<leftarrow> on_sched_ret (rr_scheduler_block_current (ctx p)) t;
              if switched then Some (Suspended, t) else do { (v, t) \<leftarrow> join_finish p out t; Some (Ret v, t) } } = Some (r, t') \<and> same_view s' t'"
      by (rule join_wait_view [OF v]) (use j b 4 in \<open>simp only: join_found_def bind.simps if_True if_False simp_thms\<close>)
    then show ?thesis using b 4 by (simp only: join_found_def bind.simps if_True if_False simp_thms)
  qed (use j b fail_view [OF v] fin in \<open>simp_all only: join_found_def bind.simps if_True if_False simp_thms\<close>)
qed

lemma join_view:
  assumes v: "same_view s t" and rd: "runtime_ready (cfg s)" "runtime_ready (cfg t)" and j: "uthread_join ctx i out s = Some (r, s')"
  shows "\<exists>t'. uthread_join ctx i out t = Some (r, t') \<and> same_view s' t'"
proof -
  note e = erase_eqD [OF same_viewD(1) [OF v]]
  obtain f where f: "rr_scheduler_find i (sch s) = Some f"
    using j rd by (cases "rr_scheduler_find i (sch s)") (simp_all add: uthread_join_def rr_uthread_join_def)
  show ?thesis
  proof (cases f)
    case None
    then show ?thesis using fail_view [OF v, of ESRCH] j rd f e(7) [of i] by (simp add: uthread_join_def rr_uthread_join_def)
  next
    case (Some a)
    obtain u where u: "ut_heap (sch s) a = Some u"
      using j rd f Some by (cases "ut_heap (sch s) a") (simp_all add: uthread_join_def rr_uthread_join_def)
    obtain w where w: "ut_heap (sch t) a = Some w" "erase_ut w = erase_ut u" using erase_lookup [OF same_viewD(1) [OF v] u] .
    have ft: "rr_scheduler_find i (sch t) = Some (Some a)" using f Some e(7) [of i] by simp
    have "uthread_join ctx i out t
      = join_found ctx out (Some a) (g_current (sch s)) (same_id (sch s) (ut_id u)) (ut_state u) (ut_join_waiter u) t"
      using join_found_eq [OF rd(2) ft w(1), of ctx out] erase_ut_eqD [OF w(2)] e(3) same_id_erase [OF same_viewD(1) [OF v]] by simp
    moreover have "uthread_join ctx i out s
      = join_found ctx out (Some a) (g_current (sch s)) (same_id (sch s) (ut_id u)) (ut_state u) (ut_join_waiter u) s"
      using join_found_eq [OF rd(1) _ u] f Some by simp
    ultimately show ?thesis using join_found_view [OF v] j by metis
  qed
qed

section \<open>Creating threads on states that look the same\<close>

lemma register_all_true: "alloc_ok os \<Longrightarrow> fst (register_all os m pg i a s)"
  using register_all_ok [of os m pg i a s] by (metis fst_conv)

lemma create_rest_some:
  assumes ok: "env_ok os" and r: "create_rest os mk a i m pg k s = Some (r, s')"
  shows "r \<noteq> None"
proof -
  obtain b w where b: "kres (os_get_fs os) s = (Some b, s\<lparr>world := w\<rparr>)" using env_okD(5) [OF ok, of s] by blast
  obtain s1 where s1: "init_tls_copy os (Some a) s = Some (0, s1)"
    using r b by (auto simp: create_rest_def init_tls_copy_def rr_get_fs_base_def)
  obtain w1 where w1: "kres (os_getcontext os) s1 = (Some (), s1\<lparr>world := w1\<rparr>)" using env_okD(4) [OF ok, of s1] by blast
  obtain s2 where s2: "on_sched (ut_upd (Some a) (ut_ctx_update (\<lambda>_. Some (mk a)))) (s1\<lparr>world := w1\<rparr>) = Some s2"
    using r s1 w1 by (auto simp: create_rest_def)
  obtain s3 where "register_all os m pg i a s2 = (True, s3)"
    using register_all_true [OF env_okD(1) [OF ok], of m pg i a s2] by (cases "register_all os m pg i a s2") auto
  then show ?thesis using r s1 w1 s2 by (auto simp: create_rest_def)
qed

lemma create_some:
  assumes ok: "env_ok os" and fn: "fn \<noteq> 0" and r: "rr_uthread_create os mk fn arg s = Some (r, s')"
  shows "r \<noteq> None"
proof -
  let ?pg = "os_pagesize os" and ?stk = "stack_size (cfg s)"
  obtain w where "ut_calloc os s = (Some (ut_brk (sch s)), s\<lparr>world := w, sch := (sch s)\<lparr>ut_heap := (ut_heap (sch s))(ut_brk (sch s) \<mapsto> ut_zero),
      ut_brk := ut_brk (sch s) + 1\<rparr>\<rparr>)"
    using env_okD(1) [OF ok] by (rule calloc_ok)
  then obtain t where t: "ut_calloc os s = (Some (ut_brk (sch s)), t)" "cfg t = cfg s" by simp
  obtain m w1 where m: "kres (os_mmap os (?pg + ?stk) False) t = (Some m, t\<lparr>world := w1\<rparr>)" using env_okD(2) [OF ok, of _ _ t] by blast
  obtain w2 where w2: "kres (os_mprotect_rw os (m + ?pg) ?stk) (t\<lparr>world := w1\<rparr>) = (Some (), t\<lparr>world := w2\<rparr>)"
    using env_okD(3) [OF ok, of "m + ?pg" ?stk "t\<lparr>world := w1\<rparr>"] by auto
  show ?thesis using r fn t m w2 create_rest_some [OF ok] by (auto simp: rr_uthread_create_def Let_def)
qed

lemma erase_new_ut: "erase_ut (new_ut i m pg stk fn arg tls c) = erase_ut (new_ut i 0 0 0 fn arg 0 c)"
  by (simp add: erase_ut_def new_ut_def ut_setup_def)

lemma erase_with_ut:
  assumes "erase x = erase y" and "erase_ut u = erase_ut v"
  shows "erase (with_ut a u tc x) = erase (with_ut a v tc' y)"
proof -
  have h: "map_option erase_ut (ut_heap x b) = map_option erase_ut (ut_heap y b)" for b using erase_eqD(6) [OF assms(1), of b] by simp
  have t: "g_runq_tail x = g_runq_tail y" using arg_cong [OF assms(1), of g_runq_tail] by simp
  show ?thesis
    by (rule sched.equality) (use h t assms(2) erase_eqD [OF assms(1)] in \<open>auto simp: erase_def with_ut_def\<close>)
qed

lemma create_view:
  assumes v: "same_view s t" and rd: "runtime_ready (cfg s)" "runtime_ready (cfg t)" and ok: "env_ok os1" "env_ok os2"
    and fresh: "ut_heap (sch s) (ut_brk (sch s)) = None"
    and enq: "\<And>u tc. \<exists>y. rr_scheduler_enqueue (Some (ut_brk (sch s))) (with_ut (ut_brk (sch s)) u tc (sch s)) = Some y"
    and c: "uthread_create os1 mk fn arg s = Some (i, s')"
  shows "create_frame s s' \<and> quiet os1 (world s) (world s')
    \<and> (\<exists>t'. uthread_create os2 mk fn arg t = Some (i, t') \<and> same_view s' t' \<and> create_frame t t' \<and> quiet os2 (world t) (world t'))"
proof (cases "fn = 0")
  case True
  then have "i = 0" "s' = s\<lparr>errno := EINVAL\<rparr>" using c rd by (simp_all add: uthread_create_def rr_uthread_create_def)
  moreover have "uthread_create os2 mk fn arg t = Some (0, t\<lparr>errno := EINVAL\<rparr>)"
    using True rd by (simp add: uthread_create_def rr_uthread_create_def)
  ultimately show ?thesis using v by (simp add: create_frame_def same_view_def)
next
  case fn: False
  note e = same_viewD(1) [OF v]
  let ?a = "ut_brk (sch s)"
  have brk: "ut_brk (sch t) = ?a" using erase_eqD(1) [OF e] .
  have freshT: "ut_heap (sch t) (ut_brk (sch t)) = None" using erase_eqD(6) [OF e, of ?a] fresh brk by simp
  have enqT: "\<exists>y. rr_scheduler_enqueue (Some (ut_brk (sch t))) (with_ut (ut_brk (sch t)) u tc (sch t)) = Some y" for u tc
  proof -
    obtain y where "rr_scheduler_enqueue (Some ?a) (with_ut ?a u tc (sch s)) = Some y" using enq by blast
    from transfer [OF enqueue_erase erase_with_ut [OF e refl] this] show ?thesis using brk by auto
  qed
  obtain r where r: "rr_uthread_create os1 mk fn arg s = Some (r, s')" using c rd by (auto simp: uthread_create_def)
  have cr: "created os1 mk fn arg s r s'" using create_total [OF env_okD(1) [OF ok(1)] fresh enq, of mk fn arg] r by auto
  have "r \<noteq> None" using create_some [OF ok(1) fn r] .
  then have ri: "r = Some i" using c r rd by (auto simp: uthread_create_def)
  obtain r2 t' where t: "rr_uthread_create os2 mk fn arg t = Some (r2, t')" "created os2 mk fn arg t r2 t'"
    using create_total [OF env_okD(1) [OF ok(2)] freshT enqT] by blast
  obtain j where rj: "r2 = Some j" using create_some [OF ok(2) fn t(1)] by blast
  have ij: "i = g_next_id (uth s)" "j = i" using cr t(2) ri rj same_viewD(4) [OF v] by (simp_all add: created_def)
  obtain m pg stk tls tc where S: "rr_scheduler_enqueue (Some ?a) (with_ut ?a (new_ut i m pg stk fn arg tls (mk ?a)) tc (sch s)) = Some (sch s')"
    "g_next_id (uth s') = i + 1" "errno s' = errno s"
    using cr ri by (auto simp: created_def)
  obtain m' pg' stk' tls' tc' where T: "rr_scheduler_enqueue (Some ?a) (with_ut ?a (new_ut i m' pg' stk' fn arg tls' (mk ?a)) tc' (sch t)) = Some (sch t')"
    "g_next_id (uth t') = i + 1" "errno t' = errno t"
    using t(2) rj ij brk by (auto simp: created_def)
  have "erase (with_ut ?a (new_ut i m pg stk fn arg tls (mk ?a)) tc (sch s)) = erase (with_ut ?a (new_ut i m' pg' stk' fn arg tls' (mk ?a)) tc' (sch t))"
    using e by (rule erase_with_ut) (simp add: erase_new_ut [of i m pg stk] erase_new_ut [of i m' pg' stk'])
  from transfer [OF enqueue_erase this S(1)] T(1) have "erase (sch s') = erase (sch t')" by simp
  moreover have "create_frame s s'" "quiet os1 (world s) (world s')" "create_frame t t'" "quiet os2 (world t) (world t')"
    using cr t(2) by (simp_all add: created_def)
  moreover have "uthread_create os2 mk fn arg t = Some (i, t')" using t(1) rd rj ij by (simp add: uthread_create_def)
  ultimately show ?thesis using S(2,3) T(2,3) v by (auto simp: same_view_def create_frame_def)
qed

end
