(* ===== verification/RR_Determinism.thy ===== *)
theory RR_Determinism
  imports RR_ViewOps
begin

text \<open>
  Replay repeats the recorded run. A step of a recorded run that stays within the calls whose
  results fit into an event, and that never has to wait for I/O, appends some events to the log;
  a replaying system that looks the same to the program and has these events before it takes
  the same step, and again looks the same. By induction the replayed run goes through the same
  program states, memory contents and thread switches.
\<close>

section \<open>Systems that look the same\<close>

fun state_of :: "('u, 'w) sys \<Rightarrow> ('u ctx, 'w) rr" where
  "state_of (User x s) = s"
| "state_of (InSched s) = s"
| "state_of (Ended e s) = s"

fun ended :: "('u, 'w) sys \<Rightarrow> bool" where
  "ended (Ended e s) = True"
| "ended _ = False"

fun same_sys :: "('u, 'w) sys \<Rightarrow> ('u, 'v) sys \<Rightarrow> bool" where
  "same_sys (User x s) (User y t) = (x = y \<and> same_view s t)"
| "same_sys (InSched s) (InSched t) = same_view s t"
| "same_sys _ _ = False"

lemma same_sys_view: "same_sys S T \<Longrightarrow> same_view (state_of S) (state_of T)"
  by (cases S; cases T) auto

text \<open>A step that neither logs nor consumes an event.\<close>

definition silent :: "'w os \<Rightarrow> ('u ctx, 'w) rr \<Rightarrow> ('u, 'w) sys \<Rightarrow> bool" where
  "silent os s S \<longleftrightarrow> \<not> ended S \<and> cfg (state_of S) = cfg s \<and> rcd (state_of S) = rcd s \<and> rpl (state_of S) = rpl s
     \<and> quiet os (world s) (world (state_of S))"

text \<open>The step to \<open>S'\<close> from a recorded state that looks like \<open>s\<close> is repeated by \<open>step2\<close> from every replaying state
  that looks the same and is about to read the events that the step has logged.\<close>

definition repeated where
  "repeated fl hdr os2 rest evs s S' step2 \<longleftrightarrow> \<not> ended S' \<and> (\<exists>new. event_log fl (state_of S') hdr (evs @ new)
     \<and> (\<forall>t es. same_view s t \<longrightarrow> replaying os2 rest t (new @ es) \<longrightarrow>
          (\<exists>T'. step2 t = Some T' \<and> same_sys S' T' \<and> replaying os2 rest (state_of T') es)))"

lemma replaying_ready: "replaying os rest t es \<Longrightarrow> runtime_ready (cfg t)"
  by (simp add: replaying_def rr_replay_active_def cfg_replay_active_def)

lemma event_log_quiet:
  assumes "event_log fl s hdr evs" and "log_private os fl" and "rcd s' = rcd s" and "quiet os (world s) (world s')"
  shows "event_log fl s' hdr evs"
  using assms quietD [OF assms(4,2)] by (simp add: event_log_def contents_def)

lemma repeated_silent:
  assumes log: "event_log fl s hdr evs" and lp: "log_private os1 fl" "log_private os2 rest" and S: "silent os1 s S'"
    and T: "\<And>t. same_view s t \<Longrightarrow> runtime_ready (cfg t) \<Longrightarrow> \<exists>T'. step2 t = Some T' \<and> same_sys S' T' \<and> silent os2 t T'"
  shows "repeated fl hdr os2 rest evs s S' step2"
proof -
  have "event_log fl (state_of S') hdr (evs @ [])"
    using event_log_quiet [OF log lp(1), of "state_of S'"] S by (simp add: silent_def)
  moreover have "\<exists>T'. step2 t = Some T' \<and> same_sys S' T' \<and> replaying os2 rest (state_of T') es"
    if v: "same_view s t" and rt: "replaying os2 rest t ([] @ es)" for t es
  proof -
    have r: "replaying os2 rest t es" using rt by simp
    obtain T' where T': "step2 t = Some T'" "same_sys S' T'" "silent os2 t T'" using T [OF v replaying_ready [OF r]] by blast
    then show ?thesis using replaying_env [OF r lp(2)] by (auto simp: silent_def)
  qed
  ultimately show ?thesis using S unfolding repeated_def silent_def by blast
qed

section \<open>Requests without events\<close>

lemma enter_silent: "silent os s (enter_sched os s)"
  by (simp add: silent_def enter_sched_def set_fs_quiet)

lemma silent_trans:
  assumes "cfg s' = cfg s" and "rcd s' = rcd s" and "rpl s' = rpl s" and "quiet os (world s) (world s')" and "silent os s' S"
  shows "silent os s S"
  using assms quiet_trans [OF assms(4)] by (simp add: silent_def)

lemma enter_same: "env_ok os1 \<Longrightarrow> env_ok os2 \<Longrightarrow> same_view s t \<Longrightarrow> same_sys (enter_sched os1 s) (enter_sched os2 t)"
  by (simp add: enter_sched_def same_view_set_fs)

lemma user_same: "same_view s t \<Longrightarrow> same_sys (User (k v (errno s)) s) (User (k v (errno t)) t)"
  using same_viewD(3) [of s t] by simp

text \<open>Each request is silent in every mode, and repeated by the same request of a state that looks the same.\<close>

lemma exit_frame: "uthread_exit c r s = Some (e, s') \<Longrightarrow> runtime_ready (cfg s) \<Longrightarrow> e = None \<and> (\<exists>y. s' = s\<lparr>sch := y\<rparr>)"
  by (auto simp: uthread_exit_def on_sched_ret_def split: if_splits)

lemma exit_step:
  assumes ok: "env_ok os1" "env_ok os2" and v: "same_view s t" and rd: "runtime_ready (cfg s)" "runtime_ready (cfg t)"
    and S: "do_exit os1 r s = Some S'"
  shows "silent os1 s S' \<and> (\<exists>T'. do_exit os2 r t = Some T' \<and> same_sys S' T' \<and> silent os2 t T')"
proof -
  obtain e s' where 1: "uthread_exit CDone r s = Some (e, s')" using S by (auto simp: do_exit_def)
  obtain y where s': "e = None" "s' = s\<lparr>sch := y\<rparr>" using exit_frame [OF 1 rd(1)] by blast
  obtain z where z: "uthread_exit CDone r t = Some (e, t\<lparr>sch := z\<rparr>)" "same_view s' (t\<lparr>sch := z\<rparr>)"
    using exit_view [OF v rd 1] by blast
  have "S' = enter_sched os1 s'" using S 1 s' by (simp add: do_exit_def)
  moreover have "do_exit os2 r t = Some (enter_sched os2 (t\<lparr>sch := z\<rparr>))" using z s' by (simp add: do_exit_def)
  moreover have "silent os1 s (enter_sched os1 s')" by (rule silent_trans [OF _ _ _ _ enter_silent]) (simp_all add: s')
  moreover have "silent os2 t (enter_sched os2 (t\<lparr>sch := z\<rparr>))" by (rule silent_trans [OF _ _ _ _ enter_silent]) simp_all
  ultimately show ?thesis using enter_same [OF ok z(2)] by auto
qed

lemma yield_step:
  assumes ok: "env_ok os1" "env_ok os2" and v: "same_view s t" and rd: "runtime_ready (cfg s)" "runtime_ready (cfg t)"
    and S: "request os1 k RYield s = Some S'"
  shows "silent os1 s S' \<and> (\<exists>T'. request os2 k RYield t = Some T' \<and> same_sys S' T' \<and> silent os2 t T')"
proof -
  obtain b s' where 1: "uthread_yield (CYield k) s = Some (b, s')" using S by (auto simp: request_def)
  obtain y where s': "s' = s\<lparr>sch := y\<rparr>" using 1 rd by (auto simp: uthread_yield_def on_sched_ret_def)
  obtain z where z: "uthread_yield (CYield k) t = Some (b, t\<lparr>sch := z\<rparr>)" "same_view s' (t\<lparr>sch := z\<rparr>)"
    using yield_view [OF v rd 1] by blast
  have e: "silent os1 s (enter_sched os1 s')" "silent os2 t (enter_sched os2 (t\<lparr>sch := z\<rparr>))"
    by (rule silent_trans [OF _ _ _ _ enter_silent]; simp add: s')+
  show ?thesis
  proof (cases b)
    case True
    then show ?thesis using S 1 z e enter_same [OF ok z(2)] by (simp add: request_def)
  next
    case False
    have "S' = User (k 0 (errno s')) s'" "request os2 k RYield t = Some (User (k 0 (errno (t\<lparr>sch := z\<rparr>))) (t\<lparr>sch := z\<rparr>))"
      using S 1 z False by (simp_all add: request_def)
    then show ?thesis using user_same [OF z(2), of k 0] by (simp add: silent_def s')
  qed
qed

lemma join_step:
  assumes ok: "env_ok os1" "env_ok os2" and v: "same_view s t" and rd: "runtime_ready (cfg s)" "runtime_ready (cfg t)"
    and S: "request os1 k (RJoin i out) s = Some S'"
  shows "silent os1 s S' \<and> (\<exists>T'. request os2 k (RJoin i out) t = Some T' \<and> same_sys S' T' \<and> silent os2 t T')"
proof -
  let ?ctx = "\<lambda>target. CJoin target out k"
  obtain r s' where 1: "uthread_join ?ctx i out s = Some (r, s')" "S' = reply os1 k (r, s')" using S by (auto simp: request_def)
  obtain t' where 2: "uthread_join ?ctx i out t = Some (r, t')" "same_view s' t'" using join_view [OF v rd 1(1)] by blast
  have T: "request os2 k (RJoin i out) t = Some (reply os2 k (r, t'))" using 2(1) by (simp add: request_def)
  have e: "silent os1 s (enter_sched os1 s')" "silent os2 t (enter_sched os2 t')"
    using join_frame [OF 1(1)] join_frame [OF 2(1)] by (auto intro: silent_trans [OF _ _ _ _ enter_silent])
  show ?thesis
  proof (cases r)
    case (Ret x)
    then show ?thesis using 1(2) T user_same [OF 2(2), of k x] join_frame [OF 1(1)] join_frame [OF 2(1)]
      by (simp add: reply_def silent_def)
  next
    case Suspended
    then show ?thesis using 1(2) T e enter_same [OF ok 2(2)] by (simp add: reply_def)
  qed
qed

lemma create_step:
  assumes ok: "env_ok os1" "env_ok os2" and v: "same_view s t" and rd: "runtime_ready (cfg s)" "runtime_ready (cfg t)"
    and ti: "thread_inv N s A" and S: "request os1 k (RCreate fn arg) s = Some S'"
  shows "silent os1 s S' \<and> (\<exists>T'. request os2 k (RCreate fn arg) t = Some T' \<and> same_sys S' T' \<and> silent os2 t T')"
proof -
  obtain i s' where 1: "uthread_create os1 CEntry fn arg s = Some (i, s')" "S' = User (k (uint i) (errno s')) s'"
    using S by (auto simp: request_def)
  obtain t' where 2: "create_frame s s'" "quiet os1 (world s) (world s')" "uthread_create os2 CEntry fn arg t = Some (i, t')"
    "same_view s' t'" "create_frame t t'" "quiet os2 (world t) (world t')"
    using create_view [OF v rd ok brk_fresh [OF ti] enq_new [OF ti] 1(1)] by blast
  have "request os2 k (RCreate fn arg) t = Some (User (k (uint i) (errno t')) t')" using 2(3) by (simp add: request_def)
  then show ?thesis using 1(2) 2 user_same [OF 2(4), of k "uint i"] by (simp add: silent_def create_frame_def)
qed

section \<open>Calls that are logged\<close>

text \<open>The calls whose results fit into an event, with what the libc function promises about them.\<close>

fun det_call :: "'w os \<Rightarrow> ('w \<Rightarrow> u8 list) \<Rightarrow> libc_call \<Rightarrow> bool" where
  "det_call os fl (CClockGettime c p) = (real_struct os fl (CClockGettime c p) p sizeof_timespec \<and> p \<noteq> 0)"
| "det_call os fl (CGettimeofday p z) = (real_struct os fl (CGettimeofday p z) p sizeof_timeval \<and> p \<noteq> 0)"
| "det_call os fl CGetpid = real_scalar os fl CGetpid"
| "det_call os fl CGetuid = real_scalar os fl CGetuid"
| "det_call os fl (CGetcwd buf n) = (real_getcwd os fl buf n \<and> buf \<noteq> 0)"
| "det_call os fl _ = False"

lemma repeated_call:
  assumes f: "f1 s = Some (v, s')" "event_log fl s' hdr (evs @ [ev])"
    and g: "\<And>t es. same_view s t \<Longrightarrow> replaying os2 rest t (ev # es) \<Longrightarrow> \<exists>t'. f2 t = Some (v, t') \<and> replaying os2 rest t' es \<and> same_view s' t'"
    and c: "do_call os1 k call s = immediate (f1 s)" "\<And>t. do_call os2 k call t = immediate (f2 t)"
    and S: "request os1 k (RCall call) s = Some S'"
  shows "repeated fl hdr os2 rest evs s S' (request os2 k (RCall call))"
proof -
  have S': "S' = User (k v (errno s')) s'" using S f(1) c(1) by (simp add: request_def immediate_def reply_def)
  have "\<exists>T'. request os2 k (RCall call) t = Some T' \<and> same_sys S' T' \<and> replaying os2 rest (state_of T') es"
    if v: "same_view s t" and rt: "replaying os2 rest t ([ev] @ es)" for t es
  proof -
    obtain t' where t': "f2 t = Some (v, t')" "replaying os2 rest t' es" "same_view s' t'" using g [of t es] v rt by auto
    then show ?thesis using S' c(2) [of t] user_same [OF t'(3), of k v] by (simp add: request_def immediate_def reply_def)
  qed
  then show ?thesis unfolding repeated_def using S' f(2) by (intro conjI exI [of _ "[ev]"]) auto
qed

lemma call_step:
  assumes r: "recording os1 fl hdr s evs" and d: "det_call os1 fl call" and S: "request os1 k (RCall call) s = Some S'"
  shows "repeated fl hdr os2 rest evs s S' (request os2 k (RCall call))"
proof (cases call)
  case (CClockGettime c p)
  then have "struct_logged os1 fl hdr (CClockGettime c p) p sizeof_timespec s evs" using r d by (simp add: struct_logged_def)
  from rp_clock.faithful [OF this, of os2 rest] show ?thesis
    by (elim exE conjE, intro repeated_call [OF _ _ _ _ _ S]) (auto simp: struct_logged_def recording_def do_call_def CClockGettime)
next
  case (CGettimeofday p z)
  then have "struct_logged os1 fl hdr (CGettimeofday p z) p sizeof_timeval s evs" using r d by (simp add: struct_logged_def)
  from rp_tod.faithful [OF this, of os2 rest] show ?thesis
    by (elim exE conjE, intro repeated_call [OF _ _ _ _ _ S]) (auto simp: struct_logged_def recording_def do_call_def CGettimeofday)
next
  case CGetpid
  then have "scalar_logged os1 fl hdr CGetpid s evs" using r d by (simp add: scalar_logged_def)
  from rp_pid.faithful [OF this, of os2 rest] show ?thesis
    by (elim exE conjE, intro repeated_call [OF _ _ _ _ _ S]) (auto simp: scalar_logged_def recording_def do_call_def CGetpid)
next
  case CGetuid
  then have "scalar_logged os1 fl hdr CGetuid s evs" using r d by (simp add: scalar_logged_def)
  from rp_uid.faithful [OF this, of os2 rest] show ?thesis
    by (elim exE conjE, intro repeated_call [OF _ _ _ _ _ S]) (auto simp: scalar_logged_def recording_def do_call_def CGetuid)
next
  case (CGetcwd buf n)
  then have "cwd_logged os1 fl hdr buf n s evs" using r d by (simp add: cwd_logged_def)
  from rp_cwd.faithful [OF this, of os2 rest] show ?thesis
    by (elim exE conjE, intro repeated_call [OF _ _ _ _ _ S]) (auto simp: cwd_logged_def recording_def do_call_def CGetcwd)
qed (use d in auto)

section \<open>The dispatcher\<close>

lemma note_switch_records:
  assumes r: "recording os fl hdr s evs"
  shows "\<exists>s'. note_switch os i j s = Some (True, s') \<and> event_log fl s' hdr (evs @ switch_events (length evs) i j) \<and> log_only s s'"
proof (cases "i = j")
  case True
  then show ?thesis using r by (simp add: recording_def switch_events_def log_only_def)
next
  case False
  have m: "mode_record (cfg s)" "\<not> rr_replay_active s" "rec_inv os fl never s" "event_log fl s hdr evs"
    using r by (simp_all add: recording_def rr_active_def cfg_active_def)
  obtain s' where s': "rr_log_sched os i j s = Some s'" "event_log fl s' hdr (evs @ switch_events (length evs) i j)"
    "log_frame (snd (rr_next_seq s)) s'"
    using log_sched_total [OF m(1,3,4), of i j] False by (auto simp: switch_events_def)
  have "log_only s s'" using s'(3) log_sched_quiet [OF m(3) s'(1)] by (rule log_frame_only)
  then show ?thesis using s'(1,2) False m(2) by (auto simp: note_switch_def)
qed

lemma note_switch_replays:
  assumes r: "replaying os rest t (switch_events n i j @ es)"
  shows "\<exists>t'. note_switch os i j t = Some (True, t') \<and> replaying os rest t' es \<and> log_only t t'"
proof (cases "i = j")
  case True
  then show ?thesis using r by (simp add: switch_events_def log_only_def)
next
  case False
  let ?ev = "sched_event (of_nat (Suc n)) i j"
  have log: "replay_log os rest never t (?ev # es)" and act: "rr_replay_active t" using r False by (simp_all add: replaying_def switch_events_def)
  obtain t' where t': "rr_replay_next_event os t = Some (Some ?ev, t')" "replay_log os rest never t' es" "replay_frame t t'"
    using next_event_Cons [OF log] by blast
  have "note_switch os i j t = Some (True, t')"
    using t'(1) act False by (simp add: note_switch_def rr_replay_expect_sched_def sched_event_def)
  moreover have "log_only t t'" using replay_frameD [OF t'(3)] next_event_quiet [OF log t'(1)] by (simp add: log_only_def)
  moreover have "replaying os rest t' es"
    using r t'(2) replay_frameD(1) [OF t'(3)] by (simp add: replaying_def rr_active_def rr_replay_active_def)
  ultimately show ?thesis by blast
qed

fun io_ctx :: "'u ctx \<Rightarrow> bool" where
  "io_ctx (CIo pt p k) = True"
| "io_ctx _ = False"

lemma resume_step:
  assumes ok: "env_ok os1" "env_ok os2" and v: "same_view s t" and rd: "runtime_ready (cfg s)" "runtime_ready (cfg t)"
    and c: "ctxof (sch s) c = Some ctx" "\<not> io_ctx ctx" and S: "resume os1 start (Some c) s = Some S'"
  shows "silent os1 s S' \<and> (\<exists>T'. resume os2 start (Some c) t = Some T' \<and> same_sys S' T' \<and> silent os2 t T')"
proof -
  note e = same_viewD(1) [OF v]
  obtain u where u: "ut_heap (sch s) c = Some u" "ut_ctx u = Some ctx" using c(1) by (auto simp: ctxof_def)
  obtain w where w: "ut_heap (sch t) c = Some w" "ut_ctx w = Some ctx"
    using erase_lookup [OF e u(1)] u(2) erase_ut_eqD(3) by metis
  show ?thesis
  proof (cases ctx)
    case (CEntry a)
    obtain x where x: "ut_heap (sch s) a = Some x" using S u CEntry by (auto simp: resume_def uthread_entry_def)
    obtain y where y: "ut_heap (sch t) a = Some y" "erase_ut y = erase_ut x" using erase_lookup [OF e x] .
    note f = erase_ut_eqD(7,8) [OF y(2)]
    show ?thesis
    proof (cases "ut_start_fn x = 0")
      case True
      then have "do_exit os1 0 s = Some S'" "resume os2 start (Some c) t = do_exit os2 0 t"
        using S u w CEntry x y f by (simp_all add: resume_def uthread_entry_def)
      then show ?thesis using exit_step [OF ok v rd] by simp
    next
      case False
      then show ?thesis using S u w CEntry x y f v by (auto simp: resume_def uthread_entry_def silent_def)
    qed
  next
    case (CYield k)
    then show ?thesis using S u w v same_viewD(3) [OF v] by (auto simp: resume_def silent_def)
  next
    case (CJoin target out k)
    obtain r s' where r: "join_finish target out s = Some (r, s')" "S' = User (k r (errno s')) s'"
      using S u CJoin by (auto simp: resume_def)
    obtain m where m: "join_finish target out t = Some (r, t\<lparr>umem := m\<rparr>)" "same_view s' (t\<lparr>umem := m\<rparr>)"
      using join_finish_view [OF v r(1)] by blast
    have "cfg s' = cfg s \<and> rcd s' = rcd s \<and> rpl s' = rpl s \<and> world s' = world s"
      using r(1) by (auto simp: join_finish_def copy_to_def split: if_splits)
    then show ?thesis using r(2) m w CJoin user_same [OF m(2), of k r] by (simp add: resume_def silent_def)
  qed (use c(2) S u in \<open>simp_all add: resume_def\<close>)
qed

text \<open>A pass of the dispatcher over states that look the same pops the same thread.\<close>

lemma pop_view:
  assumes v: "same_view s t" and x: "runq_pop_front (sch s) = Some (Some c, x)" and u: "ut_heap x c = Some u"
    and st: "ut_state u = UT_RUNNABLE" and run: "g_sched_running (sch s)" and i: "current_id (s\<lparr>sch := x\<rparr>) = Some i"
  obtains y where "erase x = erase y"
    "scheduler_iter os t = do {
       (ok, t) \<leftarrow> note_switch os i (ut_id u) (t\<lparr>sch := y\<rparr>);
       if \<not> ok then Some (End Aborted, t)
       else do {
         t \<leftarrow> on_sched (make_current (Some c)) t;
         w \<leftarrow> deref (sch t) (Some c);
         Some (Dispatch (Some c), snd (rr_set_fs_base os (ut_tls_block w) t))
       } }"
proof -
  obtain y where y: "runq_pop_front (sch t) = Some (Some c, y)" "erase x = erase y"
    using transfer_ret [where f = runq_pop_front, OF pop_erase same_viewD(1) [OF v] x] by blast
  obtain w where w: "ut_heap y c = Some w" "erase_ut w = erase_ut u" using erase_lookup [OF y(2) u] .
  have it: "current_id (t\<lparr>sch := y\<rparr>) = Some i" using current_id_erase [of "s\<lparr>sch := x\<rparr>" "t\<lparr>sch := y\<rparr>"] y(2) i by simp
  have "g_sched_running (sch t)" using erase_eqD(4) [OF same_viewD(1) [OF v]] run by simp
  then show ?thesis using that [OF y(2)] y(1) w it erase_ut_eqD(1,2) [OF w(2)] st by (simp add: scheduler_iter_def on_sched_ret_def)
qed

lemma dispatch_view:
  assumes ok: "env_ok os1" "env_ok os2" and v: "same_view s t" and m: "make_current (Some c) (sch s) = Some x" and u: "ut_heap x c = Some u"
  obtains y b where "do {
         t \<leftarrow> on_sched (make_current (Some c)) t;
         w \<leftarrow> deref (sch t) (Some c);
         Some (Dispatch (Some c), snd (rr_set_fs_base os2 (ut_tls_block w) t))
       } = Some (Dispatch (Some c), snd (rr_set_fs_base os2 b (t\<lparr>sch := y\<rparr>)))"
    "same_view (snd (rr_set_fs_base os1 (ut_tls_block u) (s\<lparr>sch := x\<rparr>))) (snd (rr_set_fs_base os2 b (t\<lparr>sch := y\<rparr>)))"
proof -
  obtain y where y: "make_current (Some c) (sch t) = Some y" "erase x = erase y"
    using transfer [where f = "make_current (Some c)", OF make_current_erase same_viewD(1) [OF v] m] by blast
  obtain w where w: "ut_heap y c = Some w" using erase_lookup [OF y(2) u] by metis
  show ?thesis
    by (rule that [where y = y and b = "ut_tls_block w"])
      (use y(1) w same_view_set_fs [OF ok same_view_sch [OF v y(2)]] in \<open>simp_all add: on_sched_def\<close>)
qed

text \<open>The recorded pass: the state in which the thread is resumed, and the events logged on the way.\<close>

lemma recorded_dispatch:
  assumes r: "recording os fl hdr s evs" and ti: "thread_inv N s A" and q: "aq A = c # xs" and lp: "log_private os fl"
  obtains x u i s1 y w where "runq_pop_front (sch s) = Some (Some c, x)" "ut_heap x c = Some u" "ut_state u = UT_RUNNABLE"
    "current_id (s\<lparr>sch := x\<rparr>) = Some i" "note_switch os i (ut_id u) (s\<lparr>sch := x\<rparr>) = Some (True, s1)" "log_only (s\<lparr>sch := x\<rparr>) s1"
    "event_log fl s1 hdr (evs @ switch_events (length evs) i (ut_id u))"
    "make_current (Some c) x = Some y" "ut_heap y c = Some w" "ctxof y = ctxof (sch s)"
    "scheduler_iter os s = Some (Dispatch (Some c), snd (rr_set_fs_base os (ut_tls_block w) (s1\<lparr>sch := y\<rparr>)))"
proof -
  obtain x u i where x: "runq_pop_front (sch s) = Some (Some c, x)" "refines x (A\<lparr>aq := xs\<rparr>)" "reg x = reg (sch s)"
    "ut_heap x c = Some u" "ids (sch s) c = Some (ut_id u)" "current_id s = Some i"
    and it: "scheduler_iter os s = do {
       (ok, s) \<leftarrow> note_switch os i (ut_id u) (s\<lparr>sch := x\<rparr>);
       if \<not> ok then Some (End Aborted, s)
       else do {
         s \<leftarrow> on_sched (make_current (Some c)) s;
         u \<leftarrow> deref (sch s) (Some c);
         Some (Dispatch (Some c), snd (rr_set_fs_base os (ut_tls_block u) s)) } }"
    using thread_invD(4,1,2) [OF ti] q by (rule iter_pop)
  have "ast A c = Some UT_RUNNABLE" using thread_invD(2) [OF ti] q by (auto simp: ainv_def)
  then have st: "ut_state u = UT_RUNNABLE" using refinesD(3) [OF x(2), of c] x(4) by simp
  have cur: "g_current x = g_current (sch s)" using refinesD(2) [OF x(2)] refinesD(2) [OF thread_invD(1) [OF ti]] by simp
  then have i: "current_id (s\<lparr>sch := x\<rparr>) = Some i"
    using current_id_ids [of "s\<lparr>sch := x\<rparr>" s] reg_ids [OF x(3)] x(6) by simp
  have "recording os fl hdr (s\<lparr>sch := x\<rparr>) evs" using r lp by (rule recording_env) (simp_all add: i)
  then obtain s1 where s1: "note_switch os i (ut_id u) (s\<lparr>sch := x\<rparr>) = Some (True, s1)"
    "event_log fl s1 hdr (evs @ switch_events (length evs) i (ut_id u))" "log_only (s\<lparr>sch := x\<rparr>) s1"
    using note_switch_records by blast
  have sx: "sch s1 = x" using log_onlyD(2) [OF s1(3)] by simp
  have rx: "refines (sch s1) (A\<lparr>aq := xs\<rparr>)" "c \<in> dom (ut_heap (sch s1))" using x(2,4) sx by auto
  obtain y w where y: "make_current (Some c) (sch s1) = Some y" "refines y (spec_dispatch c A)" "reg y = reg (sch s1)"
    "ctxof y = ctxof (sch s1)" "ut_heap y c = Some w"
    "do {
       s \<leftarrow> on_sched (make_current (Some c)) s1;
       u \<leftarrow> deref (sch s) (Some c);
       Some (Dispatch (Some c), snd (rr_set_fs_base os (ut_tls_block u) s))
     } = Some (Dispatch (Some c), snd (rr_set_fs_base os (ut_tls_block w) (s1\<lparr>sch := y\<rparr>)))"
    using rx(1) q rx(2) by (rule iter_switch)
  show ?thesis
    by (rule that [OF x(1,4) st i s1(1,3,2), of y w]) (use y sx ctxof_pop [OF x(1)] it s1(1) in simp_all)
qed

text \<open>The dispatch of the first thread on the replaying side, up to the point where the thread is resumed.\<close>

lemma dispatch_replays:
  assumes ok: "env_ok os1" "env_ok os2" and lp: "log_private os2 rest" and v: "same_view s t"
    and rt: "replaying os2 rest t (switch_events n i (ut_id u) @ es)" and sr: "g_sched_running (sch s)"
    and x: "runq_pop_front (sch s) = Some (Some c, x)" "ut_heap x c = Some u" "ut_state u = UT_RUNNABLE" "current_id (s\<lparr>sch := x\<rparr>) = Some i"
    and s1: "log_only (s\<lparr>sch := x\<rparr>) s1" and y: "make_current (Some c) x = Some y" "ut_heap y c = Some w"
  obtains t2 where "sys_step os2 user start (InSched t) = resume os2 start (Some c) t2" "replaying os2 rest t2 es"
    "same_view (snd (rr_set_fs_base os1 (ut_tls_block w) (s1\<lparr>sch := y\<rparr>))) t2"
proof -
  obtain z where z: "erase x = erase z" "scheduler_iter os2 t = do {
     (ok, t) \<leftarrow> note_switch os2 i (ut_id u) (t\<lparr>sch := z\<rparr>);
     if \<not> ok then Some (End Aborted, t)
     else do {
       t \<leftarrow> on_sched (make_current (Some c)) t;
       w \<leftarrow> deref (sch t) (Some c);
       Some (Dispatch (Some c), snd (rr_set_fs_base os2 (ut_tls_block w) t)) } }"
    using v x(1-3) sr x(4) by (rule pop_view)
  have "replaying os2 rest (t\<lparr>sch := z\<rparr>) (switch_events n i (ut_id u) @ es)" using rt lp by (rule replaying_env) simp_all
  then obtain t1 where t1: "note_switch os2 i (ut_id u) (t\<lparr>sch := z\<rparr>) = Some (True, t1)" "replaying os2 rest t1 es" "log_only (t\<lparr>sch := z\<rparr>) t1"
    using note_switch_replays by blast
  have v1: "same_view s1 t1" using log_only_view1 [OF s1] log_only_view2 [OF t1(3)] same_view_sch [OF v z(1)] by blast
  have m1: "make_current (Some c) (sch s1) = Some y" using y(1) log_onlyD(1,2) [OF s1] by simp
  obtain y' b where d: "do {
       t \<leftarrow> on_sched (make_current (Some c)) t1;
       w \<leftarrow> deref (sch t) (Some c);
       Some (Dispatch (Some c), snd (rr_set_fs_base os2 (ut_tls_block w) t))
     } = Some (Dispatch (Some c), snd (rr_set_fs_base os2 b (t1\<lparr>sch := y'\<rparr>)))"
    "same_view (snd (rr_set_fs_base os1 (ut_tls_block w) (s1\<lparr>sch := y\<rparr>))) (snd (rr_set_fs_base os2 b (t1\<lparr>sch := y'\<rparr>)))"
    using ok v1 m1 y(2) by (rule dispatch_view)
  let ?t2 = "snd (rr_set_fs_base os2 b (t1\<lparr>sch := y'\<rparr>))"
  have q: "quiet os2 (world t1) (world ?t2)" using set_fs_quiet [of os2 "t1\<lparr>sch := y'\<rparr>"] by simp
  have "replaying os2 rest ?t2 es" using t1(2) lp _ _ q by (rule replaying_env) simp_all
  moreover have "sys_step os2 user start (InSched t) = resume os2 start (Some c) ?t2"
    using d(1) by (simp add: sys_step_def z(2) t1(1) del: bind_Some_conv)
  ultimately show ?thesis using that d(2) by blast
qed

lemma dispatch_step:
  assumes ok: "env_ok os1" "env_ok os2" and lp: "log_private os1 fl" "log_private os2 rest"
    and r: "recording os1 fl hdr s evs" and ti: "thread_inv N s A" and q: "aq A = c # xs"
    and ctx: "ctxof (sch s) c = Some ctx" "\<not> io_ctx ctx" and S: "sys_step os1 user start (InSched s) = Some S'"
  shows "repeated fl hdr os2 rest evs s S' (\<lambda>t. sys_step os2 user start (InSched t))"
proof -
  obtain x u i s1 y w where x: "runq_pop_front (sch s) = Some (Some c, x)" "ut_heap x c = Some u" "ut_state u = UT_RUNNABLE"
    "current_id (s\<lparr>sch := x\<rparr>) = Some i" and n: "note_switch os1 i (ut_id u) (s\<lparr>sch := x\<rparr>) = Some (True, s1)" "log_only (s\<lparr>sch := x\<rparr>) s1"
    "event_log fl s1 hdr (evs @ switch_events (length evs) i (ut_id u))"
    and y: "make_current (Some c) x = Some y" "ut_heap y c = Some w" "ctxof y = ctxof (sch s)"
    and it: "scheduler_iter os1 s = Some (Dispatch (Some c), snd (rr_set_fs_base os1 (ut_tls_block w) (s1\<lparr>sch := y\<rparr>)))"
    using r ti q lp(1) by (rule recorded_dispatch)
  define s2 where "s2 = snd (rr_set_fs_base os1 (ut_tls_block w) (s1\<lparr>sch := y\<rparr>))"
  have S2: "resume os1 start (Some c) s2 = Some S'" using S it by (simp add: sys_step_def s2_def)
  have cfg1: "cfg s2 = cfg s" using log_onlyD(1,2) [OF n(2)] by (simp add: s2_def)
  have rd: "runtime_ready (cfg s2)" using r cfg1 by (simp add: recording_def rr_active_def cfg_active_def)
  have ctx2: "ctxof (sch s2) c = Some ctx" using ctx(1) y(3) by (simp add: s2_def)
  note res = resume_step [OF ok _ rd _ ctx2 ctx(2) S2]
  have sil: "silent os1 s2 S'" using resume_step [OF ok(1,1) _ rd rd ctx2 ctx(2) S2] by (simp add: same_view_def)
  have q2: "quiet os1 (world s1) (world s2)" using set_fs_quiet [of os1 "s1\<lparr>sch := y\<rparr>"] by (simp add: s2_def)
  have "event_log fl (state_of S') hdr (evs @ switch_events (length evs) i (ut_id u))"
    using n(3) lp(1) by (rule event_log_quiet) (use sil quiet_trans [OF q2] in \<open>simp_all add: silent_def s2_def\<close>)
  moreover have "\<exists>T'. sys_step os2 user start (InSched t) = Some T' \<and> same_sys S' T' \<and> replaying os2 rest (state_of T') es"
    if v: "same_view s t" and rt: "replaying os2 rest t (switch_events (length evs) i (ut_id u) @ es)" for t es
  proof -
    obtain t2 where t2: "sys_step os2 user start (InSched t) = resume os2 start (Some c) t2" "replaying os2 rest t2 es" "same_view s2 t2"
      unfolding s2_def by (rule dispatch_replays [OF ok lp(2) v rt thread_invD(4) [OF ti] x n(2) y(1,2)])
    obtain T' where "resume os2 start (Some c) t2 = Some T'" "same_sys S' T'" "silent os2 t2 T'"
      using res [OF t2(3) replaying_ready [OF t2(2)]] by blast
    then show ?thesis using t2(1) replaying_env [OF t2(2) lp(2)] by (auto simp: silent_def)
  qed
  ultimately show ?thesis using sil unfolding repeated_def silent_def by blast
qed

section \<open>Steps and runs of the system\<close>

text \<open>A step that can be repeated: the program asks for a thread operation or for a call whose result fits into an
  event, or the dispatcher has a thread to run that was not waiting for I/O.\<close>

fun det_req :: "'w os \<Rightarrow> ('w \<Rightarrow> u8 list) \<Rightarrow> ureq \<Rightarrow> bool" where
  "det_req os fl (RCall call) = det_call os fl call"
| "det_req os fl (RProcExit code) = False"
| "det_req os fl _ = True"

fun calm :: "'w os \<Rightarrow> ('w \<Rightarrow> u8 list) \<Rightarrow> 'u user \<Rightarrow> ('u, 'w) sys \<Rightarrow> bool" where
  "calm os fl user (User x s) = (case user x (umem s) of (m, req, k) \<Rightarrow> det_req os fl req)"
| "calm os fl user (InSched s) = (case g_runq_head (sch s) of None \<Rightarrow> False
     | Some c \<Rightarrow> (case ctxof (sch s) c of None \<Rightarrow> False | Some ctx \<Rightarrow> \<not> io_ctx ctx))"
| "calm os fl user (Ended e s) = False"

primrec calm_run :: "'w os \<Rightarrow> ('w \<Rightarrow> u8 list) \<Rightarrow> 'u user \<Rightarrow> (u64 \<Rightarrow> u64 \<Rightarrow> 'u) \<Rightarrow> nat \<Rightarrow> ('u, 'w) sys \<Rightarrow> bool" where
  "calm_run os fl user start 0 S = True"
| "calm_run os fl user start (Suc n) S = (calm os fl user S
     \<and> (case sys_step os user start S of None \<Rightarrow> False | Some S' \<Rightarrow> calm_run os fl user start n S'))"

definition sys_repeated where
  "sys_repeated fl hdr os2 rest evs S S' step2 \<longleftrightarrow> (\<exists>new. event_log fl (state_of S') hdr (evs @ new)
     \<and> (\<forall>T es. same_sys S T \<longrightarrow> replaying os2 rest (state_of T) (new @ es) \<longrightarrow>
          (\<exists>T'. step2 T = Some T' \<and> same_sys S' T' \<and> replaying os2 rest (state_of T') es)))"

lemma request_step:
  assumes ok: "env_ok os1" "env_ok os2" and lp: "log_private os1 fl" "log_private os2 rest"
    and r: "recording os1 fl hdr s evs" and ti: "thread_inv N s A" and d: "det_req os1 fl req" and S: "request os1 k req s = Some S'"
  shows "repeated fl hdr os2 rest evs s S' (request os2 k req)"
proof -
  have rd: "runtime_ready (cfg s)" and log: "event_log fl s hdr evs" using r by (simp_all add: recording_def rr_active_def cfg_active_def)
  have self: "same_view s s" by (simp add: same_view_def)
  note rep = repeated_silent [OF log lp]
  show ?thesis
  proof (cases req)
    case (RCall call)
    then show ?thesis using call_step [OF r] d S by simp
  next
    case (RCreate fn arg)
    then show ?thesis using rep create_step [OF ok _ rd _ ti] create_step [OF ok(1,1) self rd rd ti] S by blast
  next
    case RYield
    then show ?thesis using rep yield_step [OF ok _ rd] yield_step [OF ok(1,1) self rd rd] S by blast
  next
    case (RJoin i out)
    then show ?thesis using rep join_step [OF ok _ rd] join_step [OF ok(1,1) self rd rd] S by blast
  next
    case (RExit v)
    then have "do_exit os1 v s = Some S'" "request os2 k req = do_exit os2 v" using S by (simp_all add: request_def fun_eq_iff)
    then show ?thesis using rep exit_step [OF ok _ rd] exit_step [OF ok(1,1) self rd rd] by metis
  next
    case RReturn
    then have "do_exit os1 0 s = Some S'" "request os2 k req = do_exit os2 0" using S by (simp_all add: request_def fun_eq_iff)
    then show ?thesis using rep exit_step [OF ok _ rd] exit_step [OF ok(1,1) self rd rd] by metis
  qed (use d in simp)
qed

lemma sys_recording:
  assumes "sys_inv N os fl never hdr S" and "\<not> ended S" and "event_log fl (state_of S) hdr evs"
  shows "recording os fl hdr (state_of S) evs"
  using assms current_id_defined thread_invD(1,2)
  by (cases S) (fastforce simp: sys_inv_def recording_def rec_sys_def)+

lemma sys_step_repeated:
  assumes ok: "env_ok os1" "env_ok os2" and lp: "log_private os1 fl" "log_private os2 rest"
    and inv: "sys_inv (Suc N) os1 fl never hdr S" and log: "event_log fl (state_of S) hdr evs" and calm: "calm os1 fl user S"
    and S: "sys_step os1 user start S = Some S'"
  shows "\<not> ended S' \<and> sys_repeated fl hdr os2 rest evs S S' (sys_step os2 user start)"
proof (cases S)
  case (User x s)
  obtain m req k where u: "user x (umem s) = (m, req, k)" by (cases "user x (umem s)")
  obtain A where ti: "thread_inv (Suc N) s A" using inv User by (auto simp: sys_inv_def)
  have "recording os1 fl hdr s evs" using sys_recording [OF inv _ log] User by simp
  then have r: "recording os1 fl hdr (s\<lparr>umem := m\<rparr>) evs" using recording_world2 [of os1 fl hdr s evs "world s" m] by simp
  have ti': "thread_inv (Suc N) (s\<lparr>umem := m\<rparr>) A" using ti by (simp add: thread_inv_def)
  have req: "request os1 k req (s\<lparr>umem := m\<rparr>) = Some S'" and d: "det_req os1 fl req"
    using S calm User u by (simp_all add: sys_step_def)
  have rep: "repeated fl hdr os2 rest evs (s\<lparr>umem := m\<rparr>) S' (request os2 k req)" by (rule request_step [OF ok lp r ti' d req])
  have T: "sys_step os2 user start (User x t) = request os2 k req (t\<lparr>umem := m\<rparr>) \<and> same_view (s\<lparr>umem := m\<rparr>) (t\<lparr>umem := m\<rparr>)
      \<and> (replaying os2 rest t es \<longrightarrow> replaying os2 rest (t\<lparr>umem := m\<rparr>) es)" if "same_view s t" for t es
    using that u replaying_env [OF _ lp(2), of t es "t\<lparr>umem := m\<rparr>"] by (auto simp: same_view_def sys_step_def)
  show ?thesis
  proof -
    obtain new where new: "event_log fl (state_of S') hdr (evs @ new)" "\<not> ended S'"
      "\<And>t es. same_view (s\<lparr>umem := m\<rparr>) t \<Longrightarrow> replaying os2 rest t (new @ es) \<Longrightarrow>
        \<exists>T'. request os2 k req t = Some T' \<and> same_sys S' T' \<and> replaying os2 rest (state_of T') es"
      using rep unfolding repeated_def by blast
    have "\<exists>T'. sys_step os2 user start Tx = Some T' \<and> same_sys S' T' \<and> replaying os2 rest (state_of T') es"
      if "same_sys S Tx" "replaying os2 rest (state_of Tx) (new @ es)" for Tx es
      using that User new(3) T by (cases Tx) auto
    then show ?thesis using new(1,2) unfolding sys_repeated_def by blast
  qed
next
  case (InSched s)
  obtain A where ti: "thread_inv (Suc N) s A" using inv InSched by (auto simp: sys_inv_def)
  have r: "recording os1 fl hdr s evs" using sys_recording [OF inv _ log] InSched by simp
  obtain c ctx where c: "g_runq_head (sch s) = Some c" "ctxof (sch s) c = Some ctx" "\<not> io_ctx ctx"
    using calm InSched by (auto split: option.splits)
  obtain xs where q: "aq A = c # xs" using refinesD(1) [OF thread_invD(1) [OF ti]] c(1) by (cases "aq A") (auto simp: runq_def)
  have "repeated fl hdr os2 rest evs s S' (\<lambda>t. sys_step os2 user start (InSched t))"
    using S InSched by (intro dispatch_step [OF ok lp r ti q c(2,3)]) simp
  then obtain new where new: "event_log fl (state_of S') hdr (evs @ new)" "\<not> ended S'"
    "\<And>t es. same_view s t \<Longrightarrow> replaying os2 rest t (new @ es) \<Longrightarrow>
      \<exists>T'. sys_step os2 user start (InSched t) = Some T' \<and> same_sys S' T' \<and> replaying os2 rest (state_of T') es"
    unfolding repeated_def by blast
  have "\<exists>T'. sys_step os2 user start Tx = Some T' \<and> same_sys S' T' \<and> replaying os2 rest (state_of T') es"
    if "same_sys S Tx" "replaying os2 rest (state_of Tx) (new @ es)" for Tx es
    using that InSched new(3) by (cases Tx) auto
  then show ?thesis using new(1,2) unfolding sys_repeated_def by blast
qed (use calm in simp)

lemma run_repeated:
  assumes ok: "env_ok os1" "env_ok os2" and lp: "log_private os1 fl" "log_private os2 rest"
  shows "sys_inv (n + N) os1 fl never hdr S \<Longrightarrow> event_log fl (state_of S) hdr evs \<Longrightarrow> calm_run os1 fl user start n S \<Longrightarrow> \<not> ended S \<Longrightarrow>
    \<exists>S'. sys_run os1 user start n S = Some S' \<and> sys_inv N os1 fl never hdr S' \<and> \<not> ended S'
      \<and> sys_repeated fl hdr os2 rest evs S S' (sys_run os2 user start n)"
proof (induction n arbitrary: S evs)
  case 0
  then show ?case by (auto simp: sys_repeated_def intro: exI [of _ "[]"])
next
  case (Suc n)
  obtain S1 where S1: "sys_step os1 user start S = Some S1" "sys_inv (n + N) os1 fl never hdr S1"
    using sys_step_safe [OF _ lp(1) env_okD(1) [OF ok(1)], of "n + N" never hdr S user start] Suc.prems(1) by auto
  have c: "calm os1 fl user S" "calm_run os1 fl user start n S1" using Suc.prems(3) S1(1) by simp_all
  have inv: "sys_inv (Suc (n + N)) os1 fl never hdr S" using Suc.prems(1) by simp
  have e1: "\<not> ended S1" and "sys_repeated fl hdr os2 rest evs S S1 (sys_step os2 user start)"
    using sys_step_repeated [OF ok lp inv Suc.prems(2) c(1) S1(1)] by blast+
  then obtain new1 where 1: "event_log fl (state_of S1) hdr (evs @ new1)"
    "\<And>T es. same_sys S T \<Longrightarrow> replaying os2 rest (state_of T) (new1 @ es) \<Longrightarrow>
      \<exists>T'. sys_step os2 user start T = Some T' \<and> same_sys S1 T' \<and> replaying os2 rest (state_of T') es"
    unfolding sys_repeated_def by blast
  obtain S' where S': "sys_run os1 user start n S1 = Some S'" "sys_inv N os1 fl never hdr S'"
    "\<not> ended S'" "sys_repeated fl hdr os2 rest (evs @ new1) S1 S' (sys_run os2 user start n)"
    using Suc.IH [OF S1(2) 1(1) c(2) e1] by blast
  then obtain new2 where 2: "event_log fl (state_of S') hdr ((evs @ new1) @ new2)"
    "\<And>T es. same_sys S1 T \<Longrightarrow> replaying os2 rest (state_of T) (new2 @ es) \<Longrightarrow>
      \<exists>T'. sys_run os2 user start n T = Some T' \<and> same_sys S' T' \<and> replaying os2 rest (state_of T') es"
    unfolding sys_repeated_def by blast
  have "\<exists>T'. sys_run os2 user start (Suc n) T = Some T' \<and> same_sys S' T' \<and> replaying os2 rest (state_of T') es"
    if "same_sys S T" "replaying os2 rest (state_of T) ((new1 @ new2) @ es)" for T es
    using 1(2) [of T "new2 @ es"] 2(2) [of _ es] that by fastforce
  then have "sys_repeated fl hdr os2 rest evs S S' (sys_run os2 user start (Suc n))"
    unfolding sys_repeated_def using 2(1) by (intro exI [of _ "new1 @ new2"]) auto
  moreover have "sys_run os1 user start (Suc n) S = Some S'" using S1(1) S'(1) by simp
  ultimately show ?case using S'(2,3) by blast
qed

end
