(* ===== verification/RR_LogFile.thy ===== *)
theory RR_LogFile
  imports RR_Demo
begin

text \<open>
  The log file as the two sides of the library see it: what \<^verbatim>\<open>record.c\<close> has written is what
  \<^verbatim>\<open>replay.c\<close> reads, and how \<^verbatim>\<open>replay.c\<close> treats files and events that do not fit.
\<close>

section \<open>Numbered events are expected events\<close>

lemma seq_from_map:
  "map ev_seq evs = map (\<lambda>i. of_nat (Suc i)) [k..<k + length evs] \<Longrightarrow> seq_from (of_nat (Suc k)) evs"
proof (induction evs arbitrary: k)
  case Nil
  then show ?case by simp
next
  case (Cons ev evs)
  have "[k..<k + length (ev # evs)] = k # [Suc k..<Suc k + length evs]"
    using upt_conv_Cons [of k "k + length (ev # evs)"] by simp
  then have "ev_seq ev = of_nat (Suc k)" "map ev_seq evs = map (\<lambda>i. of_nat (Suc i)) [Suc k..<Suc k + length evs]"
    using Cons.prems by simp_all
  then show ?case using Cons.IH [of "Suc k"] by (simp add: algebra_simps)
qed

lemma numbered_seq_from: "numbered evs \<Longrightarrow> seq_from 1 evs"
  using seq_from_map [of evs 0] by (simp add: numbered_def)

section \<open>The header\<close>

text \<open>The log file can be opened and holds \<open>bytes\<close>; libc has the functions that are looked up.\<close>

definition log_file :: "'w os \<Rightarrow> ('w \<Rightarrow> u8 list) \<Rightarrow> ('w \<Rightarrow> nat) \<Rightarrow> string \<Rightarrow> 'w \<Rightarrow> u8 list \<Rightarrow> bool" where
  "log_file os rest \<mu> path w bytes \<longleftrightarrow> (\<forall>f. os_dlsym os f)
     \<and> (\<exists>fd w'. os_open_ro os path w = (Inr fd, w') \<and> 0 \<le> fd \<and> rest w' = bytes \<and> read_ok os fd rest \<mu>)"

definition good_header :: "u8 list \<Rightarrow> bool" where
  "good_header bytes \<longleftrightarrow> sizeof_header \<le> length bytes \<and> hd_magic (dec_header (take sizeof_header bytes)) = RR_LOG_MAGIC
     \<and> hd_version (dec_header (take sizeof_header bytes)) = RR_LOG_VERSION"

lemma replay_init_cases:
  assumes f: "log_file os rest \<mu> path (world s) bytes"
  shows "\<exists>rc s'. rr_replay_init os path s = Some (rc, s') \<and> cfg s' = cfg s \<and> sch s' = sch s \<and> uth s' = uth s \<and> umem s' = umem s
    \<and> (if good_header bytes
       then rc = 0 \<and> g_replay_header_ok (rpl s') \<and> 0 \<le> g_replay_fd (rpl s') \<and> read_ok os (g_replay_fd (rpl s')) rest \<mu>
         \<and> g_expected_seq (rpl s') = 1 \<and> rest (world s') = drop sizeof_header bytes
       else rc = -1 \<and> g_replay_fd (rpl s') = -1)"
proof -
  obtain fd w where o: "\<And>f. os_dlsym os f" "os_open_ro os path (world s) = (Inr fd, w)" "0 \<le> fd" "rest w = bytes" "read_ok os fd rest \<mu>"
    using f by (auto simp: log_file_def)
  obtain rc s1 where s1: "rr_replay_resolve_real_io os s = (rc, s1)" by (cases "rr_replay_resolve_real_io os s")
  have fr: "rc = 0" "cfg s1 = cfg s" "sch s1 = sch s" "uth s1 = uth s" "umem s1 = umem s" "world s1 = world s"
    using s1 o(1) by (auto simp: rr_replay_resolve_real_io_def Let_def)
  define s2 where "s2 = s1\<lparr>world := w, rpl := (rpl s1)\<lparr>g_replay_fd := fd\<rparr>\<rparr>"
  obtain rc2 bs e w2 where rd: "rr_read_full os fd sizeof_header s2 = Some ((rc2, bs), s2\<lparr>errno := e, world := w2\<rparr>)"
    "read_post sizeof_header (rest (world s2)) rc2 bs (rest w2)"
    using read_full_total [OF o(5)] by blast
  have "rest (world s2) = bytes" by (simp add: s2_def o(4))
  then have post: "if sizeof_header \<le> length bytes then rc2 = 0 \<and> bs = take sizeof_header bytes \<and> rest w2 = drop sizeof_header bytes else rc2 = -1"
    using rd(2) by (simp add: read_post_def split: if_splits)
  note eq = rr_replay_init_def s1 fr(1,6) o(2) leD [OF o(3)] s2_def [symmetric] rd(1)
  consider "good_header bytes" | "\<not> good_header bytes" "sizeof_header \<le> length bytes" | "\<not> good_header bytes" "\<not> sizeof_header \<le> length bytes"
    by blast
  then show ?thesis
  proof cases
    case 1
    then show ?thesis using post fr o(3,5) by (simp add: eq good_header_def Let_def) (simp add: s2_def)
  next
    case 2
    then show ?thesis using post fr by (simp add: eq good_header_def kdo_def Let_def) (auto simp: s2_def)
  next
    case 3
    then show ?thesis using post fr by (simp add: eq kdo_def) (simp add: s2_def)
  qed
qed

section \<open>Properties of the log\<close>

text \<open>C9. Logging is durable: in a healthy recording state any sequence of records that fit into the
  ring can be appended one by one, in spite of partial and interrupted writes; the ring never holds more than
  \<^verbatim>\<open>RR_LOG_RING_SIZE\<close> bytes, and after a flush the file consists of everything logged before followed by the
  records in their order, with the ring empty.\<close>

theorem log_durable:
  assumes "rec_inv os fl \<mu> s" and "\<forall>e \<in> set es. length e \<le> RR_LOG_RING_SIZE"
  shows "\<exists>s' s''. append_all (rr_record_append os) es s = Some s' \<and> g_ring_used (rcd s') \<le> RR_LOG_RING_SIZE
    \<and> rr_record_flush os s' = Some s'' \<and> fl (world s'') = contents fl s @ concat es \<and> g_ring_used (rcd s'') = 0"
proof -
  obtain s' where s': "append_all (rr_record_append os) es s = Some s'" "rec_inv os fl \<mu> s'" "contents fl s' = contents fl s @ concat es"
    using ring.append_all_adds [OF assms] by blast
  then show ?thesis using flush_total [OF s'(2)] by (auto simp: rec_inv_def)
qed

theorem log_durable_witness:
  "\<exists>s' s''. append_all (rr_record_append demo_os) [[1, 2], [3]] (demo_rec :: (unit, dw) rr) = Some s' \<and> rr_record_flush demo_os s' = Some s''
    \<and> d_log (world s'') = [1, 2, 3]"
proof -
  have "event_log d_log (demo_rec :: (unit, dw) rr) [] []" by (rule demo_event_log)
  then have "contents d_log (demo_rec :: (unit, dw) rr) = []" by (simp add: event_log_def)
  moreover have "\<forall>e \<in> set [[1, 2], [3 :: u8]]. length e \<le> RR_LOG_RING_SIZE" by (simp add: RR_LOG_RING_SIZE_def)
  ultimately show ?thesis using log_durable [OF demo_rec_inv, of "[[1, 2], [3]]"] by fastforce
qed

text \<open>C37. When the kernel refuses a write to the log, \<^verbatim>\<open>rr_record_flush\<close> empties the ring all the same: the buffered
  records are in neither the ring nor the file, and no error is returned.\<close>

theorem flush_failure_drops:
  assumes "0 \<le> g_log_fd (rcd s)" "g_ring (rcd s) = Some a" "0 < g_ring_used (rcd s)" "\<not> debug (cfg s)"
    and "os_write os (g_log_fd (rcd s)) (ring_bytes (rcd s)) (world s) = (Inl e, w)" "e \<noteq> EINTR" "fl w = fl (world s)"
  shows "\<exists>s'. rr_record_flush os s = Some s' \<and> ring_bytes (rcd s') = [] \<and> fl (world s') = fl (world s)"
proof -
  have "0 < length (ring_bytes (rcd s))" using assms(3) by (simp add: ring_bytes_def)
  then have "rr_write_direct os (ring_bytes (rcd s)) s = Some (-1, s\<lparr>errno := e, world := w\<rparr>)"
    using assms(5,6) by (simp add: rr_write_direct_def write_loop.simps)
  then show ?thesis using assms by (simp add: rr_record_flush_def ring_bytes_def)
qed

definition full_disk :: "dw os" where
  "full_disk = demo_os\<lparr>os_write := (\<lambda>fd bs w. (Inl 28, w))\<rparr>"

definition one_byte :: "(unit, dw) rr" where
  "one_byte = demo_rec\<lparr>rcd := (rcd (demo_rec :: (unit, dw) rr))\<lparr>g_ring_used := 1\<rparr>\<rparr>"

theorem flush_failure_drops_witness:
  "ring_bytes (rcd one_byte) = [0] \<and> (\<exists>s'. rr_record_flush full_disk one_byte = Some s' \<and> ring_bytes (rcd s') = [] \<and> d_log (world s') = [])"
proof -
  have "\<exists>s'. rr_record_flush full_disk one_byte = Some s' \<and> ring_bytes (rcd s') = [] \<and> d_log (world s') = d_log (world one_byte)"
    by (rule flush_failure_drops [where a = 8192 and e = 28 and w = "world one_byte"]) (simp_all add: one_byte_def full_disk_def demo_defs)
  then show ?thesis by (simp add: one_byte_def demo_defs ring_bytes_def)
qed

text \<open>C8. Replay reads what was recorded: when the bytes of a recorded log follow the header in the file that is
  replayed, \<^verbatim>\<open>rr_replay_next_event\<close> yields exactly the recorded events, in their order and with their sequence
  numbers accepted, and then reports the end of the log with \<^verbatim>\<open>ENODATA\<close>.\<close>

theorem recorded_log_replays:
  assumes "event_log fl s hdr evs" and "g_replay_header_ok (rpl t)" "0 \<le> g_replay_fd (rpl t)" "g_expected_seq (rpl t) = 1"
    "read_ok os (g_replay_fd (rpl t)) rest \<mu>" and "hdr @ rest (world t) = contents fl s"
  shows "\<exists>t' t''. take_events (rr_replay_next_event os) (length evs) t = Some (map Some evs, t')
    \<and> rr_replay_next_event os t' = Some (None, t'') \<and> errno t'' = ENODATA"
proof -
  have "replay_log os rest \<mu> t (evs @ [])"
    using assms numbered_seq_from [of evs] by (simp add: replay_log_def event_log_def)
  from src.take_events_prefix [OF this] next_event_Nil show ?thesis by fast
qed

theorem recorded_log_replays_witness:
  "\<exists>s' t' t''. rr_log_sched demo_os 0 1 (demo_rec :: (unit, dw) rr) = Some s'
    \<and> take_events (rr_replay_next_event demo_os) 1 (demo_rpl [sched_event 1 0 1] :: (unit, dw) rr) = Some ([Some (sched_event 1 0 1)], t')
    \<and> rr_replay_next_event demo_os t' = Some (None, t'') \<and> errno t'' = ENODATA"
proof -
  obtain s' where s': "rr_log_sched demo_os 0 1 (demo_rec :: (unit, dw) rr) = Some s'" "event_log d_log s' [] [sched_event 1 0 1]"
    using log_sched_total [OF _ demo_rec_inv demo_event_log, of 0 1] by auto
  let ?t = "demo_rpl [sched_event 1 0 1] :: (unit, dw) rr"
  have "contents d_log s' = enc_event (sched_event 1 0 1)" using s'(2) by (simp add: event_log_def)
  then have "\<exists>t' t''. take_events (rr_replay_next_event demo_os) (length [sched_event 1 0 1]) ?t = Some (map Some [sched_event 1 0 1], t')
    \<and> rr_replay_next_event demo_os t' = Some (None, t'') \<and> errno t'' = ENODATA"
    by (intro recorded_log_replays [OF s'(2), where rest = d_rest and \<mu> = "\<lambda>_. 0"]) (simp_all add: demo_read_ok demo_defs)
  then show ?thesis using s'(1) by simp
qed

text \<open>C21. \<^verbatim>\<open>rr_replay_init\<close> always returns on a readable file, and accepts it exactly when it starts with a complete
  header that has the magic number and the version; then the events after the header are next, from sequence number 1 on. Otherwise it
  returns -1 with the descriptor closed and reset.\<close>

theorem replay_header_check:
  assumes "log_file os rest \<mu> path (world s) bytes"
  shows "\<exists>rc s'. rr_replay_init os path s = Some (rc, s')
    \<and> (if good_header bytes
       then rc = 0 \<and> g_replay_header_ok (rpl s') \<and> g_expected_seq (rpl s') = 1 \<and> rest (world s') = drop sizeof_header bytes
       else rc = -1 \<and> g_replay_fd (rpl s') = -1)"
  using replay_init_cases [OF assms] by (fastforce split: if_splits)

lemma demo_file: "log_file demo_os d_rest (\<lambda>_. 0) path (w\<lparr>d_rest := bytes\<rparr>) bytes"
  using demo_read_ok by (auto simp: log_file_def) (auto simp: demo_os_def)

theorem replay_header_check_witness:
  "\<exists>rc s'. rr_replay_init demo_os ''rr.log'' ((rr_load (\<lambda>_. 0) (dw0\<lparr>d_rest := [1, 2, 3]\<rparr>)) :: (unit, dw) rr) = Some (rc, s')
    \<and> rc = -1 \<and> g_replay_fd (rpl s') = -1"
proof -
  have "\<not> good_header [1, 2, 3]" by (simp add: good_header_def sizeofs)
  moreover have "log_file demo_os d_rest (\<lambda>_. 0) ''rr.log'' (world ((rr_load (\<lambda>_. 0) (dw0\<lparr>d_rest := [1, 2, 3]\<rparr>)) :: (unit, dw) rr)) [1, 2, 3]"
    using demo_file by (simp add: rr_load_def)
  ultimately show ?thesis using replay_header_check by fastforce
qed

text \<open>C22. The three outcomes of \<^verbatim>\<open>rr_replay_next_syscall\<close> on a healthy log: at its end -1 with \<^verbatim>\<open>ENODATA\<close>; if
  the next event is a system call with the expected number made by the expected thread, its logged result and data, and the event is
  consumed; in every other case -1 with \<^verbatim>\<open>EPROTO\<close>.\<close>

theorem replay_syscall_outcomes:
  assumes "replay_log os rest \<mu> s evs"
  shows "\<exists>r s'. rr_replay_next_syscall os nr utid s = Some (r, s') \<and>
    (case evs of [] \<Rightarrow> r = None \<and> errno s' = ENODATA
     | ev # es \<Rightarrow> (if \<exists>p. matches_syscall nr utid ev p then (\<exists>p. matches_syscall nr utid ev p \<and> r = Some (copy_out ev p)) \<and> replay_log os rest \<mu> s' es
                  else r = None \<and> errno s' = EPROTO))"
proof (cases evs)
  case Nil
  then show ?thesis using next_syscall_end [of os rest \<mu> s nr utid] assms by auto
next
  case (Cons ev es)
  note log = assms [unfolded Cons]
  show ?thesis
  proof (cases "\<exists>p. matches_syscall nr utid ev p")
    case True
    then obtain p where p: "matches_syscall nr utid ev p" by blast
    show ?thesis using next_syscall_ok [OF log p] p Cons by auto
  next
    case False
    then show ?thesis using next_syscall_mismatch [OF log, of nr utid] Cons by auto
  qed
qed

theorem replay_syscall_outcomes_witness:
  "\<exists>s'. rr_replay_next_syscall demo_os 39 1 (demo_rpl [sched_event 1 0 1] :: (unit, dw) rr) = Some (None, s') \<and> errno s' = EPROTO"
proof -
  have "replay_log demo_os d_rest (\<lambda>_. 0) (demo_rpl [sched_event 1 0 1] :: (unit, dw) rr) [sched_event 1 0 1]"
    by (rule demo_replay_log) simp_all
  moreover have "\<not> matches_syscall 39 1 (sched_event 1 0 1) p" for p by (simp add: matches_syscall_def sched_event_def)
  ultimately show ?thesis using replay_syscall_outcomes [of demo_os d_rest "\<lambda>_. 0" "demo_rpl [sched_event 1 0 1] :: (unit, dw) rr" "[sched_event 1 0 1]" 39 1]
    by auto
qed

text \<open>C23. An event whose sequence number is not the expected one is refused with \<^verbatim>\<open>EPROTO\<close>, and the expected
  number stays as it was.\<close>

theorem out_of_sequence_refused:
  assumes "g_replay_header_ok (rpl s)" "0 \<le> g_replay_fd (rpl s)" "read_ok os (g_replay_fd (rpl s)) rest \<mu>"
    and "rest (world s) = enc_event ev @ later" "wf_event ev" "ev_seq ev \<noteq> g_expected_seq (rpl s)"
  shows "\<exists>s'. rr_replay_next_event os s = Some (None, s') \<and> errno s' = EPROTO \<and> g_expected_seq (rpl s') = g_expected_seq (rpl s)"
proof -
  obtain rc bs e w where rd: "rr_read_full os (g_replay_fd (rpl s)) sizeof_event s = Some ((rc, bs), s\<lparr>errno := e, world := w\<rparr>)"
    "read_post sizeof_event (rest (world s)) rc bs (rest w)"
    using read_full_total [OF assms(3)] by blast
  have "rc = 0" "bs = enc_event ev" using rd(2) by (simp_all add: read_post_def assms(4))
  then show ?thesis using assms rd(1) dec_enc_event [OF assms(5)] by (simp add: rr_replay_next_event_def Let_def)
qed

theorem out_of_sequence_refused_witness:
  "\<exists>s'. rr_replay_next_event demo_os (demo_rpl [sched_event 7 0 1] :: (unit, dw) rr) = Some (None, s') \<and> errno s' = EPROTO \<and> g_expected_seq (rpl s') = 1"
proof -
  have "\<exists>s'. rr_replay_next_event demo_os (demo_rpl [sched_event 7 0 1] :: (unit, dw) rr) = Some (None, s') \<and> errno s' = EPROTO
      \<and> g_expected_seq (rpl s') = g_expected_seq (rpl (demo_rpl [sched_event 7 0 1] :: (unit, dw) rr))"
    by (rule out_of_sequence_refused [where rest = d_rest and \<mu> = "\<lambda>_. 0" and ev = "sched_event 7 0 1" and later = "[]"])
      (simp_all add: demo_read_ok demo_defs)
  then show ?thesis by (simp add: demo_defs)
qed

end
