(* ===== verification/RR_Boot.thy ===== *)
theory RR_Boot
  imports RR_Determinism RR_LogFile
begin

text \<open>
  From loading the library to the first instruction of the program. In record mode the constructor
  \<^verbatim>\<open>rr_init\<close> always returns; either the runtime stays switched off, or the log holds the header
  and the first scheduling event and the invariant of \<open>RR_Safety\<close> holds. In replay mode, given
  such a log, it leaves a state that replays the rest of the log. Together with the preservation
  of the invariant and with \<open>RR_Determinism\<close> this gives statements about whole processes.
\<close>

section \<open>Hypotheses about start-up\<close>

text \<open>The calls made only by the constructor, and messages to \<^verbatim>\<open>stderr\<close>, do not touch the log either.\<close>

definition boot_private :: "'w os \<Rightarrow> ('w \<Rightarrow> u8 list) \<Rightarrow> bool" where
  "boot_private os fl \<longleftrightarrow> log_private os fl \<and> (\<forall>w. (\<forall>a n. fl (snd (os_sigaltstack os a n w)) = fl w)
     \<and> fl (snd (os_sigaction_segv os w)) = fl w \<and> (\<forall>ss. fl (snd (os_sigblock os ss w)) = fl w)
     \<and> (\<forall>ss. fl (snd (os_signalfd os ss w)) = fl w) \<and> (\<forall>n. fl (snd (os_uring_init os n w)) = fl w)
     \<and> (\<forall>bs. fl (snd (os_write os 2 bs w)) = fl w))"

text \<open>Opening the log with \<^verbatim>\<open>O_TRUNC\<close> gives an empty, healthy file.\<close>

definition open_ok :: "'w os \<Rightarrow> ('w \<Rightarrow> u8 list) \<Rightarrow> ('w \<Rightarrow> nat) \<Rightarrow> bool" where
  "open_ok os fl \<mu> \<longleftrightarrow> (\<forall>path w fd w'. os_open_log os path w = (Inr fd, w') \<longrightarrow> 0 \<le> fd \<longrightarrow> fl w' = [] \<and> write_ok os fd fl \<mu>)"

text \<open>Nothing that the constructor asks for is refused.\<close>

definition start_ok :: "'w os \<Rightarrow> bool" where
  "start_ok os \<longleftrightarrow> env_ok os \<and> (\<forall>f. os_dlsym os f) \<and> (\<forall>p w. \<exists>fd w'. os_open_log os p w = (Inr fd, w') \<and> 0 \<le> fd)
     \<and> (\<forall>a n w. \<exists>w'. os_sigaltstack os a n w = (Inr (), w')) \<and> (\<forall>w. \<exists>w'. os_sigaction_segv os w = (Inr (), w'))
     \<and> (\<forall>ss w. \<exists>w'. os_sigblock os ss w = (Inr (), w')) \<and> (\<forall>ss w. \<exists>fd w'. os_signalfd os ss w = (Inr fd, w') \<and> 0 \<le> fd)
     \<and> (\<forall>n w. fst (os_uring_init os n w)) \<and> (\<forall>w. fst (os_get_sqe os w) \<noteq> None) \<and> (\<forall>w. 0 \<le> sint (fst (os_submit os w)))"

lemma start_okD:
  assumes "start_ok os"
  shows "env_ok os" "os_dlsym os f" "os_open_log os p w \<noteq> (Inl e, w')" "os_open_log os p w = (Inr fd, w') \<Longrightarrow> 0 \<le> fd"
    "os_sigaltstack os a n w \<noteq> (Inl e, w')" "os_sigaction_segv os w \<noteq> (Inl e, w')" "os_sigblock os ss w \<noteq> (Inl e, w')"
    "os_signalfd os ss w \<noteq> (Inl e, w')" "os_signalfd os ss w = (Inr fd, w') \<Longrightarrow> 0 \<le> fd"
    "fst (os_uring_init os k w)" "fst (os_get_sqe os w) \<noteq> None" "0 \<le> sint (fst (os_submit os w))" "os_mmap os j b w \<noteq> (Inl e, w')"
proof -
  have s: "env_ok os" "\<And>f. os_dlsym os f" "\<And>p w. \<exists>fd w'. os_open_log os p w = (Inr fd, w') \<and> 0 \<le> fd"
    "\<And>a n w. \<exists>w'. os_sigaltstack os a n w = (Inr (), w')" "\<And>w. \<exists>w'. os_sigaction_segv os w = (Inr (), w')"
    "\<And>ss w. \<exists>w'. os_sigblock os ss w = (Inr (), w')" "\<And>ss w. \<exists>fd w'. os_signalfd os ss w = (Inr fd, w') \<and> 0 \<le> fd"
    using assms unfolding start_ok_def by blast+
  show "env_ok os" "os_dlsym os f" by (rule s)+
  show "os_open_log os p w \<noteq> (Inl e, w')" "os_open_log os p w = (Inr fd, w') \<Longrightarrow> 0 \<le> fd" using s(3) [of p w] by auto
  show "os_sigaltstack os a n w \<noteq> (Inl e, w')" using s(4) [of a n w] by auto
  show "os_sigaction_segv os w \<noteq> (Inl e, w')" using s(5) [of w] by auto
  show "os_sigblock os ss w \<noteq> (Inl e, w')" using s(6) [of ss w] by auto
  show "os_signalfd os ss w \<noteq> (Inl e, w')" "os_signalfd os ss w = (Inr fd, w') \<Longrightarrow> 0 \<le> fd" using s(7) [of ss w] by auto
  show "fst (os_uring_init os k w)" "fst (os_get_sqe os w) \<noteq> None" "0 \<le> sint (fst (os_submit os w))"
    using assms unfolding start_ok_def by blast+
  have "\<exists>v w'. os_mmap os j b w = (Inr v, w')" using s(1) unfolding env_ok_def by blast
  then show "os_mmap os j b w \<noteq> (Inl e, w')" by auto
qed

section \<open>What start-up leaves alone\<close>

definition boots :: "('w \<Rightarrow> u8 list) \<Rightarrow> ('c, 'w) rr \<Rightarrow> ('c, 'w) rr \<Rightarrow> bool" where
  "boots fl s s' \<longleftrightarrow> cfg s' = cfg s \<and> sch s' = sch s \<and> uth s' = uth s \<and> rcd s' = rcd s \<and> rpl s' = rpl s \<and> fl (world s') = fl (world s)"

lemma boots_refl [simp]: "boots fl s s"
  by (simp add: boots_def)

lemma boots_trans: "boots fl s t \<Longrightarrow> boots fl t u \<Longrightarrow> boots fl s u"
  by (simp add: boots_def)

lemma boots_rec_inv: "boots fl s t \<Longrightarrow> rec_inv os fl \<mu> s \<Longrightarrow> rec_inv os fl \<mu> t"
  by (simp add: boots_def rec_inv_def)

lemma boots_step [simp]:
  "boots fl s (t\<lparr>sigs := x\<rparr>) = boots fl s t" "boots fl s (t\<lparr>iou := y\<rparr>) = boots fl s t" "boots fl s (t\<lparr>errno := e\<rparr>) = boots fl s t"
  "boots fl s (t\<lparr>umem := m\<rparr>) = boots fl s t"
  by (simp_all add: boots_def)

lemma boots_kres: "(\<And>w. fl (snd (f w)) = fl w) \<Longrightarrow> boots fl s t \<Longrightarrow> kres f t = (r, t') \<Longrightarrow> boots fl s t'"
  by (cases rule: kres_cases [of f t]) (auto simp: boots_def dest: arg_cong [where f = "\<lambda>x. fl (snd x)"] intro: sym)

lemma boots_kcall: "(\<And>w. fl (snd (f w)) = fl w) \<Longrightarrow> boots fl s t \<Longrightarrow> kcall f t = (r, t') \<Longrightarrow> boots fl s t'"
  by (auto simp: boots_def kcall_eq)

lemma boots_kdo: "(\<And>w. fl (f w) = fl w) \<Longrightarrow> boots fl s t \<Longrightarrow> boots fl s (kdo f t)"
  by (simp add: boots_def kdo_def)

lemma boot_privateD:
  assumes "boot_private os fl"
  shows "log_private os fl" "fl (snd (os_sigaltstack os a n w)) = fl w" "fl (snd (os_sigaction_segv os w)) = fl w"
    "fl (snd (os_sigblock os ss w)) = fl w" "fl (snd (os_signalfd os ss w)) = fl w" "fl (snd (os_uring_init os k w)) = fl w"
    "fl (snd (os_write os 2 bs w)) = fl w"
  using assms by (simp_all add: boot_private_def)

lemma signal_init_boots:
  assumes bp: "boot_private os fl"
  shows "boots fl s (snd (rr_signal_init os s))"
proof -
  note d = log_privateD [OF boot_privateD(1) [OF bp]] boot_privateD [OF bp]
  note k = boots_kres [of fl, OF d(1)] boots_kres [of fl, OF d(19)] boots_kres [of fl, OF d(20)] boots_kres [of fl, OF d(21)]
    boots_kres [of fl, OF d(22)]
  show ?thesis
    unfolding rr_signal_init_def Let_def
    by (auto split: prod.split option.split intro!: boots_kdo d(3) elim!: k [rotated])
qed

lemma io_init_boots: "boot_private os fl \<Longrightarrow> boots fl s (snd (rr_io_init os n s))"
  using boots_kcall [of fl "os_uring_init os n", OF boot_privateD(6) boots_refl]
  by (auto simp: rr_io_init_def split: prod.split)

lemma submit_signal_boots:
  assumes "log_private os fl"
  shows "boots fl s (snd (rr_io_submit_signal_read os fd s))"
  unfolding rr_io_submit_signal_read_def Let_def
  by (simp add: boots_def kcall_eq kdo_def log_privateD [OF assms] split: prod.split option.split)

lemma signal_init_rc: "start_ok os \<Longrightarrow> fst (rr_signal_init os s) = 0"
  unfolding rr_signal_init_def Let_def
  by (auto simp: kres_def start_okD dest: start_okD(9) split: prod.split sum.split option.split)

lemma io_init_rc: "start_ok os \<Longrightarrow> fst (rr_io_init os n s) = 0 \<and> g_ring_ready (iou (snd (rr_io_init os n s)))"
  using start_okD(10) [of os n "world s"] by (simp add: rr_io_init_def kcall_eq)

lemma submit_signal_rc: "start_ok os \<Longrightarrow> g_ring_ready (iou s) \<Longrightarrow> fst (rr_io_submit_signal_read os fd s) = 0"
  using start_okD(11) [of os] leD [OF start_okD(12) [of os]]
  by (auto simp: rr_io_submit_signal_read_def kcall_eq Let_def split: option.split)

lemma inactive: "\<not> runtime_ready (cfg s) \<Longrightarrow> \<not> rr_active s \<and> \<not> rr_replay_active s"
  by (simp add: rr_active_def rr_replay_active_def cfg_active_def cfg_replay_active_def)

lemma real_call_boots:
  assumes "log_private os fl"
  shows "boots fl s (snd (real_call os c f s))"
proof -
  obtain r m w where r: "os_real os c (umem s) (world s) = (r, m, w)" by (cases "os_real os c (umem s) (world s)")
  then have "fl w = fl (world s)" using log_privateD(17) [OF assms, of c "umem s" "world s"] by simp
  then show ?thesis using r by (cases r) (simp_all add: real_call_def boots_def)
qed

lemma now_boots:
  assumes "log_private os fl" and "\<not> runtime_ready (cfg s)"
  obtains v s' where "rr_now_mono_ns os s = Some (v, s')" "boots fl s s'"
proof -
  obtain rc s1 where r: "real_call os (CClockGettime CLOCK_MONOTONIC (os_ts_addr os)) (-1) s = (rc, s1)" by (cases "real_call os (CClockGettime CLOCK_MONOTONIC (os_ts_addr os)) (-1) s")
  have b: "boots fl s s1" using real_call_boots [OF assms(1), of s] r by (metis snd_conv)
  then have "\<not> runtime_ready (cfg s1)" using assms(2) by (simp add: boots_def)
  then show ?thesis using that r b inactive [OF assms(2)] inactive [of s1]
    by (cases "rc = 0") (simp_all add: rr_now_mono_ns_def clock_gettime_def record_struct_def Let_def)
qed

lemma getpid_boots:
  assumes "log_private os fl" and "\<not> runtime_ready (cfg s)"
  obtains v s' where "getpid os s = Some (v, s')" "boots fl s s'"
proof -
  obtain rc s1 where r: "real_call os CGetpid (-1) s = (rc, s1)" by (cases "real_call os CGetpid (-1) s")
  have b: "boots fl s s1" using real_call_boots [OF assms(1), of s] r by (metis snd_conv)
  then have "\<not> runtime_ready (cfg s1)" using assms(2) by (simp add: boots_def)
  then show ?thesis using that r b inactive [OF assms(2)] inactive [of s1] by (simp add: getpid_def)
qed

section \<open>Opening the log\<close>

text \<open>What holds of a state in which nothing but the header has been logged.\<close>

definition log_opened :: "'w os \<Rightarrow> ('w \<Rightarrow> u8 list) \<Rightarrow> ('w \<Rightarrow> nat) \<Rightarrow> rr_log_header_t \<Rightarrow> ('c, 'w) rr \<Rightarrow> bool" where
  "log_opened os fl \<mu> h s \<longleftrightarrow> rec_inv os fl \<mu> s \<and> g_ring_used (rcd s) = 0 \<and> fl (world s) = enc_header h
     \<and> hd_magic h = RR_LOG_MAGIC \<and> hd_version h = RR_LOG_VERSION"

lemma boots_opened: "boots fl s t \<Longrightarrow> log_opened os fl \<mu> h s \<Longrightarrow> log_opened os fl \<mu> h t"
  by (simp add: boots_def log_opened_def rec_inv_def)

definition unchanged :: "('c, 'w) rr \<Rightarrow> ('c, 'w) rr \<Rightarrow> bool" where
  "unchanged s s' \<longleftrightarrow> cfg s' = cfg s \<and> sch s' = sch s \<and> uth s' = uth s \<and> rpl s' = rpl s"

lemma boots_unchanged: "boots fl s t \<Longrightarrow> unchanged s t"
  by (simp add: boots_def unchanged_def)

lemma unchanged_trans: "unchanged s t \<Longrightarrow> unchanged t u \<Longrightarrow> unchanged s u"
  by (simp add: unchanged_def)

lemma header_written:
  assumes lp: "log_private os fl" and nr: "\<not> runtime_ready (cfg s)" and s: "0 \<le> g_log_fd (rcd s)" "g_ring (rcd s) = Some ring"
      "g_ring_used (rcd s) = 0" "fl (world s) = []" "write_ok os (g_log_fd (rcd s)) fl \<mu>"
  obtains start s1 pid s2 e w where "rr_now_mono_ns os s = Some (start, s1)" "getpid os s1 = Some (pid, s2)"
    "rr_write_direct os (enc_header \<lparr> hd_magic = RR_LOG_MAGIC, hd_version = RR_LOG_VERSION, hd_start_time = start,
        hd_pid = of_int pid, hd_reserved = 0 \<rparr>) s2 = Some (0, s2\<lparr>errno := e, world := w\<rparr>)"
    "unchanged s s2" "log_opened os fl \<mu> \<lparr> hd_magic = RR_LOG_MAGIC, hd_version = RR_LOG_VERSION, hd_start_time = start,
        hd_pid = of_int pid, hd_reserved = 0 \<rparr> (s2\<lparr>errno := e, world := w\<rparr>)"
proof -
  obtain start s1 where s1: "rr_now_mono_ns os s = Some (start, s1)" "boots fl s s1" using now_boots [OF lp nr] .
  have nr1: "\<not> runtime_ready (cfg s1)" using nr s1(2) by (simp add: boots_def)
  obtain pid s2 where s2: "getpid os s1 = Some (pid, s2)" "boots fl s1 s2" using getpid_boots [OF lp nr1] .
  have b: "boots fl s s2" using s1(2) s2(2) by (rule boots_trans)
  let ?h = "\<lparr> hd_magic = RR_LOG_MAGIC, hd_version = RR_LOG_VERSION, hd_start_time = start, hd_pid = of_int pid, hd_reserved = 0 \<rparr>"
  have "write_ok os (g_log_fd (rcd s2)) fl \<mu>" using b s(5) by (simp add: boots_def)
  then obtain e w where w: "rr_write_direct os (enc_header ?h) s2 = Some (0, s2\<lparr>errno := e, world := w\<rparr>)" "fl w = fl (world s2) @ enc_header ?h"
    using write_direct_total by blast
  have "log_opened os fl \<mu> ?h (s2\<lparr>errno := e, world := w\<rparr>)" using w(2) b s by (simp add: log_opened_def rec_inv_def boots_def)
  then show ?thesis using that [OF s1(1) s2(1) w(1) boots_unchanged [OF b]] by blast
qed

lemma resolve_unchanged: "unchanged s (snd (rr_resolve_real_io os s))"
  "g_ring_used (rcd (snd (rr_resolve_real_io os s))) = g_ring_used (rcd s)"
  "world (snd (rr_resolve_real_io os s)) = world s"
  by (simp_all add: rr_resolve_real_io_def unchanged_def Let_def)

lemma record_init_total:
  assumes lp: "log_private os fl" and op: "open_ok os fl \<mu>" and nr: "\<not> runtime_ready (cfg s)" and u: "g_ring_used (rcd s) = 0"
  shows "\<exists>rc s'. rr_record_init os path s = Some (rc, s') \<and> unchanged s s' \<and> (start_ok os \<longrightarrow> rc = 0) \<and> (rc = 0 \<longrightarrow> (\<exists>h. log_opened os fl \<mu> h s'))"
proof -
  obtain rc s1 where r: "rr_resolve_real_io os s = (rc, s1)" by (cases "rr_resolve_real_io os s")
  have u1: "unchanged s s1" "g_ring_used (rcd s1) = 0" using resolve_unchanged [where s = s and os = os] r u by simp_all
  show ?thesis
  proof (cases "rc = 0")
    case False
    then have "\<not> start_ok os" using r start_okD(2) by (fastforce simp: rr_resolve_real_io_def Let_def split: if_splits)
    then show ?thesis using False r u1 by (simp add: rr_record_init_def)
  next
    case rc: True
    show ?thesis
    proof (cases rule: kres_cases [of "os_mmap os (of_nat RR_LOG_RING_SIZE) True" s1])
      case (fail e w)
      then have "\<not> start_ok os" using start_okD(13) by metis
      then show ?thesis using fail r rc u1 by (simp add: rr_record_init_def unchanged_def)
    next
      case (ok ring w)
      define s2 where "s2 = s1\<lparr>world := w, rcd := (rcd s1)\<lparr>g_ring := Some ring\<rparr>\<rparr>"
      obtain ofd s3 where o: "kres (os_open_log os path) s2 = (ofd, s3)" by (cases "kres (os_open_log os path) s2")
      define fd where "fd = (case ofd of None \<Rightarrow> -1 | Some fd \<Rightarrow> fd)"
      define s4 where "s4 = s3\<lparr>rcd := (rcd s3)\<lparr>g_log_fd := fd\<rparr>\<rparr>"
      have fr: "unchanged s s3" "rcd s3 = rcd s2"
        using o u1 by (cases rule: kres_cases [of "os_open_log os path" s2]; simp add: unchanged_def s2_def)+
      note eq = rr_record_init_def r rc ok(1) s2_def [symmetric] o fd_def [symmetric] s4_def [symmetric]
      show ?thesis
      proof (cases "fd < 0")
        case True
        then have "\<not> start_ok os" using o start_okD(3,4)
          by (cases rule: kres_cases [of "os_open_log os path" s2]) (fastforce simp: fd_def)+
        then show ?thesis using True fr by (simp add: eq unchanged_def kdo_def)
      next
        case False
        have h: "fl (world s4) = []" "write_ok os fd fl \<mu>"
          using o False op by (cases rule: kres_cases [of "os_open_log os path" s2]; auto simp: fd_def s4_def open_ok_def)+
        have u4: "unchanged s s4" "g_log_fd (rcd s4) = fd" "g_ring (rcd s4) = Some ring" "g_ring_used (rcd s4) = 0"
          using fr u1(2) by (simp_all add: s4_def s2_def unchanged_def)
        have nr4: "\<not> runtime_ready (cfg s4)" using nr u4(1) by (simp add: unchanged_def)
        obtain start t1 pid t2 e w' where t: "rr_now_mono_ns os s4 = Some (start, t1)" "getpid os t1 = Some (pid, t2)"
          "rr_write_direct os (enc_header \<lparr> hd_magic = RR_LOG_MAGIC, hd_version = RR_LOG_VERSION, hd_start_time = start,
              hd_pid = of_int pid, hd_reserved = 0 \<rparr>) t2 = Some (0, t2\<lparr>errno := e, world := w'\<rparr>)"
          "unchanged s4 t2" "log_opened os fl \<mu> \<lparr> hd_magic = RR_LOG_MAGIC, hd_version = RR_LOG_VERSION, hd_start_time = start,
              hd_pid = of_int pid, hd_reserved = 0 \<rparr> (t2\<lparr>errno := e, world := w'\<rparr>)"
          by (rule header_written [OF lp nr4 _ u4(3,4) h(1), of \<mu>]) (use h(2) False u4(2) in simp_all)
        have "rr_record_init os path s = Some (0, t2\<lparr>errno := e, world := w'\<rparr>)" using False t(1-3) by (simp add: eq)
        then show ?thesis using t(5) unchanged_trans [OF u4(1) t(4)] by (auto simp: unchanged_def)
      qed
    qed
  qed
qed

lemma record_shutdown_unchanged:
  assumes "rec_inv os fl \<mu> s"
  shows "\<exists>s'. rr_record_shutdown os s = Some s' \<and> unchanged s s'"
proof -
  obtain s1 where s1: "rr_record_flush os s = Some s1" using flush_total [OF assms] by blast
  have "unchanged s s1" using flush_frame [OF s1] by (simp add: unchanged_def log_frameD)
  then show ?thesis using s1 by (simp add: rr_record_shutdown_def kdo_def unchanged_def Let_def split: option.split)
qed

lemma signal_shutdown_boots:
  assumes "\<not> runtime_ready (cfg s)" and lp: "log_private os fl"
  shows "\<exists>s'. rr_signal_shutdown os ctx s = Some s' \<and> boots fl s s'"
proof -
  obtain v e m w where c: "close os ctx (g_signalfd (sigs s)) s = Some (Ret v, s\<lparr>errno := e, umem := m, world := w\<rparr>)" "quiet os (world s) w"
    using close_not_ready [OF assms(1)] by blast
  have "fl w = fl (world s)" using c(2) lp by (rule quietD)
  then show ?thesis using c(1) log_privateD(3) [OF lp]
    by (cases "0 \<le> g_signalfd (sigs s)") (auto simp: rr_signal_shutdown_def kdo_def boots_def Let_def)
qed

lemma io_shutdown_boots: "log_private os fl \<Longrightarrow> boots fl s (rr_io_shutdown os s)"
  by (simp add: rr_io_shutdown_def boots_def kdo_def log_privateD)

text \<open>Closing down after a failed start.\<close>

lemma down_total:
  assumes lp: "log_private os fl" and nr: "\<not> runtime_ready (cfg s)" and inv: "rec_inv os fl \<mu> s"
  shows "\<exists>t s'. rr_signal_shutdown os ctx s = Some t \<and> rr_record_shutdown os t = Some s' \<and> unchanged s s'"
    and "\<exists>s'. record_down os ctx s = Some s' \<and> unchanged s s'"
proof -
  have down: "\<exists>t s'. rr_signal_shutdown os ctx x = Some t \<and> rr_record_shutdown os t = Some s' \<and> unchanged s s'" if b: "boots fl s x" for x
  proof -
    have "\<not> runtime_ready (cfg x)" using nr b by (simp add: boots_def)
    then obtain t where t: "rr_signal_shutdown os ctx x = Some t" "boots fl x t" using signal_shutdown_boots [OF _ lp, of x ctx] by blast
    have bt: "boots fl s t" using b t(2) by (rule boots_trans)
    obtain s' where "rr_record_shutdown os t = Some s'" "unchanged t s'"
      using record_shutdown_unchanged [OF boots_rec_inv [OF bt inv]] by blast
    then show ?thesis using t(1) unchanged_trans [OF boots_unchanged [OF bt]] by blast
  qed
  show "\<exists>t s'. rr_signal_shutdown os ctx s = Some t \<and> rr_record_shutdown os t = Some s' \<and> unchanged s s'"
    using down [OF boots_refl] .
  show "\<exists>s'. record_down os ctx s = Some s' \<and> unchanged s s'"
    using down [OF io_shutdown_boots [OF lp]] by (auto simp: record_down_def)
qed

lemma init_record_total:
  assumes bp: "boot_private os fl" and op: "open_ok os fl \<mu>" and nr: "\<not> runtime_ready (cfg s)" and u: "g_ring_used (rcd s) = 0"
  shows "\<exists>go s'. init_record os ctx s = Some (go, s') \<and> unchanged s s' \<and> (start_ok os \<longrightarrow> go) \<and> (go \<longrightarrow> (\<exists>h. log_opened os fl \<mu> h s'))"
proof -
  note lp = boot_privateD(1) [OF bp]
  obtain rc s1 where s1: "rr_record_init os (log_path (cfg s)) s = Some (rc, s1)" "unchanged s s1" "start_ok os \<longrightarrow> rc = 0" "rc = 0 \<longrightarrow> (\<exists>h. log_opened os fl \<mu> h s1)"
    using record_init_total [OF lp op nr u] by blast
  show ?thesis
  proof (cases "rc = 0")
    case False
    then show ?thesis using s1 by (intro exI [of _ False] exI [of _ s1]) (simp add: init_record_def)
  next
    case True
    then obtain h where h: "log_opened os fl \<mu> h s1" using s1(4) by blast
    obtain rc2 s2 where s2: "rr_signal_init os s1 = (rc2, s2)" by (cases "rr_signal_init os s1")
    obtain rc3 s3 where s3: "rr_io_init os 256 s2 = (rc3, s3)" by (cases "rr_io_init os 256 s2")
    obtain rc4 s4 where s4: "rr_io_submit_signal_read os (rr_signal_fd s3) s3 = (rc4, s4)" by (cases "rr_io_submit_signal_read os (rr_signal_fd s3) s3")
    have b2: "boots fl s1 s2" using signal_init_boots [OF bp, of s1] s2 by simp
    have b3: "boots fl s1 s3" using boots_trans [OF b2] io_init_boots [OF bp, of s2 256] s3 by simp
    have b4: "boots fl s1 s4" using boots_trans [OF b3] submit_signal_boots [OF lp, of s3 "rr_signal_fd s3"] s4 by simp
    have st: "rec_inv os fl \<mu> x \<and> \<not> runtime_ready (cfg x) \<and> unchanged s x" if "boots fl s1 x" for x
      using boots_opened [OF that h] s1(2) nr boots_unchanged [OF that] by (simp add: log_opened_def unchanged_def)
    have ok: "rc2 = 0" "rc3 = 0" "rc4 = 0" if "start_ok os"
      using signal_init_rc [OF that, of s1] io_init_rc [OF that, of 256 s2] submit_signal_rc [OF that, of s3 "rr_signal_fd s3"] s2 s3 s4 by simp_all
    note eq = init_record_def s1(1) True s2 s3 s4
    consider "rc2 \<noteq> 0" | "rc2 = 0" "rc3 \<noteq> 0" | "rc2 = 0" "rc3 = 0" "rc4 \<noteq> 0" | "rc2 = 0" "rc3 = 0" "rc4 = 0" by blast
    then show ?thesis
    proof cases
      case 1
      obtain x where "rr_record_shutdown os s2 = Some x" "unchanged s2 x" using record_shutdown_unchanged [of os fl \<mu> s2] st [OF b2] by blast
      then show ?thesis using 1 ok st [OF b2] unchanged_trans [of s s2 x] by (intro exI [of _ False] exI [of _ x]) (auto simp: eq)
    next
      case 2
      obtain y x where "rr_signal_shutdown os ctx s3 = Some y" "rr_record_shutdown os y = Some x" "unchanged s3 x"
        using down_total(1) [OF lp, of s3 \<mu> ctx] st [OF b3] by blast
      then show ?thesis using 2 ok st [OF b3] unchanged_trans [of s s3 x] by (intro exI [of _ False] exI [of _ x]) (auto simp: eq)
    next
      case 3
      obtain x where "record_down os ctx s4 = Some x" "unchanged s4 x" using down_total(2) [OF lp, of s4 \<mu> ctx] st [OF b4] by blast
      then show ?thesis using 3 ok st [OF b4] unchanged_trans [of s s4 x] by (intro exI [of _ False] exI [of _ x]) (auto simp: eq)
    next
      case 4
      then show ?thesis using st [OF b4] boots_opened [OF b4 h] by (intro exI [of _ True] exI [of _ s4]) (auto simp: eq)
    qed
  qed
qed

section \<open>The scheduler and the main thread\<close>

definition main_ut :: "u64 \<Rightarrow> 'c uthread_t" where
  "main_ut tls = ut_zero\<lparr>ut_id := 1, ut_state := UT_RUNNING, ut_tls_block := tls\<rparr>"

definition main_sched :: "u64 \<Rightarrow> u64 \<Rightarrow> nat \<Rightarrow> 'c sched" where
  "main_sched sp tls tc = sched_init\<lparr>ut_heap := [1 \<mapsto> main_ut tls],
     ut_brk := 2, g_sched_stack := sp, g_sched_running := True,
     g_current := Some 1, g_threads := [Some 1], g_threads_cap := tc\<rparr>"

definition main_uth :: "u64 \<Rightarrow> nat \<Rightarrow> uthread_state" where
  "main_uth tls ac = \<lparr> g_next_id = 2, g_scheduler_tls = tls, g_allocated = [Some 1], g_allocated_cap = ac \<rparr>"

text \<open>The state of a freshly loaded library, as far as the thread set-up reads it.\<close>

definition fresh :: "('c, 'w) rr \<Rightarrow> bool" where
  "fresh s \<longleftrightarrow> sch s = sched_init \<and> uth s = \<lparr> g_next_id = 1, g_scheduler_tls = 0, g_allocated = [], g_allocated_cap = 0 \<rparr>"

definition same_log :: "'w os \<Rightarrow> ('c, 'w) rr \<Rightarrow> ('c, 'w) rr \<Rightarrow> bool" where
  "same_log os s s' \<longleftrightarrow> cfg s' = cfg s \<and> rcd s' = rcd s \<and> rpl s' = rpl s \<and> iou s' = iou s \<and> umem s' = umem s
     \<and> quiet os (world s) (world s')"

lemma same_log_trans: "same_log os s t \<Longrightarrow> same_log os t u \<Longrightarrow> same_log os s u"
  by (auto simp: same_log_def intro: quiet_trans)

lemma scheduler_init_cases:
  assumes f: "fresh s"
  shows "\<exists>rc s'. rr_scheduler_init os s = (rc, s') \<and> same_log os s s' \<and> (env_ok os \<longrightarrow> rc = 0) \<and> (rc = 0 \<longrightarrow> errno s' = errno s \<and> uth s' = uth s
    \<and> (\<exists>sp. sch s' = sched_init\<lparr>g_sched_stack := sp, g_sched_running := True\<rparr>))"
proof (cases rule: kres_cases [of "os_mmap os RR_SCHED_STACK_SIZE True" s])
  case (fail e w)
  have "\<not> env_ok os" using fail(2) unfolding env_ok_def by (metis Inl_Inr_False fst_conv)
  then show ?thesis using fail quiet_calls(1) [OF fail(2)] by (simp add: rr_scheduler_init_def same_log_def)
next
  case mm: (ok sp w)
  let ?s = "s\<lparr>world := w, sch := (sch s)\<lparr>g_sched_stack := sp\<rparr>\<rparr>"
  show ?thesis
  proof (cases rule: kres_cases [of "os_getcontext os" ?s])
    case (fail e w2)
    have "\<not> env_ok os" using fail(2) unfolding env_ok_def by (metis Inl_Inr_False fst_conv)
    then show ?thesis using fail mm quiet_trans [OF quiet_calls(1) [OF mm(2)] quiet_calls(4) [OF fail(2) [simplified]]]
      by (simp add: rr_scheduler_init_def same_log_def kdo_def Let_def)
  next
    case (ok v w2)
    then show ?thesis using mm quiet_trans [OF quiet_calls(1) [OF mm(2)] quiet_calls(4) [OF ok(2) [simplified]]] f
      by (auto simp: rr_scheduler_init_def same_log_def Let_def fresh_def)
  qed
qed

lemma grow_push_first:
  obtains (fail) e w' where "grow_push (os_alloc os) k x [] 0 w = (Inl e, w')" "quiet os w w'" "\<not> alloc_ok os"
  | (ok) cap w' where "grow_push (os_alloc os) k x [] 0 w = (Inr ([x], cap), w')" "quiet os w w'"
proof -
  obtain r w' where r: "os_alloc os (grow_cap 0 * k) w = (r, w')" by (cases "os_alloc os (grow_cap 0 * k) w")
  have "\<not> alloc_ok os" if "r = Inl e" for e using r that unfolding alloc_ok_def by (metis Inl_Inr_False fst_conv)
  then show ?thesis using r fail ok quiet_calls(3) [OF r] by (cases r) (auto simp: grow_push_def)
qed

definition main_ready :: "'w os \<Rightarrow> u64 \<Rightarrow> ('c, 'w) rr \<Rightarrow> int \<Rightarrow> ('c, 'w) rr \<Rightarrow> bool" where
  "main_ready os sp s rc s' \<longleftrightarrow> same_log os s s' \<and> (env_ok os \<longrightarrow> rc = 0)
     \<and> (rc = 0 \<longrightarrow> errno s' = errno s \<and> (\<exists>tls tc ac. sch s' = main_sched sp tls tc \<and> uth s' = main_uth tls ac))"

text \<open>The two registrations at the end of \<^verbatim>\<open>rr_uthread_init_main\<close>.\<close>

definition main_register :: "'w os \<Rightarrow> ('c, 'w) rr \<Rightarrow> (int \<times> ('c, 'w) rr) option" where
  "main_register os s =
     (let (rc, s) = rr_scheduler_register_thread os (Some 1) s;
          (rc, s) = (if rc \<noteq> 0 then (rc, s) else remember_thread os (Some 1) s)
      in if rc \<noteq> 0 then Some (-1, ut_free 1 s) else Some (0, s\<lparr>uth := (uth s)\<lparr>g_next_id := 2\<rparr>\<rparr>))"

lemma main_register_ready:
  assumes s: "sch s = sched_init\<lparr>ut_heap := [1 \<mapsto> main_ut tls], ut_brk := 2, g_sched_stack := sp, g_sched_running := True, g_current := Some 1\<rparr>"
      "uth s = \<lparr> g_next_id = 1, g_scheduler_tls = tls, g_allocated = [], g_allocated_cap = 0 \<rparr>"
    and z: "same_log os z s" "errno s = errno z"
  shows "\<exists>rc s'. main_register os s = Some (rc, s') \<and> main_ready os sp z rc s'"
proof (cases rule: grow_push_first [of os 8 "Some (1 :: nat)" "world s"])
  case (fail e w)
  then have "main_register os s = Some (-1, ut_free 1 (s\<lparr>errno := e, world := w\<rparr>))"
    using s by (simp add: main_register_def rr_scheduler_register_thread_def sched_init_def)
  moreover have "main_ready os sp z (-1) (ut_free 1 (s\<lparr>errno := e, world := w\<rparr>))"
    using fail z(1) by (auto simp: main_ready_def same_log_def ut_free_def env_ok_def intro: quiet_trans)
  ultimately show ?thesis by blast
next
  case reg: (ok tc w)
  show ?thesis
  proof (cases rule: grow_push_first [of os 8 "Some (1 :: nat)" w])
    case (fail e w2)
    let ?t = "ut_free 1 (s\<lparr>sch := (sch s)\<lparr>g_threads := [Some 1], g_threads_cap := tc\<rparr>, errno := e, world := w2\<rparr>)"
    have "main_register os s = Some (-1, ?t)"
      using reg fail s by (simp add: main_register_def rr_scheduler_register_thread_def remember_thread_def sched_init_def)
    moreover have "main_ready os sp z (-1) ?t"
      using reg fail z(1) by (auto simp: main_ready_def same_log_def ut_free_def env_ok_def intro: quiet_trans)
    ultimately show ?thesis by blast
  next
    case (ok ac w2)
    let ?t = "s\<lparr>sch := main_sched sp tls tc, uth := main_uth tls ac, world := w2\<rparr>"
    have "main_register os s = Some (0, ?t)"
      using reg ok s
      by (simp add: main_register_def rr_scheduler_register_thread_def remember_thread_def sched_init_def main_sched_def main_uth_def)
    moreover have "main_ready os sp z 0 ?t" using reg ok z by (auto simp: main_ready_def same_log_def intro: quiet_trans)
    ultimately show ?thesis by blast
  qed
qed

lemma main_init_cases:
  assumes s: "sch s = sched_init\<lparr>g_sched_stack := sp, g_sched_running := True\<rparr>"
      "uth s = \<lparr> g_next_id = 1, g_scheduler_tls = 0, g_allocated = [], g_allocated_cap = 0 \<rparr>"
  shows "\<exists>rc s'. rr_uthread_init_main os s = Some (rc, s') \<and> main_ready os sp s rc s'"
proof (cases rule: kres_cases [of "os_alloc os (sizeof_uthread os)" s])
  case (fail e w)
  have "\<not> alloc_ok os" using fail(2) unfolding alloc_ok_def by (metis Inl_Inr_False fst_conv)
  then show ?thesis using fail quiet_calls(3) [OF fail(2)]
    by (simp add: rr_uthread_init_main_def ut_calloc_def main_ready_def same_log_def env_ok_def)
next
  case al: (ok v w)
  define s1 where "s1 = s\<lparr>world := w, sch := (sch s)\<lparr>ut_heap := [1 \<mapsto> ut_zero\<lparr>ut_id := 1, ut_state := UT_RUNNING\<rparr>], ut_brk := 2\<rparr>\<rparr>"
  have l1: "same_log os s s1" using quiet_calls(3) [OF al(2)] by (simp add: s1_def same_log_def)
  have c1: "ut_calloc os s = (Some 1, s\<lparr>world := w, sch := (sch s)\<lparr>ut_heap := [1 \<mapsto> ut_zero], ut_brk := 2\<rparr>\<rparr>)"
    using al(1) s(1) by (simp add: ut_calloc_def Let_def sched_init_def del: One_nat_def)
  have u1: "on_sched (ut_upd (Some 1) (\<lambda>u. u\<lparr>ut_id := 1, ut_state := UT_RUNNING\<rparr>)) (s\<lparr>world := w, sch := (sch s)\<lparr>ut_heap := [1 \<mapsto> ut_zero], ut_brk := 2\<rparr>\<rparr>) = Some s1"
    by (simp add: on_sched_def s1_def)
  note eq = rr_uthread_init_main_def c1 u1
  show ?thesis
  proof (cases rule: kres_cases [of "os_getcontext os" s1])
    case (fail e w1)
    have "\<not> env_ok os" using fail(2) unfolding env_ok_def by (metis Inl_Inr_False fst_conv)
    then have "main_ready os sp s (-1) (ut_free 1 (s1\<lparr>errno := e, world := w1\<rparr>))"
      using l1 quiet_calls(4) [OF fail(2)] by (auto simp: main_ready_def same_log_def ut_free_def intro: quiet_trans)
    moreover have "rr_uthread_init_main os s = Some (-1, ut_free 1 (s1\<lparr>errno := e, world := w1\<rparr>))"
      using fail(1) by (simp add: eq del: One_nat_def)
    ultimately show ?thesis by blast
  next
    case gc: (ok v2 w1)
    have l2: "same_log os s (s1\<lparr>world := w1\<rparr>)" using l1 quiet_calls(4) [OF gc(2)] by (auto simp: same_log_def intro: quiet_trans)
    show ?thesis
    proof (cases rule: kres_cases [of "os_get_fs os" "s1\<lparr>world := w1\<rparr>"])
      case (fail e w2)
      have "\<not> env_ok os" using fail(2) unfolding env_ok_def by (metis Inl_Inr_False fst_conv)
      then have "main_ready os sp s (-1) (ut_free 1 (s1\<lparr>errno := e, world := w2\<rparr>))"
        using l2 quiet_calls(6) [OF fail(2)] by (auto simp: main_ready_def same_log_def ut_free_def intro: quiet_trans)
      moreover have "rr_uthread_init_main os s = Some (-1, ut_free 1 (s1\<lparr>errno := e, world := w2\<rparr>))"
        using gc(1) fail(1) by (simp add: eq rr_get_fs_base_def del: One_nat_def)
      ultimately show ?thesis by blast
    next
      case (ok tls w2)
      define s2 where "s2 = s1\<lparr>world := w2, sch := (sch s1)\<lparr>ut_heap := [1 \<mapsto> main_ut tls], g_current := Some 1\<rparr>, uth := (uth s)\<lparr>g_scheduler_tls := tls\<rparr>\<rparr>"
      define s3 where "s3 = s1\<lparr>world := w2, sch := (sch s1)\<lparr>ut_heap := [1 \<mapsto> main_ut tls]\<rparr>\<rparr>"
      have u3: "on_sched (ut_upd (Some 1) (ut_tls_block_update (\<lambda>_. tls))) (s1\<lparr>world := w2\<rparr>) = Some s3"
        by (simp add: on_sched_def s3_def s1_def main_ut_def del: One_nat_def)
      have s2: "rr_set_scheduler_tls_base tls (s3\<lparr>sch := rr_scheduler_set_current (Some 1) (sch s3)\<rparr>) = s2"
        by (simp add: rr_set_scheduler_tls_base_def rr_scheduler_set_current_def s2_def s3_def s1_def del: One_nat_def)
      have "rr_uthread_init_main os s = main_register os s2"
        using gc(1) ok(1) by (simp add: eq rr_get_fs_base_def u3 s2 main_register_def Let_def del: One_nat_def)
      moreover have "same_log os s s2" "errno s2 = errno s"
        using l2 quiet_calls(6) [OF ok(2)] by (auto simp: same_log_def s2_def s1_def intro: quiet_trans)
      ultimately show ?thesis using main_register_ready [where s = s2 and tls = tls and sp = sp and os = os and z = s] s by (simp add: s2_def s1_def)
    qed
  qed
qed

section \<open>The invariant after start-up\<close>

lemma main_thread_inv:
  assumes s: "sch s = main_sched sp tls tc" "uth s = main_uth tls ac" and N: "N + 2 < 2 ^ 64"
  shows "\<exists>A. thread_inv N s A \<and> arunning A 1"
proof -
  let ?A = "sched_abs (sch s) []"
  have h: "ut_heap (sch s) = [1 \<mapsto> main_ut tls]" and c: "g_current (sch s) = Some 1" and g: "g_threads (sch s) = map Some [1]"
    "ut_brk (sch s) = 2" "g_sched_running (sch s)" "g_runq_head (sch s) = None" "g_runq_tail (sch s) = None"
    using s(1) by (simp_all add: main_sched_def sched_init_def)
  have st: "ast ?A a = (if a = 1 then Some UT_RUNNING else None)" "ajw ?A a = None" for a
    by (simp_all add: sched_abs_def h main_ut_def ut_zero_def)
  have "refines (sch s) ?A" using g by (intro refines_abs) (simp add: runq_def)
  moreover have "ainv ?A" using st c by (auto simp: ainv_def sched_abs_def)
  moreover have "reg_ok (sch s)" unfolding reg_ok_def using g(1) h by (auto simp: ids_def intro!: exI [of _ "[1]"] split: if_splits)
  moreover have "waits ?A a \<Longrightarrow> False" for a using st(1) [of a] by (auto simp: waits_def split: if_splits)
  ultimately have "thread_inv N s ?A"
    unfolding thread_inv_def using g h s(2) N by (auto simp: main_uth_def ids_def main_ut_def split: if_splits)
  moreover have "arunning ?A 1" using st c by (simp add: arunning_def sched_abs_def)
  ultimately show ?thesis by blast
qed

lemma opened_event_log: "log_opened os fl \<mu> h s \<Longrightarrow> event_log fl (s\<lparr>rcd := (rcd s)\<lparr>g_rr_seq := 0\<rparr>\<rparr>) (enc_header h) []"
  by (simp add: log_opened_def event_log_def contents_def ring_bytes_def numbered_def)

text \<open>What a successful start in record mode gives: the first event is the switch from nothing to the main thread.\<close>

definition booted :: "'w os \<Rightarrow> ('w \<Rightarrow> u8 list) \<Rightarrow> ('w \<Rightarrow> nat) \<Rightarrow> rr_log_header_t \<Rightarrow> ('u ctx, 'w) rr \<Rightarrow> bool" where
  "booted os fl \<mu> h s \<longleftrightarrow> hd_magic h = RR_LOG_MAGIC \<and> hd_version h = RR_LOG_VERSION \<and> rr_active s \<and> \<not> rr_replay_active s
     \<and> rec_inv os fl \<mu> s \<and> event_log fl s (enc_header h) [sched_event 1 0 1]
     \<and> (\<exists>sp tls tc ac. sch s = main_sched sp tls tc \<and> uth s = main_uth tls ac)"

lemma booted_inv: "booted os fl \<mu> h s \<Longrightarrow> N + 2 < 2 ^ 64 \<Longrightarrow> sys_inv N os fl \<mu> (enc_header h) (User x s)"
  using main_thread_inv [of s _ _ _ _ N] by (fastforce simp: booted_def sys_inv_def rec_sys_def)

lemma sys_at_refines: "sys_at P Q N A S \<Longrightarrow> \<not> ended S \<Longrightarrow> refines (sch (state_of S)) A \<and> ainv A"
  by (cases S) (auto simp: sys_at_def dest: thread_invD)

text \<open>What the invariant says about the tables of the library: which threads are in the run queue, which one runs, and
  which ones the registry and the ownership table hold.\<close>

definition tables_ok :: "('c, 'w) rr \<Rightarrow> bool" where
  "tables_ok s \<longleftrightarrow> (\<exists>q ps. runq (sch s) q \<and> distinct q \<and> set q = {a. map_option ut_state (ut_heap (sch s) a) = Some UT_RUNNABLE}
     \<and> g_threads (sch s) = map Some ps \<and> g_allocated (uth s) = map Some ps \<and> distinct ps \<and> set ps = dom (ut_heap (sch s))
     \<and> inj_on (ids (sch s)) (set ps))"

lemma thread_inv_tables:
  assumes ti: "thread_inv N s A"
  shows "tables_ok s"
proof -
  note r = thread_invD(1-3,5) [OF ti]
  obtain ps where ps: "g_threads (sch s) = map Some ps" "distinct ps" "set ps = dom (ut_heap (sch s))"
    using r(3) by (auto simp: reg_ok_def)
  have "inj_on (ids (sch s)) (set ps)"
    using r(3) by (auto simp: reg_ok_def inj_on_def ps(3) ids_def)
  moreover have "set (aq A) = {a. map_option ut_state (ut_heap (sch s) a) = Some UT_RUNNABLE}" "distinct (aq A)"
    using r(2) refinesD(3) [OF r(1)] by (auto simp: ainv_def)
  ultimately show ?thesis
    using refinesD(1) [OF r(1)] ps r(4) unfolding tables_ok_def by (intro exI [of _ "aq A"] exI [of _ ps]) simp
qed

definition one_running :: "('u, 'w) sys \<Rightarrow> bool" where
  "one_running S \<longleftrightarrow> {a. map_option ut_state (ut_heap (sch (state_of S)) a) = Some UT_RUNNING}
     = (case S of User x s \<Rightarrow> set_option (g_current (sch s)) | _ \<Rightarrow> {}) \<and> (\<forall>x s. S = User x s \<longrightarrow> g_current (sch s) \<noteq> None)"

lemma sys_at_tables:
  assumes "sys_at P Q N A S" and "\<not> ended S"
  shows "tables_ok (state_of S)" "one_running S"
proof -
  have ti: "thread_inv N (state_of S) A" using assms by (cases S) (auto simp: sys_at_def)
  then show "tables_ok (state_of S)" by (rule thread_inv_tables)
  note r = thread_invD(1,2) [OF ti]
  have "a \<in> {a. map_option ut_state (ut_heap (sch (state_of S)) a) = Some UT_RUNNING} \<longleftrightarrow> ast A a = Some UT_RUNNING" for a
    using refinesD(3) [OF r(1)] by simp
  moreover have "ast A a = Some UT_RUNNING \<Longrightarrow> g_current (sch (state_of S)) = Some a" for a
    using r(2) refinesD(2) [OF r(1)] by (auto simp: ainv_def)
  ultimately show "one_running S"
    using assms refinesD(2) [OF r(1)] by (cases S) (auto simp: one_running_def sys_at_def arunning_def aidle_def)
qed

text \<open>A started process, as a run of the abstract scheduler: from the start, and between any two points of time.\<close>

lemma booted_run:
  assumes "booted os fl \<mu> h s" and "log_private os fl" and "alloc_ok os" and "n + 2 < 2 ^ 64"
  obtains S' A ls A' where "sys_run os user start n (User x s) = Some S'" "refines (sch s) A" "ainv A" "arun A ls A'"
    "dispatch_order ls = dispatch_trace os user start n (User x s)" "rec_at 0 os fl \<mu> (enc_header h) A' S'"
proof -
  obtain A where A: "rec_at (n + 0) os fl \<mu> (enc_header h) A (User x s)"
    using booted_inv [OF assms(1), of n x] assms(4) unfolding sys_inv_at [OF assms(2,3)] by auto
  then show ?thesis using that recm.run_refines [OF only_calls_True A, of user start] sys_at_refines [OF A] by (auto simp: sys_from_def)
qed

lemma run_between:
  assumes "booted os fl \<mu> h s" and lp: "log_private os fl" "alloc_ok os" and "m + n + 2 < 2 ^ 64"
    and m: "sys_run os user start m (User x s) = Some S1"
  obtains S2 A ls A' where "sys_run os user start n S1 = Some S2" "rec_at n os fl \<mu> (enc_header h) A S1" "arun A ls A'"
    "dispatch_order ls = dispatch_trace os user start n S1" "rec_at 0 os fl \<mu> (enc_header h) A' S2"
proof -
  have "sys_inv (m + n) os fl \<mu> (enc_header h) (User x s)" using booted_inv [OF assms(1)] assms(4) by simp
  then obtain A where A: "rec_at (n + 0) os fl \<mu> (enc_header h) A S1"
    using sys_run_safe [OF lp, of m n \<mu> "enc_header h" "User x s" user start] m unfolding sys_inv_at [OF lp] by auto
  then show ?thesis using that recm.run_refines [OF only_calls_True A, of user start] by (auto simp: sys_from_def)
qed


lemma debugf_fl: "boot_private os fl \<Longrightarrow> fl (world (rr_debugf os msg s)) = fl (world s)"
  using boot_privateD(7) [of os fl "str_bytes (take (if 512 \<le> length msg then 511 else length msg) msg)" "world s"]
  by (auto simp: rr_debugf_def Let_def split: prod.splits sum.splits)

lemma first_event:
  assumes bp: "boot_private os fl" and o: "log_opened os fl \<mu> h s" and m: "mode_record (cfg s)" "\<not> mode_replay (cfg s)"
    and t: "sch s = main_sched sp tls tc" "uth s = main_uth tls ac"
  shows "\<exists>t. rr_log_sched os 0 1 (s\<lparr>rcd := (rcd s)\<lparr>g_rr_seq := 0\<rparr>\<rparr>) = Some t \<and> unchanged s t
    \<and> booted os fl \<mu> h (rr_debugf os (msg (cfg (rr_mark_runtime_ready t))) (rr_mark_runtime_ready t))"
proof -
  let ?s = "s\<lparr>rcd := (rcd s)\<lparr>g_rr_seq := 0\<rparr>\<rparr>"
  have inv: "rec_inv os fl \<mu> ?s" using o by (simp add: log_opened_def rec_inv_def)
  obtain t where lt: "rr_log_sched os 0 1 ?s = Some t" "rec_inv os fl \<mu> t" "event_log fl t (enc_header h) [sched_event 1 0 1]"
    "log_frame (snd (rr_next_seq ?s)) t"
    using log_sched_total [OF _ inv opened_event_log [OF o], of 0 1] m(1) by auto
  let ?r = "rr_debugf os (msg (cfg (rr_mark_runtime_ready t))) (rr_mark_runtime_ready t)"
  have u: "unchanged s t" using log_frameD [OF lt(4)] by (simp add: unchanged_def rr_next_seq_def Let_def)
  have fr: "sch ?r = sch s" "uth ?r = uth s" "rcd ?r = rcd t" "cfg ?r = (cfg s)\<lparr>runtime_ready := True\<rparr>" "fl (world ?r) = fl (world t)"
    using u by (simp_all add: unchanged_def rr_mark_runtime_ready_def debugf_fl [OF bp])
  have "rr_active ?r" "\<not> rr_replay_active ?r"
    using fr(4) m by (simp_all add: rr_active_def rr_replay_active_def cfg_active_def cfg_replay_active_def)
  moreover have "rec_inv os fl \<mu> ?r" using lt(2) fr(3) by (simp add: rec_inv_def)
  moreover have "event_log fl ?r (enc_header h) [sched_event 1 0 1]" using lt(3) fr(3,5) by (simp add: event_log_def contents_def)
  moreover have "sch ?r = main_sched sp tls tc" "uth ?r = main_uth tls ac" using fr(1,2) t by simp_all
  ultimately show ?thesis using lt(1) u o unfolding booted_def log_opened_def by blast
qed

lemma modes_down_total:
  assumes "log_private os fl" and "rec_inv os fl \<mu> s" and "\<not> runtime_ready (cfg s)" and "mode_record (cfg s)" "\<not> mode_replay (cfg s)"
  shows "\<exists>s'. modes_down os ctx s = Some s' \<and> cfg s' = cfg s"
proof -
  obtain s' where s': "record_down os ctx s = Some s'" "cfg s' = cfg s"
    using down_total(2) [OF assms(1,3,2), of ctx] by (auto simp: unchanged_def)
  then have "modes_down os ctx s = Some s'" using assms(4,5) by (simp add: modes_down_def)
  then show ?thesis using s'(2) by blast
qed

section \<open>Starting in record mode\<close>

lemma init_runtime_record:
  assumes bp: "boot_private os fl" and o: "log_opened os fl \<mu> h s" and nr: "\<not> runtime_ready (cfg s)" and f: "fresh s"
    and m: "mode_record (cfg s)" "\<not> mode_replay (cfg s)"
  shows "\<exists>s'. init_runtime os ctx s = Some s' \<and> (env_ok os \<longrightarrow> runtime_ready (cfg s')) \<and> (runtime_ready (cfg s') \<longrightarrow> booted os fl \<mu> h s')"
proof -
  note lp = boot_privateD(1) [OF bp]
  have kept: "log_opened os fl \<mu> h x" "\<not> runtime_ready (cfg x)" "mode_record (cfg x)" "\<not> mode_replay (cfg x)" "rec_inv os fl \<mu> x"
    if "same_log os s x" for x
    using that o nr m quietD [OF _ lp, of "world s" "world x"] by (auto simp: same_log_def log_opened_def rec_inv_def)
  have down: "\<exists>s'. modes_down os ctx x = Some s' \<and> (runtime_ready (cfg s') \<longrightarrow> booted os fl \<mu> h s')" if "same_log os s x" for x
    using modes_down_total [OF lp kept(5,2,3,4) [OF that], of ctx] kept(2) [OF that] by auto
  obtain rc s1 where s1: "rr_scheduler_init os s = (rc, s1)" "same_log os s s1" "env_ok os \<longrightarrow> rc = 0" "rc = 0 \<longrightarrow> errno s1 = errno s \<and> uth s1 = uth s
    \<and> (\<exists>sp. sch s1 = sched_init\<lparr>g_sched_stack := sp, g_sched_running := True\<rparr>)"
    using scheduler_init_cases [OF f, of os] by blast
  show ?thesis
  proof (cases "rc = 0")
    case False
    then show ?thesis using s1 down [OF s1(2)] by (simp add: init_runtime_def)
  next
    case rc: True
    then obtain sp where sp: "sch s1 = sched_init\<lparr>g_sched_stack := sp, g_sched_running := True\<rparr>" "uth s1 = uth s" using s1(4) by blast
    obtain rc2 s2 where s2: "rr_uthread_init_main os s1 = Some (rc2, s2)" "main_ready os sp s1 rc2 s2"
      using main_init_cases [OF sp(1), of os] sp(2) f by (auto simp: fresh_def)
    have l2: "same_log os s s2" using s1(2) s2(2) by (auto simp: main_ready_def intro: same_log_trans)
    show ?thesis
    proof (cases "rc2 = 0")
      case False
      have "same_log os s (rr_scheduler_shutdown os s2)"
        using l2 by (simp add: same_log_def rr_scheduler_shutdown_def kdo_def Let_def)
      then show ?thesis using rc s1(1) s2 False down by (simp add: init_runtime_def main_ready_def)
    next
      case True
      then obtain tls tc ac where t: "sch s2 = main_sched sp tls tc" "uth s2 = main_uth tls ac" using s2(2) by (auto simp: main_ready_def)
      obtain t where t': "rr_log_sched os 0 1 (s2\<lparr>rcd := (rcd s2)\<lparr>g_rr_seq := 0\<rparr>\<rparr>) = Some t" "unchanged s2 t"
        "booted os fl \<mu> h (rr_debugf os (msg_initialized (cfg (rr_mark_runtime_ready t))) (rr_mark_runtime_ready t))"
        using first_event [OF bp kept(1,3,4) [OF l2] t, of msg_initialized] by blast
      have "init_runtime os ctx s = Some (rr_debugf os (msg_initialized (cfg (rr_mark_runtime_ready t))) (rr_mark_runtime_ready t))"
        using rc s1(1) s2(1) True t'(1,2) kept(3,4) [OF l2] by (simp add: init_runtime_def unchanged_def Let_def)
      then show ?thesis using t'(3) by (simp add: rr_mark_runtime_ready_def)
    qed
  qed
qed

lemma parse_one_mode: "mode_record (rr_parse_env env c) \<Longrightarrow> \<not> mode_replay (rr_parse_env env c)"
  "runtime_ready (rr_parse_env env c) = runtime_ready c"
  by (auto simp: rr_parse_env_def)

lemma load_fresh [simp]: "fresh ((rr_load m w)\<lparr>cfg := c, errno := e\<rparr>)"
  by (simp add: fresh_def rr_load_def)

lemma boot_record:
  fixes os :: "'w os" and ctx :: "'u ctx"
  assumes bp: "boot_private os fl" and op: "open_ok os fl \<mu>" and m: "mode_record (rr_parse_env env g_rr_config_init)"
  shows "\<exists>s. rr_init os env ctx (rr_load mem0 w) = Some s \<and> (start_ok os \<longrightarrow> runtime_ready (cfg s)) \<and> (runtime_ready (cfg s) \<longrightarrow> (\<exists>h. booted os fl \<mu> h s))"
proof -
  define s0 :: "('u ctx, 'w) rr" where "s0 = (rr_load mem0 w)\<lparr>cfg := rr_parse_env env g_rr_config_init, errno := parse_errno env 0\<rparr>"
  have c0: "mode_record (cfg s0)" "\<not> mode_replay (cfg s0)" "\<not> runtime_ready (cfg s0)" "g_ring_used (rcd s0) = 0"
    using m parse_one_mode [of env g_rr_config_init] by (simp_all add: s0_def rr_load_def g_rr_config_init_def)
  obtain go s1 where s1: "init_record os ctx s0 = Some (go, s1)" "unchanged s0 s1" "start_ok os \<longrightarrow> go" "go \<longrightarrow> (\<exists>h. log_opened os fl \<mu> h s1)"
    using init_record_total [OF bp op c0(3,4), of ctx] by blast
  have i: "rr_init os env ctx (rr_load mem0 w) = (if \<not> go then Some s1 else init_runtime os ctx s1)"
    using c0(1,2) s1(1,2) by (simp add: rr_init_def rr_load_def unchanged_def s0_def)
  show ?thesis
  proof (cases go)
    case False
    then show ?thesis using i s1(2,3) c0(3) by (simp add: unchanged_def)
  next
    case True
    then obtain h where h: "log_opened os fl \<mu> h s1" using s1(4) by blast
    have "fresh s0" by (simp add: s0_def)
    then have f: "fresh s1" using s1(2) by (simp add: fresh_def unchanged_def)
    have c1: "\<not> runtime_ready (cfg s1)" "mode_record (cfg s1)" "\<not> mode_replay (cfg s1)" using c0 s1(2) by (simp_all add: unchanged_def)
    from init_runtime_record [OF bp h c1(1) f c1(2,3), of ctx] show ?thesis using i True start_okD(1) [of os] by auto
  qed
qed

section \<open>Starting in replay mode\<close>

lemma replay_init_ok:
  assumes f: "log_file os rest never path (world s) (enc_header h @ concat (map enc_event evs))" and h: "hd_magic h = RR_LOG_MAGIC" "hd_version h = RR_LOG_VERSION"
    and wf: "\<forall>ev \<in> set evs. wf_event ev" "seq_from 1 evs"
  shows "\<exists>s'. rr_replay_init os path s = Some (0, s') \<and> replay_log os rest never s' evs
    \<and> cfg s' = cfg s \<and> sch s' = sch s \<and> uth s' = uth s \<and> umem s' = umem s"
proof -
  have "good_header (enc_header h @ concat (map enc_event evs))" using h by (simp add: good_header_def)
  then show ?thesis using replay_init_cases [OF f] wf by (auto simp: replay_log_def)
qed

lemma init_runtime_replay:
  assumes bp: "boot_private os rest" and ok: "env_ok os" and f: "fresh s" and m: "mode_replay (cfg s)" "\<not> mode_record (cfg s)" "replay_time_virtual (cfg s)"
    and log: "replay_log os rest never s (sched_event 1 0 1 # es)"
  shows "\<exists>s'. init_runtime os ctx s = Some s' \<and> replaying os rest s' es \<and> umem s' = umem s
    \<and> (\<exists>sp tls tc ac. sch s' = main_sched sp tls tc \<and> uth s' = main_uth tls ac)"
proof -
  note lp = boot_privateD(1) [OF bp]
  obtain s1 sp where s1: "rr_scheduler_init os s = (0, s1)" "same_log os s s1" "uth s1 = uth s"
    "sch s1 = sched_init\<lparr>g_sched_stack := sp, g_sched_running := True\<rparr>"
    using scheduler_init_cases [OF f, of os] ok by auto
  obtain s2 tls tc ac where s2: "rr_uthread_init_main os s1 = Some (0, s2)" "same_log os s1 s2" "sch s2 = main_sched sp tls tc" "uth s2 = main_uth tls ac"
    using main_init_cases [OF s1(4), of os] s1(3) f ok by (auto simp: fresh_def main_ready_def)
  define s3 where "s3 = s2\<lparr>rcd := (rcd s2)\<lparr>g_rr_seq := 0\<rparr>\<rparr>"
  have l2: "same_log os s s2" using s1(2) s2(2) by (rule same_log_trans)
  have c2: "cfg s2 = cfg s" using l2 by (simp add: same_log_def)
  have fr: "cfg s3 = cfg s" "rpl s3 = rpl s" "umem s3 = umem s" "rest (world s3) = rest (world s)"
    using l2 quietD [OF _ lp] by (auto simp: s3_def same_log_def)
  have "replay_log os rest never s3 (sched_event 1 0 1 # es)" using log unfolding replay_log_def fr .
  moreover have "matches_sched 0 1 (sched_event 1 0 1)" by (simp add: matches_sched_def sched_event_def)
  ultimately obtain s4 where s4: "rr_replay_expect_sched os 0 1 s3 = Some (0, s4)" "replay_log os rest never s4 es" "replay_frame s3 s4"
    using expect_sched_ok by blast
  have fr4: "cfg s4 = cfg s" "umem s4 = umem s" "sch s4 = sch s2" "uth s4 = uth s2"
    using replay_frameD [OF s4(3)] fr by (simp_all add: s3_def)
  let ?r = "rr_debugf os (msg_initialized (cfg (rr_mark_runtime_ready s4))) (rr_mark_runtime_ready s4)"
  have "init_runtime os ctx s = Some ?r"
    using s1(1) s2(1) s4(1) m fr(1) c2 by (simp add: init_runtime_def s3_def [symmetric] Let_def)
  moreover have "cfg ?r = (cfg s)\<lparr>runtime_ready := True\<rparr>" "rpl ?r = rpl s4" "umem ?r = umem s" "sch ?r = sch s2" "uth ?r = uth s2" "rest (world ?r) = rest (world s4)"
    using fr4 by (simp_all add: rr_mark_runtime_ready_def debugf_fl [OF bp])
  moreover have "replaying os rest ?r es"
    using calculation(2-) s4(2) m by (simp add: replaying_def replay_log_def rr_active_def rr_replay_active_def cfg_active_def cfg_replay_active_def)
  ultimately show ?thesis using s2(3,4) by (metis (no_types, lifting))
qed

text \<open>The log that a recorded process leaves: a header, the first switch, then \<open>es\<close>.\<close>

definition log_bytes :: "rr_log_header_t \<Rightarrow> rr_event_t list \<Rightarrow> u8 list" where
  "log_bytes h es = enc_header h @ concat (map enc_event (sched_event 1 0 1 # es))"

lemma boot_replay:
  fixes os :: "'w os" and ctx :: "'u ctx"
  assumes bp: "boot_private os rest" and ok: "env_ok os" and m: "mode_replay (rr_parse_env env g_rr_config_init)" "replay_time_virtual (rr_parse_env env g_rr_config_init)"
    and f: "log_file os rest never (log_path (rr_parse_env env g_rr_config_init)) w (log_bytes h es)" and h: "hd_magic h = RR_LOG_MAGIC" "hd_version h = RR_LOG_VERSION"
    and wf: "\<forall>ev \<in> set es. wf_event ev" "seq_from 2 es"
  shows "\<exists>t. rr_init os env ctx (rr_load mem0 w) = Some t \<and> replaying os rest t es \<and> umem t = mem0
    \<and> (\<exists>sp tls tc ac. sch t = main_sched sp tls tc \<and> uth t = main_uth tls ac)"
proof -
  define s0 :: "('u ctx, 'w) rr" where "s0 = (rr_load mem0 w)\<lparr>cfg := rr_parse_env env g_rr_config_init, errno := parse_errno env 0\<rparr>"
  have c0: "mode_replay (cfg s0)" "\<not> mode_record (cfg s0)" "replay_time_virtual (cfg s0)" "world s0 = w" "umem s0 = mem0" "fresh s0"
    using m parse_one_mode(1) [of env g_rr_config_init] by (auto simp: s0_def rr_load_def fresh_def)
  have "\<forall>ev \<in> set (sched_event 1 0 1 # es). wf_event ev" "seq_from 1 (sched_event 1 0 1 # es)" using wf by simp_all
  then obtain s1 where s1: "rr_replay_init os (log_path (cfg s0)) s0 = Some (0, s1)" "replay_log os rest never s1 (sched_event 1 0 1 # es)"
    "cfg s1 = cfg s0" "sch s1 = sch s0" "uth s1 = uth s0" "umem s1 = umem s0"
    using replay_init_ok [OF f [unfolded log_bytes_def, folded c0(4)] h] by (auto simp: s0_def)
  have "rr_init os env ctx (rr_load mem0 w) = init_runtime os ctx s1"
    using c0(1,2) s1(1,3) by (simp add: rr_init_def rr_load_def s0_def)
  moreover have "fresh s1" using c0(6) s1(4,5) by (simp add: fresh_def)
  ultimately show ?thesis using init_runtime_replay [OF bp ok _ _ _ _ s1(2), of ctx] c0 s1(3,6) by simp
qed

section \<open>Whole processes\<close>

lemma seq_from_tail: "seq_from 1 (ev # evs) \<Longrightarrow> seq_from 2 evs"
  by simp

lemma main_view:
  assumes "sch s = main_sched sp tls tc" "uth s = main_uth tls ac" and "sch t = main_sched sp' tls' tc'" "uth t = main_uth tls' ac'"
    and "umem t = umem s"
  shows "same_view s (t\<lparr>errno := errno s\<rparr>)"
  using assms by (auto simp: same_view_def main_sched_def main_uth_def main_ut_def erase_def erase_ut_def fun_eq_iff sched_init_def)

lemma log_content:
  assumes "event_log fl s (enc_header h) (sched_event 1 0 1 # es)"
  shows "contents fl s = log_bytes h es" "\<forall>ev \<in> set es. wf_event ev" "seq_from 2 es"
  using assms seq_from_tail [OF numbered_seq_from] by (auto simp: event_log_def log_bytes_def)

lemma state_durable:
  assumes "sys_inv N os fl \<mu> hdr S" and "\<not> ended S" and "log_private os fl"
  shows "\<exists>z. rr_shutdown os CDone (state_of S) = Some z \<and> fl (world z) = contents fl (state_of S)"
  using assms exit_durable [of os fl \<mu> hdr "state_of S" N] by (cases S) (auto simp: sys_inv_def)

text \<open>Record, shut down, load again in replay mode, run.\<close>

lemma record_then_replay:
  fixes os1 :: "'w os" and os2 :: "'v os" and x :: 'u
  assumes p: "log_private os1 fl" "env_ok os1" and b: "booted os1 fl never h s"
    and run: "calm_run os1 fl user start n (User x s)" "n + 2 < 2 ^ 64"
    and rep: "boot_private os2 rest" "env_ok os2" "mode_replay (rr_parse_env env2 g_rr_config_init)" "replay_time_virtual (rr_parse_env env2 g_rr_config_init)"
  shows "\<exists>S' z. sys_run os1 user start n (User x s) = Some S' \<and> rr_shutdown os1 CDone (state_of S') = Some z
    \<and> (\<forall>w2. log_file os2 rest never (log_path (rr_parse_env env2 g_rr_config_init)) w2 (fl (world z)) \<longrightarrow>
        (\<exists>t T'. rr_init os2 env2 CDone (rr_load (umem s) w2) = Some t
          \<and> sys_run os2 user start n (User x (t\<lparr>errno := errno s\<rparr>)) = Some T' \<and> same_sys S' T'))"
proof -
  have log: "event_log fl (state_of (User x s)) (enc_header h) [sched_event 1 0 1]" using b by (simp add: booted_def)
  have inv: "sys_inv (n + 0) os1 fl never (enc_header h) (User x s)" using booted_inv [OF b] run(2) by simp
  note lp2 = boot_privateD(1) [OF rep(1)]
  obtain S' where S': "sys_run os1 user start n (User x s) = Some S'" "sys_inv 0 os1 fl never (enc_header h) S'" "\<not> ended S'"
    "sys_repeated fl (enc_header h) os2 rest [sched_event 1 0 1] (User x s) S' (sys_run os2 user start n)"
    using run_repeated [OF p(2) rep(2) p(1) lp2 inv log run(1)] by auto
  obtain new where new: "event_log fl (state_of S') (enc_header h) (sched_event 1 0 1 # new)"
    "\<And>T es. same_sys (User x s) T \<Longrightarrow> replaying os2 rest (state_of T) (new @ es) \<Longrightarrow>
      \<exists>T'. sys_run os2 user start n T = Some T' \<and> same_sys S' T' \<and> replaying os2 rest (state_of T') es"
    using S'(4) unfolding sys_repeated_def by auto
  obtain z where z: "rr_shutdown os1 CDone (state_of S') = Some z" "fl (world z) = log_bytes h new"
    using state_durable [OF S'(2,3) p(1)] log_content(1) [OF new(1)] by auto
  have h: "hd_magic h = RR_LOG_MAGIC" "hd_version h = RR_LOG_VERSION" using b by (simp_all add: booted_def)
  have "\<exists>t T'. rr_init os2 env2 CDone (rr_load (umem s) w2) = Some t
      \<and> sys_run os2 user start n (User x (t\<lparr>errno := errno s\<rparr>)) = Some T' \<and> same_sys S' T'"
    if f: "log_file os2 rest never (log_path (rr_parse_env env2 g_rr_config_init)) w2 (fl (world z))" for w2
  proof -
    obtain t :: "('u ctx, 'v) rr" and sp tls tc ac where t: "rr_init os2 env2 CDone (rr_load (umem s) w2) = Some t" "replaying os2 rest t new"
      "umem t = umem s" "sch t = main_sched sp tls tc" "uth t = main_uth tls ac"
      using boot_replay [OF rep f [unfolded z(2)] h log_content(2,3) [OF new(1)]] by blast
    obtain sp' tls' tc' ac' where s: "sch s = main_sched sp' tls' tc'" "uth s = main_uth tls' ac'" using b by (auto simp: booted_def)
    have "same_view s (t\<lparr>errno := errno s\<rparr>)" by (rule main_view [OF s t(4,5,3)])
    moreover have "replaying os2 rest (t\<lparr>errno := errno s\<rparr>) (new @ [])" using replaying_env [OF t(2) lp2, of "t\<lparr>errno := errno s\<rparr>"] by simp
    ultimately show ?thesis using new(2) [of "User x (t\<lparr>errno := errno s\<rparr>)" "[]"] t(1) by auto
  qed
  then show ?thesis using S'(1) z(1) by blast
qed

section \<open>The concrete environment\<close>

definition demo_env :: "string \<Rightarrow> string \<Rightarrow> string option" where
  "demo_env md = (\<lambda>v. if v = ''RR_MODE'' then Some md else None)"

lemma demo_env_modes [simp]:
  "mode_record (rr_parse_env (demo_env ''record'') c)" "mode_replay (rr_parse_env (demo_env ''replay'') c)"
  "replay_time_virtual (rr_parse_env (demo_env md) c)"
  by (simp_all add: rr_parse_env_def demo_env_def)

lemma demo_real_quiet: "d_log (snd (snd (demo_real c m w))) = d_log w" "d_rest (snd (snd (demo_real c m w))) = d_rest w"
  by (cases c; simp)+

lemma demo_private: "log_private demo_os d_log" "log_private demo_os d_rest"
  by (simp_all add: log_private_def demo_os_def demo_real_quiet split: list.split)

lemma demo_boot_private: "boot_private demo_os d_log" "boot_private demo_os d_rest"
  using demo_private by (simp_all add: boot_private_def) (simp_all add: demo_os_def)

lemma demo_env_ok: "env_ok demo_os"
  by (simp add: env_ok_def alloc_ok_def demo_os_def)

lemma demo_start_ok: "start_ok demo_os"
  unfolding start_ok_def using demo_env_ok by (simp add: demo_os_def)

lemma demo_open_ok: "open_ok demo_os d_log never"
  using demo_write_ok by (auto simp: open_ok_def demo_os_def)

text \<open>A program for it: the main thread creates a thread and yields; the new thread asks for the process id.\<close>

definition demo_user :: "nat user" where
  "demo_user x m = (m, if x = 0 then RCreate 7 0 else if x = 1 then RYield else if x = 10 then RCall CGetpid else RReturn, \<lambda>v e. x + 1)"

definition demo_start :: "u64 \<Rightarrow> u64 \<Rightarrow> nat" where
  "demo_start fn arg = 10"

lemma demo_booted:
  obtains s :: "('u ctx, dw) rr" and h where "rr_init demo_os (demo_env ''record'') CDone (rr_load (\<lambda>_. 0) dw0) = Some s" "runtime_ready (cfg s)"
    "booted demo_os d_log never h s"
proof -
  obtain s :: "('u ctx, dw) rr" where s: "rr_init demo_os (demo_env ''record'') CDone (rr_load (\<lambda>_. 0) dw0) = Some s" "runtime_ready (cfg s)"
    "\<exists>h. booted demo_os d_log never h s"
    using boot_record [OF demo_boot_private(1) demo_open_ok, of "demo_env ''record''" CDone "\<lambda>_. 0" dw0] demo_start_ok by auto
  then show ?thesis using that by blast
qed

lemma demo_step1:
  fixes s :: "(nat ctx, dw) rr"
  assumes "sch s = main_sched sp tls tc" "uth s = main_uth tls ac" "runtime_ready (cfg s)"
  shows "\<exists>s1. sys_step demo_os demo_user demo_start (User 0 s) = Some (User 1 s1) \<and> runtime_ready (cfg s1)
    \<and> g_runq_head (sch s1) = Some 2 \<and> g_runq_tail (sch s1) = Some 2 \<and> ctxof (sch s1) 2 = Some (CEntry 2) \<and> g_current (sch s1) = Some 1
    \<and> g_sched_running (sch s1) \<and> ut_heap (sch s1) 1 \<noteq> None"
  using assms
  by (simp add: sys_step_def demo_user_def request_def uthread_create_def rr_uthread_create_def ut_calloc_def kres_def demo_os_def
      main_sched_def main_uth_def sched_init_def Let_def on_sched_def create_rest_def init_tls_copy_def rr_get_fs_base_def register_all_def
      rr_register_guard_page_def rr_scheduler_register_thread_def remember_thread_def grow_push_def rr_scheduler_enqueue_def ctxof_def
      ut_setup_def ut_zero_def)

lemma demo_step2:
  fixes s :: "(nat ctx, dw) rr"
  assumes "runtime_ready (cfg s)" "g_runq_head (sch s) = Some 2" "g_runq_tail (sch s) = Some 2" "ctxof (sch s) 2 = Some (CEntry 2)"
    "g_current (sch s) = Some 1" "g_sched_running (sch s)" "ut_heap (sch s) 1 \<noteq> None"
  shows "\<exists>s1. sys_step demo_os demo_user demo_start (User 1 s) = Some (InSched s1)
    \<and> g_runq_head (sch s1) = Some 2 \<and> ctxof (sch s1) 2 = Some (CEntry 2)"
proof -
  obtain u v where "ut_heap (sch s) 1 = Some u" "ut_heap (sch s) 2 = Some v" "ut_ctx v = Some (CEntry 2)" using assms(4,7) by (auto simp: ctxof_def)
  then show ?thesis using assms
    by (auto simp: sys_step_def demo_user_def request_def uthread_yield_def on_sched_ret_def rr_scheduler_yield_current_def
        rr_scheduler_enqueue_def ctxof_def enter_sched_def Let_def)
qed

lemma demo_calm:
  assumes b: "booted demo_os d_log never h s"
  shows "calm_run demo_os d_log demo_user demo_start 3 (User 0 s)"
proof -
  obtain sp tls tc ac where s: "sch s = main_sched sp tls tc" "uth s = main_uth tls ac" "runtime_ready (cfg s)"
    using b by (auto simp: booted_def rr_active_def cfg_active_def)
  obtain s1 where s1: "sys_step demo_os demo_user demo_start (User 0 s) = Some (User 1 s1)" "runtime_ready (cfg s1)"
    "g_runq_head (sch s1) = Some 2" "g_runq_tail (sch s1) = Some 2" "ctxof (sch s1) 2 = Some (CEntry 2)" "g_current (sch s1) = Some 1"
    "g_sched_running (sch s1)" "ut_heap (sch s1) 1 \<noteq> None"
    using demo_step1 [OF s] by blast
  obtain s2 where s2: "sys_step demo_os demo_user demo_start (User 1 s1) = Some (InSched s2)" "g_runq_head (sch s2) = Some 2"
    "ctxof (sch s2) 2 = Some (CEntry 2)"
    using demo_step2 [OF s1(2-)] by blast
  obtain S3 where S3: "sys_run demo_os demo_user demo_start 3 (User 0 s) = Some S3"
    using sys_run_safe [OF demo_private(1) env_okD(1) [OF demo_env_ok], of 3 0 never "enc_header h" "User 0 s" demo_user demo_start] booted_inv [OF b, of 3 0]
    by auto
  then obtain S3' where "sys_step demo_os demo_user demo_start (InSched s2) = Some S3'"
    using s1(1) s2(1) by (auto simp: eval_nat_numeral)
  then show ?thesis using s1(1) s2 by (simp add: eval_nat_numeral demo_user_def)
qed

end
