(* ===== verification/RR_ReplaySafe.thy ===== *)
theory RR_ReplaySafe
  imports RR_Boot
begin

text \<open>
  Replaying, for an arbitrary program and an arbitrary log. Whatever bytes the log file holds, a truncated, corrupted or
  foreign log included, each function of \<^verbatim>\<open>replay.c\<close> returns, each intercepted function has a defined result, and
  a switch that does not match the log aborts the process. So replaying is a mode in the sense of \<open>run_mode\<close> too, and every
  step of a replayed process is defined and is a run of the abstract scheduler.
\<close>

section \<open>The mode\<close>

definition replay_mode :: "'w os \<Rightarrow> ('w \<Rightarrow> u8 list) \<Rightarrow> ('w \<Rightarrow> nat) \<Rightarrow> ('c, 'w) rr \<Rightarrow> bool" where
  "replay_mode os rest \<mu> s \<longleftrightarrow> rr_replay_active s \<and> \<not> rr_active s \<and> read_ok os (g_replay_fd (rpl s)) rest \<mu>
     \<and> \<not> g_ring_ready (iou s) \<and> alloc_ok os"

text \<open>What the functions of \<^verbatim>\<open>replay.c\<close> and the wrappers in replay mode leave alone.\<close>

definition kept :: "('c, 'w) rr \<Rightarrow> ('c, 'w) rr \<Rightarrow> bool" where
  "kept s s' \<longleftrightarrow> cfg s' = cfg s \<and> sch s' = sch s \<and> uth s' = uth s \<and> iou s' = iou s \<and> g_replay_fd (rpl s') = g_replay_fd (rpl s)"

lemma kept_trans: "kept s t \<Longrightarrow> kept t u \<Longrightarrow> kept s u"
  by (simp add: kept_def)

lemma kept_mode: "kept s s' \<Longrightarrow> replay_mode os rest \<mu> s \<Longrightarrow> replay_mode os rest \<mu> s'"
  by (simp add: kept_def replay_mode_def rr_replay_active_def rr_active_def)

definition returns :: "('c, 'w) rr \<Rightarrow> ('v \<times> ('c, 'w) rr) option \<Rightarrow> bool" where
  "returns s r \<longleftrightarrow> (\<exists>v s'. r = Some (v, s') \<and> kept s s')"

lemma returns_ok:
  assumes "returns s r" and "replay_mode os rest \<mu> s" and "thread_inv N s A"
  shows "ok_ret (replay_mode os rest \<mu>) N A r"
proof -
  obtain v s' where r: "r = Some (v, s')" "kept s s'" using assms(1) by (auto simp: returns_def)
  have "sch s' = sch s" "uth s' = uth s" using r(2) by (simp_all add: kept_def)
  then have "thread_inv N s' A" using thread_inv_cong [of s' s] assms(3) by simp
  then show ?thesis using r kept_mode [OF r(2) assms(2)] by (simp add: ok_ret_def)
qed

section \<open>replay.c on arbitrary bytes\<close>

lemma next_event_total:
  assumes "read_ok os (g_replay_fd (rpl s)) rest \<mu>"
  shows "\<exists>r s'. rr_replay_next_event os s = Some (r, s') \<and> kept s s' \<and> (\<forall>ev. r = Some ev \<longrightarrow> (\<exists>bs. ev = dec_event bs))"
proof (cases "\<not> g_replay_header_ok (rpl s) \<or> g_replay_fd (rpl s) < 0")
  case True
  then show ?thesis by (auto simp: rr_replay_next_event_def kept_def)
next
  case False
  obtain rc bs e w where "rr_read_full os (g_replay_fd (rpl s)) sizeof_event s = Some ((rc, bs), s\<lparr>errno := e, world := w\<rparr>)"
    using read_full_total [OF assms] by blast
  then show ?thesis using False by (auto simp: rr_replay_next_event_def kept_def Let_def)
qed

lemma dec_event_payload:
  "ev_type (dec_event bs) = EV_SCHED \<Longrightarrow> \<exists>p. ev_payload (dec_event bs) = PSched p"
  "ev_type (dec_event bs) = EV_SYSCALL \<Longrightarrow> \<exists>p. ev_payload (dec_event bs) = PSyscall p"
  by (simp_all add: dec_event_def dec_payload_def ev_tags Let_def)

lemma expect_sched_total:
  assumes "read_ok os (g_replay_fd (rpl s)) rest \<mu>"
  shows "returns s (rr_replay_expect_sched os i j s)"
proof -
  obtain r s1 where s1: "rr_replay_next_event os s = Some (r, s1)" "kept s s1" "\<forall>ev. r = Some ev \<longrightarrow> (\<exists>bs. ev = dec_event bs)"
    using next_event_total [OF assms] by blast
  show ?thesis
  proof (cases "\<exists>ev. r = Some ev \<and> ev_type ev = EV_SCHED")
    case True
    then obtain ev p where "r = Some ev" "ev_type ev = EV_SCHED" "ev_payload ev = PSched p" using s1(3) dec_event_payload(1) by blast
    then show ?thesis using s1(1,2) by (simp add: returns_def rr_replay_expect_sched_def kept_def)
  next
    case False
    then show ?thesis using s1(1,2) by (cases r) (simp_all add: returns_def rr_replay_expect_sched_def kept_def)
  qed
qed

lemma next_syscall_total:
  assumes "read_ok os (g_replay_fd (rpl s)) rest \<mu>"
  shows "returns s (rr_replay_next_syscall os nr utid s)"
proof (cases "\<not> g_replay_header_ok (rpl s) \<or> g_replay_fd (rpl s) < 0")
  case True
  then show ?thesis by (auto simp: returns_def rr_replay_next_syscall_def kept_def)
next
  case hdr: False
  obtain r s1 where s1: "rr_replay_next_event os s = Some (r, s1)" "kept s s1" "\<forall>ev. r = Some ev \<longrightarrow> (\<exists>bs. ev = dec_event bs)"
    using next_event_total [OF assms] by blast
  show ?thesis
  proof (cases "\<exists>ev. r = Some ev \<and> ev_type ev = EV_SYSCALL")
    case True
    then obtain ev p where "r = Some ev" "ev_type ev = EV_SYSCALL" "ev_payload ev = PSyscall p" using s1(3) dec_event_payload(2) by blast
    then show ?thesis using s1(1,2) hdr by (simp add: returns_def rr_replay_next_syscall_def kept_def)
  next
    case False
    then show ?thesis using s1(1,2) hdr by (cases r) (simp_all add: returns_def rr_replay_next_syscall_def kept_def)
  qed
qed

section \<open>The wrappers\<close>

text \<open>The calls that fill a buffer get one: in replay mode these wrappers copy without a test for NULL.\<close>

fun buffer_given :: "libc_call \<Rightarrow> bool" where
  "buffer_given (CClockGettime c p) = (p \<noteq> 0)"
| "buffer_given (CGettimeofday tv tz) = (tv \<noteq> 0)"
| "buffer_given (CStat p st) = (st \<noteq> 0)"
| "buffer_given (CFstat fd st) = (st \<noteq> 0)"
| "buffer_given (CLstat p st) = (st \<noteq> 0)"
| "buffer_given _ = True"

lemma get_event_then:
  assumes m: "replay_mode os rest \<mu> s" and i: "current_id s = Some i"
    and f: "\<And>r t. kept s t \<Longrightarrow> returns t (f r t)"
  shows "returns s (do { (r, t) \<leftarrow> replay_get_event os nr s; f r t })"
proof -
  have "read_ok os (g_replay_fd (rpl s)) rest \<mu>" using m by (simp add: replay_mode_def)
  from next_syscall_total [OF this, of nr i] obtain r t where t: "replay_get_event os nr s = Some (r, t)" "kept s t"
    using i by (auto simp: returns_def replay_get_event_def)
  obtain v s' where "f r t = Some (v, s')" "kept t s'" using f [OF t(2), of r] by (auto simp: returns_def)
  then show ?thesis using t kept_trans by (fastforce simp: returns_def)
qed

lemma returns_Some: "returns s (Some (v, s))" "returns s (Some (v, s\<lparr>errno := e\<rparr>))"
  "returns s (Some (raw_to_int raw s))" "returns s (Some (raw_to_ssize raw s))"
  by (auto simp: returns_def kept_def raw_to_int_def raw_to_ssize_def)

lemma returns_copy: "p \<noteq> 0 \<Longrightarrow> (\<And>t. kept s t \<Longrightarrow> returns t (f t)) \<Longrightarrow> returns s (do { t \<leftarrow> copy_to p bs s; f t })"
proof -
  assume p: "p \<noteq> 0" and f: "\<And>t. kept s t \<Longrightarrow> returns t (f t)"
  let ?t = "s\<lparr>umem := write_mem p bs (umem s)\<rparr>"
  have k: "kept s ?t" by (simp add: kept_def)
  obtain v s' where "f ?t = Some (v, s')" "kept ?t s'" using f [OF k] by (auto simp: returns_def)
  then show ?thesis using p kept_trans [OF k] by (auto simp: returns_def copy_to_def memcpy_def)
qed

lemma returns_fill: "p \<noteq> 0 \<Longrightarrow> returns s (fill_struct p sz ev s)"
  unfolding fill_struct_def
  by (cases "0 \<le> sint (re_retval ev)") (auto simp: Let_def returns_Some intro!: returns_copy)

lemma returns_real: "returns s (Some (real_call os call f s))"
  by (auto simp: returns_def real_call_def kept_def split: prod.split sum.split)

lemma replay_scalar_returns: "replay_mode os rest \<mu> s \<Longrightarrow> current_id s = Some i \<Longrightarrow> returns s (replay_scalar os nr s)"
  unfolding replay_scalar_def by (erule get_event_then, assumption) (simp add: returns_Some split: option.split)

lemma replay_into_returns: "replay_mode os rest \<mu> s \<Longrightarrow> current_id s = Some i \<Longrightarrow> returns s (replay_into os nr buf n s)"
  unfolding replay_into_def
  by (erule get_event_then, assumption) (auto simp: returns_Some Let_def intro!: returns_copy split: option.split)

lemma stat_like_returns:
  assumes "replay_mode os rest \<mu> s" and "current_id s = Some i" and "st \<noteq> 0"
  shows "returns s (stat_like os call nr a st s)"
proof -
  have "rr_replay_active s" using assms(1) by (simp add: replay_mode_def)
  then show ?thesis unfolding stat_like_def
    using get_event_then [OF assms(1,2), of "\<lambda>r t. case r of None \<Rightarrow> Some (-1, t) | Some ev \<Rightarrow> fill_struct st sizeof_stat ev t"]
    by (simp add: returns_Some returns_fill [OF assms(3)] split: option.split)
qed

lemma returns_immediate: "returns s r \<Longrightarrow> returns s (immediate r)"
  by (auto simp: returns_def immediate_def)

text \<open>Every intercepted function, in replay mode.\<close>

lemma do_call_returns:
  assumes m: "replay_mode os rest \<mu> s" and i: "current_id s = Some i" and b: "buffer_given call"
  shows "\<exists>v s'. do_call os k call s = Some (Ret v, s') \<and> kept s s'"
proof -
  have act: "\<not> rr_active s" "rr_replay_active s" using m by (simp_all add: replay_mode_def)
  note sc = replay_scalar_returns [OF m i] and into = replay_into_returns [OF m i] and st = stat_like_returns [OF m i]
    and ev = get_event_then [OF m i]
  have time: "returns s (clock_gettime os c p s)" "returns s (gettimeofday os p q s)" if "p \<noteq> 0" for c p q
    using act returns_fill [OF that] returns_real
    by (auto simp: clock_gettime_def gettimeofday_def returns_Some intro!: ev split: option.split)
  have "returns s (getuid os s)" using sc [of NR_getuid] act by (auto simp: getuid_def returns_def)
  moreover have "returns s (uname os p s)" for p
    using act returns_fill [of p] by (auto simp: uname_def returns_Some intro!: ev split: option.split)
  moreover have "returns s (getcwd os p n s)" for p n
    using act by (auto simp: getcwd_def returns_Some Let_def intro!: ev returns_copy split: option.split)
  ultimately have "\<exists>r. do_call os k call s = immediate r \<and> returns s r"
    using b act sc into st time
    by (cases call) (simp_all add: do_call_def read_def write_fn_def recv_def send_def accept_def connect_def openat_def close_def
        nanosleep_def getpid_def stat_def fstat_def lstat_def Let_def, blast+)
  then show ?thesis by (auto simp: returns_def immediate_def)
qed

section \<open>Replaying as a mode\<close>

lemma finish_returns: "\<not> rr_active s \<Longrightarrow> returns s (finish os pt raw s)"
  by (cases pt) (auto simp: finish_def read_finish_def write_finish_def recv_finish_def send_finish_def accept_finish_def
      connect_finish_def openat_finish_def close_finish_def nanosleep_finish_def raw_to_ssize_def raw_to_int_def rr_log_syscall_def
      rr_active_def returns_def kept_def kdo_def copy_to_def memcpy_def Let_def)

text \<open>Exit closes the log; only an abort leaves it open.\<close>

definition replay_over :: "proc_end \<Rightarrow> ('c, 'w) rr \<Rightarrow> bool" where
  "replay_over e s \<longleftrightarrow> e = Aborted \<or> g_replay_fd (rpl s) = -1"

lemma replay_exits:
  assumes "replay_mode os rest \<mu> s" and "thread_inv N s A"
  shows "\<exists>s'. rr_shutdown os CDone s = Some s' \<and> g_replay_fd (rpl s') = -1"
proof -
  obtain ps where ps: "g_threads (sch s) = map Some ps" "distinct ps" "set ps = dom (ut_heap (sch s))"
    using thread_invD(3) [OF assms(2)] by (auto simp: reg_ok_def)
  have m: "runtime_ready (cfg s)" "mode_replay (cfg s)" "\<not> mode_record (cfg s)"
    using assms(1) by (auto simp: replay_mode_def rr_replay_active_def cfg_replay_active_def rr_active_def cfg_active_def)
  define s0 where "s0 = s\<lparr>cfg := (cfg s)\<lparr>runtime_ready := False\<rparr>\<rparr>"
  obtain s1 where s1: "free_all os (map Some ps) s0 = Some s1" "cfg s1 = cfg s0"
    using free_all_defined [OF ps(2), of s0 os] ps(3) by (auto simp: s0_def)
  define s2 where "s2 = rr_scheduler_shutdown os (s1\<lparr>uth := (uth s1)\<lparr>g_allocated := [], g_allocated_cap := 0\<rparr>\<rparr>)"
  have "cfg s2 = cfg s0" using s1 by (simp add: s2_def rr_scheduler_shutdown_def kdo_def Let_def)
  then have "rr_shutdown os CDone s = Some (rr_replay_shutdown os s2)"
    using s1(1) m thread_invD(5) [OF assms(2)] ps(1)
    by (simp add: rr_shutdown_def rr_uthread_shutdown_def s0_def s2_def modes_down_def)
  then show ?thesis by (simp add: rr_replay_shutdown_def Let_def)
qed

interpretation rplm: run_mode "os :: 'w os" "replay_mode os rest \<mu> :: ('u ctx, 'w) rr \<Rightarrow> bool" replay_over buffer_given
proof
  fix s s' :: "('u ctx, 'w) rr" and N A
  assume m: "replay_mode os rest \<mu> s"
  then have act: "\<not> rr_active s" "rr_replay_active s" and rd: "read_ok os (g_replay_fd (rpl s)) rest \<mu>" and nr: "\<not> g_ring_ready (iou s)"
    by (simp_all add: replay_mode_def)
  show "runtime_ready (cfg s)" using act(2) by (simp add: rr_replay_active_def cfg_replay_active_def)
  show "alloc_ok os" using m by (simp add: replay_mode_def)
  show "replay_mode os rest \<mu> s'" if "cfg s' = cfg s" "rpl s' = rpl s" "iou s' = iou s"
    using m that by (simp add: replay_mode_def rr_replay_active_def rr_active_def)
  show "\<exists>ok s'. note_switch os i j s = Some (ok, s')
    \<and> (if ok then replay_mode os rest \<mu> s' \<and> sch s' = sch s \<and> uth s' = uth s else replay_over Aborted s')" for i j
  proof (cases "i = j")
    case True
    then show ?thesis using m by (intro exI [of _ True] exI [of _ s]) (simp add: note_switch_def)
  next
    case False
    obtain rc t where t: "rr_replay_expect_sched os i j s = Some (rc, t)" "kept s t"
      using expect_sched_total [OF rd, of i j] by (auto simp: returns_def)
    then show ?thesis using False act kept_mode [OF t(2) m] by (auto simp: note_switch_def replay_over_def kept_def)
  qed
  assume ti: "thread_inv N s A"
  obtain i where i: "current_id s = Some i" using current_id_defined [OF thread_invD(1,2) [OF ti]] by blast
  show "ok_ret (replay_mode os rest \<mu>) N A (finish os pt raw s)" for pt raw
    using returns_ok [OF finish_returns [OF act(1)] m ti] .
  show "\<exists>s'. rr_shutdown os CDone s = Some s' \<and> replay_over (Exited code) s'" for code
    using replay_exits [OF m ti] by (auto simp: replay_over_def)
  show "ok_out (replay_mode os rest \<mu>) N A c (do_call os k call s)" if b: "buffer_given call" for c k call
  proof -
    obtain v t where t: "do_call os k call s = Some (Ret v, t)" "kept s t" using do_call_returns [OF m i b] by blast
    then have "thread_inv N t A" using thread_inv_cong [of t s] ti by (simp add: kept_def)
    then show ?thesis using t kept_mode [OF t(2) m] by (simp add: ok_out_def)
  qed
  show "\<exists>rc e s'. rr_io_wait os s = Some ((rc, e), s') \<and> (case e of
      None \<Rightarrow> replay_mode os rest \<mu> s' \<and> (\<exists>B. undispatched A B \<and> thread_inv N s' B \<and> aidle B) | Some e \<Rightarrow> replay_over e s')"
    if "aidle A"
  proof -
    have "kept s (s\<lparr>errno := EINVAL\<rparr>)" by (simp add: kept_def)
    moreover have "thread_inv N (s\<lparr>errno := EINVAL\<rparr>) A" using thread_inv_cong [of "s\<lparr>errno := EINVAL\<rparr>" s] ti by simp
    ultimately show ?thesis using that nr kept_mode [OF _ m] undispatched_refl [of A] by (auto simp: rr_io_wait_def)
  qed
qed

section \<open>Starting with any log\<close>

text \<open>A file that can be opened can be read, interrupted finitely often; nothing is said about what it holds.\<close>

definition readable :: "'w os \<Rightarrow> ('w \<Rightarrow> u8 list) \<Rightarrow> ('w \<Rightarrow> nat) \<Rightarrow> bool" where
  "readable os rest \<mu> \<longleftrightarrow> (\<forall>path w fd w'. os_open_ro os path w = (Inr fd, w') \<longrightarrow> 0 \<le> fd \<longrightarrow> read_ok os fd rest \<mu>)"

lemma replay_init_any:
  assumes "readable os rest \<mu>"
  shows "\<exists>rc s'. rr_replay_init os path s = Some (rc, s') \<and> cfg s' = cfg s \<and> sch s' = sch s \<and> uth s' = uth s \<and> iou s' = iou s
    \<and> (rc = 0 \<longrightarrow> read_ok os (g_replay_fd (rpl s')) rest \<mu>)"
proof -
  obtain rc s1 where s1: "rr_replay_resolve_real_io os s = (rc, s1)" by (cases "rr_replay_resolve_real_io os s")
  then have fr: "cfg s1 = cfg s" "sch s1 = sch s" "uth s1 = uth s" "iou s1 = iou s" by (auto simp: rr_replay_resolve_real_io_def Let_def)
  obtain r w where op: "os_open_ro os path (world s1) = (r, w)" by (cases "os_open_ro os path (world s1)")
  show ?thesis
  proof (cases "rc = 0 \<and> (\<exists>fd. r = Inr fd \<and> 0 \<le> fd)")
    case False
    then show ?thesis using s1 op fr by (cases r) (auto simp: rr_replay_init_def)
  next
    case True
    then obtain fd where fd: "rc = 0" "r = Inr fd" "0 \<le> fd" by blast
    define s2 where "s2 = s1\<lparr>world := w, rpl := (rpl s1)\<lparr>g_replay_fd := fd\<rparr>\<rparr>"
    have ok: "read_ok os fd rest \<mu>" using assms op fd(2,3) by (auto simp: readable_def)
    obtain rc2 bs e w2 where rd: "rr_read_full os fd sizeof_header s2 = Some ((rc2, bs), s2\<lparr>errno := e, world := w2\<rparr>)"
      using read_full_total [OF ok] by blast
    have "rr_replay_init os path s = do {
         ((rc, bs), s) \<leftarrow> rr_read_full os fd sizeof_header s2;
         if rc \<noteq> 0 then Some (-1, (kdo (os_close os fd) s)\<lparr>rpl := (rpl s)\<lparr>g_replay_fd := -1\<rparr>\<rparr>)
         else (let header = dec_header bs in
           if hd_magic header \<noteq> RR_LOG_MAGIC \<or> hd_version header \<noteq> RR_LOG_VERSION then
             Some (-1, (kdo (os_close os fd) s)\<lparr>rpl := (rpl s)\<lparr>g_replay_fd := -1\<rparr>, errno := EINVAL\<rparr>)
           else Some (0, s\<lparr>rpl := (rpl s)\<lparr>g_expected_seq := 1, g_replay_header_ok := True\<rparr>\<rparr>)) }"
      using s1 op fd by (simp add: rr_replay_init_def s2_def)
    then show ?thesis using rd ok fr by (auto simp: s2_def kdo_def Let_def)
  qed
qed

text \<open>The state in which the program starts: the runtime is off, or it replays with the main thread alone.\<close>

definition started :: "'w os \<Rightarrow> ('w \<Rightarrow> u8 list) \<Rightarrow> ('w \<Rightarrow> nat) \<Rightarrow> ('c, 'w) rr \<Rightarrow> bool" where
  "started os rest \<mu> s \<longleftrightarrow> \<not> runtime_ready (cfg s)
     \<or> replay_mode os rest \<mu> s \<and> (\<exists>sp tls tc ac. sch s = main_sched sp tls tc \<and> uth s = main_uth tls ac)"

lemma modes_down_replay: "\<not> mode_record (cfg s) \<Longrightarrow> \<exists>s'. modes_down os ctx s = Some s' \<and> cfg s' = cfg s"
  by (simp add: modes_down_def rr_replay_shutdown_def kdo_def Let_def)

text \<open>The last part of the constructor, from the state \<open>s2\<close> in which the main thread exists.\<close>

lemma init_first_switch:
  assumes main: "sch s2 = main_sched sp tls tc" "uth s2 = main_uth tls ac"
    and m: "mode_replay (cfg s2)" "\<not> mode_record (cfg s2)" "\<not> runtime_ready (cfg s2)"
    and rd: "read_ok os (g_replay_fd (rpl s2)) rest \<mu>" and nr: "\<not> g_ring_ready (iou s2)" and al: "alloc_ok os"
  shows "\<exists>rc s4. rr_replay_expect_sched os 0 1 (s2\<lparr>rcd := (rcd s2)\<lparr>g_rr_seq := 0\<rparr>\<rparr>) = Some (rc, s4)
    \<and> (if rc = 0 then \<forall>msg. started os rest \<mu> (rr_debugf os msg (rr_mark_runtime_ready s4))
       else \<exists>s5. rr_uthread_shutdown os s4 = Some s5 \<and> started os rest \<mu> (rr_replay_shutdown os (rr_scheduler_shutdown os s5)))"
proof -
  let ?s3 = "s2\<lparr>rcd := (rcd s2)\<lparr>g_rr_seq := 0\<rparr>\<rparr>"
  obtain rc s4 where s4: "rr_replay_expect_sched os 0 1 ?s3 = Some (rc, s4)" "kept ?s3 s4"
    using expect_sched_total [of os ?s3 rest \<mu> 0 1] rd by (auto simp: returns_def)
  then have fr: "cfg s4 = cfg s2" "sch s4 = sch s2" "uth s4 = uth s2" "iou s4 = iou s2" "g_replay_fd (rpl s4) = g_replay_fd (rpl s2)"
    by (simp_all add: kept_def)
  let ?r = "\<lambda>msg. rr_debugf os msg (rr_mark_runtime_ready s4)"
  have "replay_mode os rest \<mu> (?r msg)" for msg using fr m rd nr al
    by (simp add: replay_mode_def rr_mark_runtime_ready_def rr_replay_active_def rr_active_def cfg_replay_active_def cfg_active_def)
  moreover have "sch (?r msg) = main_sched sp tls tc" "uth (?r msg) = main_uth tls ac" for msg using fr main by (simp_all add: rr_mark_runtime_ready_def)
  ultimately have up: "started os rest \<mu> (?r msg)" for msg unfolding started_def by blast
  have "distinct [1 :: nat]" "set [1] \<subseteq> dom (ut_heap (sch s4))" by (simp_all add: fr(2) main(1) main_sched_def)
  then obtain s5 where s5: "free_all os (map Some [1]) s4 = Some s5" "cfg s5 = cfg s4" using free_all_defined [of "[1]" s4 os] by metis
  have "g_allocated (uth s4) = map Some [1]" by (simp add: fr(3) main(2) main_uth_def)
  then have "rr_uthread_shutdown os s4 = Some (s5\<lparr>uth := (uth s5)\<lparr>g_allocated := [], g_allocated_cap := 0\<rparr>\<rparr>)"
    using s5(1) by (simp only: rr_uthread_shutdown_def bind.simps)
  then have "\<exists>s5. rr_uthread_shutdown os s4 = Some s5 \<and> cfg s5 = cfg s2" using s5(2) fr(1) by auto
  then have "\<exists>s5. rr_uthread_shutdown os s4 = Some s5 \<and> started os rest \<mu> (rr_replay_shutdown os (rr_scheduler_shutdown os s5))"
    using m(3) by (auto simp: started_def rr_replay_shutdown_def rr_scheduler_shutdown_def kdo_def Let_def)
  then show ?thesis using s4(1) up by auto
qed

lemma init_runtime_any:
  assumes f: "fresh s" and m: "mode_replay (cfg s)" "\<not> mode_record (cfg s)" "\<not> runtime_ready (cfg s)"
    and rd: "read_ok os (g_replay_fd (rpl s)) rest \<mu>" and nr: "\<not> g_ring_ready (iou s)" and al: "alloc_ok os"
  shows "\<exists>s'. init_runtime os ctx s = Some s' \<and> started os rest \<mu> s'"
proof -
  obtain rc s1 where s1: "rr_scheduler_init os s = (rc, s1)" "same_log os s s1"
    "rc = 0 \<longrightarrow> uth s1 = uth s \<and> (\<exists>sp. sch s1 = sched_init\<lparr>g_sched_stack := sp, g_sched_running := True\<rparr>)"
    using scheduler_init_cases [OF f, of os] by auto
  have c1: "cfg s1 = cfg s" using s1(2) by (simp add: same_log_def)
  show ?thesis
  proof (cases "rc = 0")
    case False
    then show ?thesis using s1(1) m c1 modes_down_replay [of s1 os ctx] by (auto simp: init_runtime_def started_def)
  next
    case True
    then obtain sp where sp: "sch s1 = sched_init\<lparr>g_sched_stack := sp, g_sched_running := True\<rparr>" "uth s1 = uth s" using s1(3) by auto
    obtain rc2 s2 where s2: "rr_uthread_init_main os s1 = Some (rc2, s2)" "main_ready os sp s1 rc2 s2"
      using main_init_cases [OF sp(1), of os] sp(2) f by (auto simp: fresh_def)
    have "same_log os s s2" using s1(2) s2(2) by (auto simp: main_ready_def intro: same_log_trans)
    then have c2: "cfg s2 = cfg s" "rpl s2 = rpl s" "iou s2 = iou s" by (simp_all add: same_log_def)
    show ?thesis
    proof (cases "rc2 = 0")
      case False
      have "cfg (rr_scheduler_shutdown os s2) = cfg s" using c2(1) by (simp add: rr_scheduler_shutdown_def kdo_def Let_def)
      then show ?thesis using s1(1) s2(1) True False m modes_down_replay [of "rr_scheduler_shutdown os s2" os ctx]
        by (auto simp: init_runtime_def started_def)
    next
      case ok2: True
      then obtain tls tc ac where main: "sch s2 = main_sched sp tls tc" "uth s2 = main_uth tls ac" using s2(2) by (auto simp: main_ready_def)
      obtain rc4 s4 where s4: "rr_replay_expect_sched os 0 1 (s2\<lparr>rcd := (rcd s2)\<lparr>g_rr_seq := 0\<rparr>\<rparr>) = Some (rc4, s4)"
        "if rc4 = 0 then \<forall>msg. started os rest \<mu> (rr_debugf os msg (rr_mark_runtime_ready s4))
         else \<exists>s5. rr_uthread_shutdown os s4 = Some s5 \<and> started os rest \<mu> (rr_replay_shutdown os (rr_scheduler_shutdown os s5))"
        using init_first_switch [OF main, of os rest \<mu>] m rd nr al c2 by auto
      then show ?thesis using s1(1) s2(1) True ok2 m c2(1) by (auto simp: init_runtime_def Let_def split: if_splits)
    qed
  qed
qed

lemma boot_replay_any:
  fixes os :: "'w os" and ctx :: "'u ctx"
  assumes "readable os rest \<mu>" and "alloc_ok os" and "mode_replay (rr_parse_env env g_rr_config_init)"
  shows "\<exists>t. rr_init os env ctx (rr_load mem0 w) = Some t \<and> started os rest \<mu> t"
proof -
  define s0 :: "('u ctx, 'w) rr" where "s0 = (rr_load mem0 w)\<lparr>cfg := rr_parse_env env g_rr_config_init, errno := parse_errno env 0\<rparr>"
  have c0: "mode_replay (cfg s0)" "\<not> mode_record (cfg s0)" "\<not> runtime_ready (cfg s0)" "fresh s0" "\<not> g_ring_ready (iou s0)"
    using assms(3) by (auto simp: s0_def rr_load_def fresh_def rr_parse_env_def g_rr_config_init_def)
  obtain rc s1 where s1: "rr_replay_init os (log_path (cfg s0)) s0 = Some (rc, s1)" "cfg s1 = cfg s0" "sch s1 = sch s0" "uth s1 = uth s0"
    "iou s1 = iou s0" "rc = 0 \<longrightarrow> read_ok os (g_replay_fd (rpl s1)) rest \<mu>"
    using replay_init_any [OF assms(1), of "log_path (cfg s0)" s0] by auto
  have eq: "rr_init os env ctx (rr_load mem0 w) = (if rc \<noteq> 0 then Some s1 else init_runtime os ctx s1)"
    using c0(1,2) s1(1,2) by (simp add: rr_init_def rr_load_def s0_def)
  show ?thesis
  proof (cases "rc = 0")
    case True
    then show ?thesis using eq init_runtime_any [of s1 os rest \<mu> ctx] c0 s1 assms(2) by (simp add: fresh_def)
  next
    case False
    then show ?thesis using eq c0(3) s1(2) by (simp add: started_def)
  qed
qed

section \<open>A small instance\<close>

lemma demo_readable: "readable demo_os d_rest never"
  using demo_read_ok by (auto simp: readable_def)

definition demo_header :: rr_log_header_t where
  "demo_header = \<lparr> hd_magic = RR_LOG_MAGIC, hd_version = RR_LOG_VERSION, hd_start_time = 0, hd_pid = 0, hd_reserved = 0 \<rparr>"

end
