(* ===== verification/RR_Threads.thy ===== *)
theory RR_Threads
  imports RR_Safety
begin

text \<open>
  Properties of the dispatcher, of completions and signals, and of the thread functions, on every
  branch: what is dispatched and logged, when a replayed run is aborted, when the loop cannot
  return, whom a completion wakes, what joining and creating return, and which uthread a fault
  address belongs to.
\<close>

section \<open>States for the examples\<close>

text \<open>Thread 1 is current, thread 2 is in the queue, thread 3 is blocked; recording, or replaying \<open>evs\<close>.\<close>

definition sample_rec :: "(nat, dw) rr" where
  "sample_rec = demo_rec\<lparr>sch := sample_sched\<rparr>"

definition sample_rpl :: "rr_event_t list \<Rightarrow> (nat, dw) rr" where
  "sample_rpl evs = (demo_rpl evs)\<lparr>sch := sample_sched\<rparr>"

lemma sample_ids: "ids sample_sched = [1 \<mapsto> 1, 2 \<mapsto> 2, 3 \<mapsto> 3]" "g_sched_running sample_sched" "aq (sched_abs sample_sched [2]) = [2]"
  by (auto simp: ids_def sample_defs sched_abs_def)

lemma sample_reg: "reg_ok sample_sched"
  unfolding reg_ok_def sample_ids by (auto simp: sample_defs intro!: exI [of _ "[1, 2, 3]"] split: if_splits)

lemma sample_state_simps [simp]:
  "sch sample_rec = sample_sched" "sch (sample_rpl evs) = sample_sched" "mode_record (cfg sample_rec)" "rr_active sample_rec"
  "\<not> rr_replay_active sample_rec" "rr_replay_active (sample_rpl evs)" "\<not> rr_active (sample_rpl evs)"
  "current_id sample_rec = Some 1" "current_id (sample_rpl evs) = Some 1" "world sample_rec = dw0" "umem sample_rec = (\<lambda>_. 0)"
  "runtime_ready (cfg sample_rec)"
  by (simp_all add: sample_rec_def sample_rpl_def rr_active_def rr_replay_active_def cfg_active_def cfg_replay_active_def
      current_id_def rr_scheduler_current_def sample_defs demo_defs)

lemma sample_rec_log: "rec_inv demo_os d_log (\<lambda>_. 0) sample_rec" "event_log d_log sample_rec [] []"
proof -
  have "rec_inv demo_os d_log (\<lambda>_. 0) (demo_rec :: (nat, dw) rr)" "event_log d_log (demo_rec :: (nat, dw) rr) [] []"
    by (rule demo_rec_inv, rule demo_event_log)
  then show "rec_inv demo_os d_log (\<lambda>_. 0) sample_rec" "event_log d_log sample_rec [] []"
    by (simp_all add: sample_rec_def rec_inv_def event_log_def contents_def)
qed

lemma sample_rpl_log: "\<forall>ev \<in> set evs. wf_event ev \<Longrightarrow> seq_from 1 evs \<Longrightarrow> replay_log demo_os d_rest (\<lambda>_. 0) (sample_rpl evs) evs"
  using demo_read_ok by (simp add: sample_rpl_def replay_log_def demo_defs)

section \<open>The dispatcher\<close>

lemma loop_returns: "scheduler_iter os s = Some (it, s') \<Longrightarrow> it \<noteq> Continue \<Longrightarrow> sched_loop os s = Some (it, s')"
  by (subst sched_loop.simps) (cases it; simp)

text \<open>A pass over a non-empty queue is decided by what noting the switch says.\<close>

lemma iter_dispatch:
  assumes r: "refines (sch s) A" "ainv A" "g_sched_running (sch s)" "aq A = c # xs" "ids (sch s) c = Some j" "current_id s = Some i"
  obtains x where "\<And>s1. note_switch os i j (s\<lparr>sch := x\<rparr>) = Some (True, s1) \<Longrightarrow> sch s1 = x \<Longrightarrow>
      \<exists>y b. sched_loop os s = Some (Dispatch (Some c), snd (rr_set_fs_base os b (s1\<lparr>sch := y\<rparr>))) \<and> refines y (spec_dispatch c A)"
    "\<And>s1. note_switch os i j (s\<lparr>sch := x\<rparr>) = Some (False, s1) \<Longrightarrow> sched_loop os s = Some (End Aborted, s1)"
proof -
  obtain x u i' where x: "refines x (A\<lparr>aq := xs\<rparr>)" "ut_heap x c = Some u" "ids (sch s) c = Some (ut_id u)" "current_id s = Some i'"
    and eq: "scheduler_iter os s = do {
       (ok, s) \<leftarrow> note_switch os i' (ut_id u) (s\<lparr>sch := x\<rparr>);
       if \<not> ok then Some (End Aborted, s)
       else do {
         s \<leftarrow> on_sched (make_current (Some c)) s;
         u \<leftarrow> deref (sch s) (Some c);
         Some (Dispatch (Some c), snd (rr_set_fs_base os (ut_tls_block u) s))
       }
     }"
    by (rule iter_pop [OF r(3,1,2,4)]) blast
  have j: "ut_id u = j" "i' = i" using x(3,4) r(5,6) by simp_all
  have go: "\<exists>y b. sched_loop os s = Some (Dispatch (Some c), snd (rr_set_fs_base os b (s1\<lparr>sch := y\<rparr>))) \<and> refines y (spec_dispatch c A)"
    if ns: "note_switch os i j (s\<lparr>sch := x\<rparr>) = Some (True, s1)" and sx: "sch s1 = x" for s1
  proof -
    have pre: "refines (sch s1) (A\<lparr>aq := xs\<rparr>)" "c \<in> dom (ut_heap (sch s1))" using x(1,2) sx by auto
    obtain y b where y: "refines y (spec_dispatch c A)" "do {
         s \<leftarrow> on_sched (make_current (Some c)) s1;
         u \<leftarrow> deref (sch s) (Some c);
         Some (Dispatch (Some c), snd (rr_set_fs_base os (ut_tls_block u) s))
       } = Some (Dispatch (Some c), snd (rr_set_fs_base os b (s1\<lparr>sch := y\<rparr>)))"
      by (rule iter_switch [OF pre(1) r(4) pre(2), where os = os]) blast
    then have "scheduler_iter os s = Some (Dispatch (Some c), snd (rr_set_fs_base os b (s1\<lparr>sch := y\<rparr>)))"
      using eq ns j by simp
    from loop_returns [OF this] y(1) show ?thesis by blast
  qed
  have "sched_loop os s = Some (End Aborted, s1)" if "note_switch os i j (s\<lparr>sch := x\<rparr>) = Some (False, s1)" for s1
    using loop_returns [of os s "End Aborted" s1] eq that j by simp
  with go that show ?thesis by blast
qed

text \<open>C10. With a thread in the queue the dispatcher loop returns when recording: it dispatches the first thread, removes it
  from the queue and makes it current, and logs exactly one scheduling event if and only if the dispatched thread has another id
  than the one that ran before.\<close>

theorem dispatch_recorded:
  assumes r: "refines (sch s) A" "ainv A" "g_sched_running (sch s)" "aq A = c # xs" "ids (sch s) c = Some j" "current_id s = Some i"
    and m: "mode_record (cfg s)" "\<not> rr_replay_active s" "rec_inv os fl \<mu> s" "event_log fl s hdr evs" and lp: "log_private os fl"
  shows "\<exists>s'. sched_loop os s = Some (Dispatch (Some c), s') \<and> refines (sch s') (spec_dispatch c A)
    \<and> event_log fl s' hdr (evs @ (if i \<noteq> j then [sched_event (of_nat (Suc (length evs))) i j] else []))"
proof -
  obtain x where x: "\<And>s1. note_switch os i j (s\<lparr>sch := x\<rparr>) = Some (True, s1) \<Longrightarrow> sch s1 = x \<Longrightarrow>
      \<exists>y b. sched_loop os s = Some (Dispatch (Some c), snd (rr_set_fs_base os b (s1\<lparr>sch := y\<rparr>))) \<and> refines y (spec_dispatch c A)"
    by (rule iter_dispatch [OF r]) blast
  have m': "mode_record (cfg (s\<lparr>sch := x\<rparr>))" "\<not> rr_replay_active (s\<lparr>sch := x\<rparr>)" "rec_inv os fl \<mu> (s\<lparr>sch := x\<rparr>)" "event_log fl (s\<lparr>sch := x\<rparr>) hdr evs"
    using m by (simp_all add: rr_replay_active_def rec_inv_def event_log_def contents_def)
  obtain s1 where s1: "note_switch os i j (s\<lparr>sch := x\<rparr>) = Some (True, s1)" "event_log fl s1 hdr (evs @ switch_events (length evs) i j)"
    "s1 = s\<lparr>sch := x\<rparr> \<or> log_frame (snd (rr_next_seq (s\<lparr>sch := x\<rparr>))) s1"
    using note_switch_record [OF m'] by blast
  have "sch s1 = x" using s1(3) log_frame_sch [of "s\<lparr>sch := x\<rparr>" s1] by auto
  from x [OF s1(1) this] obtain y b where y: "sched_loop os s = Some (Dispatch (Some c), snd (rr_set_fs_base os b (s1\<lparr>sch := y\<rparr>)))"
    "refines y (spec_dispatch c A)" by blast
  let ?s2 = "snd (rr_set_fs_base os b (s1\<lparr>sch := y\<rparr>))"
  have "quiet os (world s1) (world ?s2)"
    by (cases rule: kres_cases [of "os_set_fs os b" "s1\<lparr>sch := y\<rparr>"]) (auto simp: rr_set_fs_base_def dest: quiet_calls)
  then have "event_log fl ?s2 hdr (evs @ switch_events (length evs) i j)"
    using s1(2) quietD [OF _ lp] by (simp add: event_log_def contents_def)
  then show ?thesis using y by (auto simp: switch_events_def)
qed

lemma demo_log_private: "log_private demo_os d_log"
proof -
  have "d_log (snd (snd (demo_real c m w))) = d_log w" for c m w by (cases c) simp_all
  then show ?thesis by (simp add: log_private_def demo_os_def split: list.split)
qed

theorem dispatch_recorded_witness:
  "\<exists>s'. sched_loop demo_os sample_rec = Some (Dispatch (Some 2), s') \<and> refines (sch s') (spec_dispatch 2 (sched_abs sample_sched [2]))
    \<and> event_log d_log s' [] [sched_event 1 1 2]"
  using dispatch_recorded [of sample_rec "sched_abs sample_sched [2]" 2 "[]" 2 1 demo_os d_log "\<lambda>_. 0" "[]" "[]"]
    sample_refines sample_ainv sample_ids sample_rec_log demo_log_private by simp

text \<open>C11. With a thread in the queue the dispatcher loop also returns when replaying: if the thread that ran last is to run
  again, or the next event of the log is exactly this switch, the first thread of the queue is dispatched; otherwise, also at the end of the
  log, the process is aborted.\<close>

theorem dispatch_checked:
  assumes r: "refines (sch s) A" "ainv A" "g_sched_running (sch s)" "aq A = c # xs" "ids (sch s) c = Some j" "current_id s = Some i"
    and m: "rr_replay_active s" "replay_log os rest \<mu> s evs"
  shows "\<exists>it s'. sched_loop os s = Some (it, s')
    \<and> it = (if i = j \<or> (\<exists>ev es. evs = ev # es \<and> matches_sched i j ev) then Dispatch (Some c) else End Aborted)"
proof -
  obtain x where x: "\<And>s1. note_switch os i j (s\<lparr>sch := x\<rparr>) = Some (True, s1) \<Longrightarrow> sch s1 = x \<Longrightarrow>
      \<exists>y b. sched_loop os s = Some (Dispatch (Some c), snd (rr_set_fs_base os b (s1\<lparr>sch := y\<rparr>))) \<and> refines y (spec_dispatch c A)"
    "\<And>s1. note_switch os i j (s\<lparr>sch := x\<rparr>) = Some (False, s1) \<Longrightarrow> sched_loop os s = Some (End Aborted, s1)"
    by (rule iter_dispatch [OF r]) blast
  have m': "rr_replay_active (s\<lparr>sch := x\<rparr>)" "replay_log os rest \<mu> (s\<lparr>sch := x\<rparr>) evs"
    using m by (simp_all add: rr_replay_active_def replay_log_def)
  show ?thesis
  proof (cases "i = j")
    case True
    then show ?thesis using x(1) [of "s\<lparr>sch := x\<rparr>"] by auto
  next
    case ne: False
    show ?thesis
    proof (cases "\<exists>ev es. evs = ev # es \<and> matches_sched i j ev")
      case True
      then obtain ev es where ev: "evs = ev # es" "matches_sched i j ev" by blast
      obtain s1 where "note_switch os i j (s\<lparr>sch := x\<rparr>) = Some (True, s1)" "replay_frame (s\<lparr>sch := x\<rparr>) s1"
        using note_switch_replay_ok [OF m'(1) ne m'(2) [unfolded ev(1)] ev(2)] by blast
      then show ?thesis using x(1) [of s1] replay_frameD(2) [of "s\<lparr>sch := x\<rparr>" s1] True by auto
    next
      case False
      have "\<exists>s1. note_switch os i j (s\<lparr>sch := x\<rparr>) = Some (False, s1)"
        using note_switch_replay_end [OF m'(1) ne, of os rest \<mu>] note_switch_replay_mismatch [OF m'(1) ne, of os rest \<mu>] m'(2) False
        by (cases evs) auto
      then show ?thesis using x(2) ne False by auto
    qed
  qed
qed

theorem dispatch_checked_witness:
  "(\<exists>s'. sched_loop demo_os (sample_rpl [sched_event 1 1 2]) = Some (Dispatch (Some 2), s'))
    \<and> (\<exists>s'. sched_loop demo_os (sample_rpl [sched_event 1 1 3]) = Some (End Aborted, s'))"
proof -
  have log: "replay_log demo_os d_rest (\<lambda>_. 0) (sample_rpl [sched_event 1 1 k]) [sched_event 1 1 k]" for k by (rule sample_rpl_log) simp_all
  note d = dispatch_checked [of "sample_rpl [sched_event 1 1 k]" "sched_abs sample_sched [2]" 2 "[]" 2 1 demo_os d_rest "\<lambda>_. 0" "[sched_event 1 1 k]" for k]
  show ?thesis using d [of 2] d [of 3] log sample_refines sample_ainv sample_ids by (simp add: matches_sched_def sched_event_def)
qed





section \<open>Completions and signals\<close>

lemma io_wait_wake:
  assumes r: "reg_ok (sch s)" "refines (sch s) A" "ainv A" and a: "ids (sch s) a = Some i" "ast A a = Some UT_BLOCKED"
    and c: "g_ring_ready (iou s)" "os_wait_cqe os (world s) = ((rc, Some cqe), w)" "0 \<le> sint rc" "cq_user_data cqe = i" "i \<noteq> RR_SIGNAL_SENTINEL"
  obtains x where "rr_io_wait os s = Some ((0, None), s\<lparr>world := os_cqe_seen os w, umem := apply_stores (cq_stores cqe) (umem s), sch := x\<rparr>)"
    "rr_scheduler_wake_by_id i (cq_res cqe) None 0 (sch s) = Some x" "refines x (spec_wake a A)"
    "map_option ut_io_result (ut_heap x a) = Some (cq_res cqe)"
proof -
  obtain x where x: "rr_scheduler_wake_by_id i (cq_res cqe) None 0 (sch s) = Some x" "refines x (spec_wake a A)"
    "map_option ut_io_result (ut_heap x a) = Some (cq_res cqe)"
    using wake_refines [OF r a(1), of "cq_res cqe"] a(2) by blast
  then show ?thesis using that c by (simp add: rr_io_wait_def kcall_def kdo_def on_sched_def Let_def)
qed

text \<open>C13. A completion wakes exactly the thread that submitted the operation: \<^verbatim>\<open>rr_io_wait\<close> finds the
  blocked thread by the id in the user data, stores the result where the suspended wrapper reads it, makes the thread runnable at the end of
  the queue, and marks the completion as seen.\<close>

theorem completion_wakes:
  assumes r: "reg_ok (sch s)" "refines (sch s) A" "ainv A" and a: "ids (sch s) a = Some i" "ast A a = Some UT_BLOCKED"
    and c: "g_ring_ready (iou s)" "os_wait_cqe os (world s) = ((rc, Some cqe), w)" "0 \<le> sint rc" "cq_user_data cqe = i" "i \<noteq> RR_SIGNAL_SENTINEL"
  shows "\<exists>s'. rr_io_wait os s = Some ((0, None), s') \<and> refines (sch s') (A\<lparr>ast := (ast A)(a \<mapsto> UT_RUNNABLE), aq := aq A @ [a]\<rparr>)
    \<and> io_resume (Some a) s' = Some (cq_res cqe) \<and> umem s' = apply_stores (cq_stores cqe) (umem s) \<and> world s' = os_cqe_seen os w"
proof -
  obtain x where "rr_io_wait os s = Some ((0, None), s\<lparr>world := os_cqe_seen os w, umem := apply_stores (cq_stores cqe) (umem s), sch := x\<rparr>)"
    "refines x (spec_wake a A)" "map_option ut_io_result (ut_heap x a) = Some (cq_res cqe)"
    by (rule io_wait_wake [OF assms])
  then show ?thesis using a(2) by (simp add: io_resume_def spec_wake_def)
qed

definition done_io :: cqe where
  "done_io = \<lparr> cq_user_data = 3, cq_res = 5, cq_stores = [(4096, [1, 2])] \<rparr>"

definition sample_io :: "cqe \<Rightarrow> (nat, dw) rr" where
  "sample_io c = sample_rec\<lparr>iou := \<lparr> g_ring_ready = True, g_signal_fd = 5 \<rparr>, world := dw0\<lparr>d_cqes := [c]\<rparr>\<rparr>"

lemma sample_io_simps [simp]:
  "sch (sample_io c) = sample_sched" "g_ring_ready (iou (sample_io c))" "umem (sample_io c) = (\<lambda>_. 0)" "current_id (sample_io c) = Some 1"
  "os_wait_cqe demo_os (world (sample_io c)) = ((0, Some c), world (sample_io c))" "rr_active (sample_io c)" "\<not> rr_replay_active (sample_io c)"
  by (simp_all add: sample_io_def sample_rec_def demo_os_def rr_active_def rr_replay_active_def cfg_active_def cfg_replay_active_def
      current_id_def rr_scheduler_current_def sample_defs demo_defs)

theorem completion_wakes_witness:
  "\<exists>s'. rr_io_wait demo_os (sample_io done_io) = Some ((0, None), s') \<and> io_resume (Some 3) s' = Some 5 \<and> umem s' 4097 = 2"
proof -
  have a: "reg_ok (sch (sample_io done_io))" "refines (sch (sample_io done_io)) (sched_abs sample_sched [2])" "ids (sch (sample_io done_io)) 3 = Some 3"
    "ast (sched_abs sample_sched [2]) 3 = Some UT_BLOCKED" "(0 :: int) \<le> sint (0 :: i32)" "cq_user_data done_io = 3" "(3 :: u64) \<noteq> RR_SIGNAL_SENTINEL"
    using sample_reg sample_refines by (simp_all add: sample_ids sample_states done_io_def RR_SIGNAL_SENTINEL_def)
  show ?thesis
    using completion_wakes [OF a(1,2) sample_ainv a(3,4) _ sample_io_simps(5) a(5,6,7)]
    by (auto simp: done_io_def write_mem_def)
qed

text \<open>C26. SIGINT or SIGTERM ends a recording cleanly: when the signal read completes with one of them,
  \<^verbatim>\<open>rr_io_wait\<close> logs a signal event with the number and the current thread, writes the whole log to the file and exits with
  status 0.\<close>

theorem termination_signal_closes_log:
  assumes l: "rr_active s" "rec_inv os fl \<mu> s" "event_log fl s hdr evs" "current_id s = Some i" "log_private os fl"
    and c: "g_ring_ready (iou s)" "os_wait_cqe os (world s) = ((rc, Some cqe), w)" "0 \<le> sint rc" "cq_user_data cqe = RR_SIGNAL_SENTINEL"
      "int sizeof_siginfo \<le> sint (cq_res cqe)"
    and n: "(le_word (read_mem (apply_stores (cq_stores cqe) (umem s)) (os_siginfo_addr os) 4) :: u32) = n" "n = SIGINT \<or> n = SIGTERM"
  shows "\<exists>s'. rr_io_wait os s = Some ((0, Some (Exited 0)), s')
    \<and> fl (world s') = hdr @ concat (map enc_event (evs @ [signal_event (of_nat (Suc (length evs))) i n (ucast i)]))"
proof -
  define s1 where "s1 = s\<lparr>world := w, umem := apply_stores (cq_stores cqe) (umem s)\<rparr>"
  have "fl w = fl (world s)" using log_privateD(14) [OF l(5), of "world s"] c(2) by simp
  then have l1: "rr_active s1" "rec_inv os fl \<mu> s1" "event_log fl s1 hdr evs" "current_id s1 = Some i"
    using l by (simp_all add: s1_def rr_active_def rec_inv_def event_log_def contents_def current_id_def split: option.splits)
  obtain s2 where s2: "rr_log_signal os n (ucast i) s1 = Some s2" "rec_inv os fl \<mu> s2"
    "event_log fl s2 hdr (evs @ [signal_event (of_nat (Suc (length evs))) i n (ucast i)])"
    using log_signal_total [OF l1] by blast
  obtain s3 where s3: "rr_record_shutdown os s2 = Some s3" "fl (world s3) = contents fl s2" using record_shutdown_durable [OF s2(2) l(5)] by blast
  have "rr_signal_process os s1 = Some (Some (Exited 0), s3)"
    using n s2(1) s3(1) l1(4) by (simp add: rr_signal_process_def s1_def Let_def)
  then have "rr_io_wait os s = Some ((0, Some (Exited 0)), s3)"
    using c by (simp add: rr_io_wait_def kcall_def s1_def Let_def)
  then show ?thesis using s3(2) s2(3) by (simp add: event_log_def)
qed

definition got_sigint :: cqe where
  "got_sigint = \<lparr> cq_user_data = RR_SIGNAL_SENTINEL, cq_res = 128, cq_stores = [(256, [2, 0, 0, 0])] \<rparr>"

theorem termination_signal_closes_log_witness:
  "\<exists>s'. rr_io_wait demo_os (sample_io got_sigint) = Some ((0, Some (Exited 0)), s') \<and> d_log (world s') = enc_event (signal_event 1 1 2 1)"
proof -
  have w: "read_mem (write_mem 256 [2, 0, 0, 0] (\<lambda>_. 0)) 256 4 = [2, 0, 0, 0]" 
  proof -
    have "(4 :: nat) = length [2, 0, 0, 0 :: u8]" by simp
    then show ?thesis using read_write_mem [of "[2, 0, 0, 0]" 256 "\<lambda>_. 0"] by (simp only:) simp
  qed
  have n: "(le_word (read_mem (apply_stores (cq_stores got_sigint) (umem (sample_io got_sigint))) (os_siginfo_addr demo_os) 4) :: u32) = 2"
    by (simp add: got_sigint_def demo_os_def w le_word_def)
  have l: "rec_inv demo_os d_log (\<lambda>_. 0) (sample_io got_sigint)" "event_log d_log (sample_io got_sigint) [] []"
    using sample_rec_log by (simp_all add: sample_io_def rec_inv_def event_log_def contents_def dw0_def)
  have "\<exists>s'. rr_io_wait demo_os (sample_io got_sigint) = Some ((0, Some (Exited 0)), s')
      \<and> d_log (world s') = [] @ concat (map enc_event ([] @ [signal_event (of_nat (Suc (length ([] :: rr_event_t list)))) 1 2 (ucast (1 :: u64))]))"
    by (rule termination_signal_closes_log [OF _ l _ demo_log_private _ sample_io_simps(5) _ _ _ n]) (simp_all add: got_sigint_def sizeof_siginfo_def)
  then show ?thesis by simp
qed

section \<open>Thread functions\<close>

text \<open>C14. Every outcome of \<^verbatim>\<open>uthread_join\<close> in a running system: ESRCH for an id no thread has, EDEADLK for the
  caller's own id, EBUSY when another thread waits already; for a finished thread 0 at once, with its return value stored; otherwise the
  caller is registered as the waiting thread and blocks.\<close>

theorem join_outcomes:
  assumes "runtime_ready (cfg s)" "reg_ok (sch s)" "refines (sch s) A" "ainv A" "arunning A c" "g_sched_running (sch s)"
  shows "\<exists>r s'. uthread_join ctx i out s = Some (r, s') \<and>
    (if \<forall>t. ids (sch s) t \<noteq> Some i then r = Ret (-1) \<and> s' = s\<lparr>errno := ESRCH\<rparr>
     else \<exists>t. ids (sch s) t = Some i \<and>
       (if t = c then r = Ret (-1) \<and> s' = s\<lparr>errno := EDEADLK\<rparr>
        else if ast A t = Some UT_DONE then r = Ret 0 \<and> s' = (if out \<noteq> 0 then s\<lparr>umem := write_mem out (le_bytes 8 (the (aret A t))) (umem s)\<rparr> else s)
        else if ajw A t \<noteq> None \<and> ajw A t \<noteq> Some c then r = Ret (-1) \<and> s' = s\<lparr>errno := EBUSY\<rparr>
        else r = Suspended \<and> refines (sch s') (spec_block c (spec_joinwait t c A)) \<and> ctxof (sch s') c = Some (ctx (Some t))))"
proof -
  have j: "uthread_join ctx i out s = rr_uthread_join ctx i out s" using assms(1) by (simp add: uthread_join_def)
  show ?thesis unfolding j by (cases rule: join_cases [OF assms(2-6), of i ctx out]) (fastforce+)
qed

theorem join_outcomes_witness:
  "(\<exists>s'. uthread_join (\<lambda>_. 0) 9 0 sample_rec = Some (Ret (-1), s') \<and> errno s' = ESRCH)
    \<and> (\<exists>s'. uthread_join (\<lambda>_. 0) 1 0 sample_rec = Some (Ret (-1), s') \<and> errno s' = EDEADLK)
    \<and> (\<exists>s'. uthread_join (\<lambda>_. 0) 2 0 sample_rec = Some (Suspended, s'))"
proof -
  have pre: "runtime_ready (cfg sample_rec)" "reg_ok (sch sample_rec)" "refines (sch sample_rec) (sched_abs sample_sched [2])" "g_sched_running (sch sample_rec)"
    using sample_reg sample_refines sample_ids by simp_all
  note j = join_outcomes [OF pre(1,2,3) sample_ainv sample_running pre(4), of "\<lambda>_. 0" _ 0]
  have w: "ajw (sched_abs sample_sched [2]) 2 = None" by (simp add: sched_abs_def sample_defs)
  have id: "ids (sch sample_rec) = [1 \<mapsto> 1, 2 \<mapsto> 2, 3 \<mapsto> 3]" using sample_ids by simp
  have un: "(\<forall>t. ([1 \<mapsto> 1, 2 \<mapsto> 2, 3 \<mapsto> 3] :: nat \<Rightarrow> u64 option) t \<noteq> Some 9)"
    "([1 \<mapsto> 1, 2 \<mapsto> 2, 3 \<mapsto> 3] :: nat \<Rightarrow> u64 option) t = Some 1 \<longleftrightarrow> t = 1" "([1 \<mapsto> 1, 2 \<mapsto> 2, 3 \<mapsto> 3] :: nat \<Rightarrow> u64 option) t = Some 2 \<longleftrightarrow> t = 2" for t
    by (auto split: if_splits)
  have "\<exists>s'. uthread_join (\<lambda>_. 0) 9 0 sample_rec = Some (Ret (-1), s') \<and> errno s' = ESRCH" using j [of 9] un(1) unfolding id by (simp only: if_True simp_thms) force
  moreover have "\<exists>s'. uthread_join (\<lambda>_. 0) 1 0 sample_rec = Some (Ret (-1), s') \<and> errno s' = EDEADLK"
    using j [of 1] unfolding id un(2) by (auto simp: sample_states w)
  moreover have "\<exists>s'. uthread_join (\<lambda>_. 0) 2 0 sample_rec = Some (Suspended, s')"
    using j [of 2] unfolding id un(3) by (auto simp: sample_states w)
  ultimately show ?thesis by blast
qed






section \<open>Guard pages, lookup, shutdown\<close>

text \<open>C28. A fault is attributed to a guard page exactly when its address lies inside one: the id is that of the first
  registered page containing it, and the SIGSEGV handler reports a stack overflow and aborts; any other fault is left to the default
  action.\<close>

theorem guard_fault_exact:
  assumes "\<forall>g \<in> set (g_guard_pages (sigs s)). gp_ok g"
  shows "rr_is_guard_page_fault a s = map_option gp_utid (List.find (\<lambda>g. gp_contains g a) (g_guard_pages (sigs s)))
    \<and> fst (segv_handler os a s) = (if \<exists>g \<in> set (g_guard_pages (sigs s)). gp_contains g a then Aborted else KilledBySegv)"
proof -
  let ?f = "List.find (\<lambda>g. gp_contains g a) (g_guard_pages (sigs s))"
  have e: "rr_is_guard_page_fault a s = map_option gp_utid ?f" using guard_scan_find [OF assms] by (simp add: rr_is_guard_page_fault_def)
  moreover have "(?f = None) = (\<not> (\<exists>g \<in> set (g_guard_pages (sigs s)). gp_contains g a))" by (auto simp: find_None_iff)
  ultimately show ?thesis by (cases ?f) (auto simp: segv_handler_def)
qed

definition sample_guard :: "(nat, dw) rr" where
  "sample_guard = sample_rec\<lparr>sigs := (sigs sample_rec)\<lparr>g_guard_pages := [\<lparr> gp_start = 8192, gp_size = 4096, gp_utid = 2 \<rparr>]\<rparr>\<rparr>"

theorem guard_fault_exact_witness:
  "rr_is_guard_page_fault 12287 sample_guard = Some 2 \<and> rr_is_guard_page_fault 12288 sample_guard = None
    \<and> fst (segv_handler demo_os 12288 sample_guard) = KilledBySegv"
proof -
  have "\<forall>g \<in> set (g_guard_pages (sigs sample_guard)). gp_ok g" by (simp add: sample_guard_def gp_ok_def)
  from guard_fault_exact [OF this, of 12287 demo_os] guard_fault_exact [OF this, of 12288 demo_os]
  show ?thesis by (simp add: sample_guard_def gp_contains_def)
qed

text \<open>C29. The lookup by id is exact and safe: with a consistent registry \<^verbatim>\<open>rr_scheduler_find\<close> returns the one thread that
  has the id, and NULL exactly when there is none.\<close>

theorem find_exact:
  assumes "reg_ok s"
  shows "\<exists>r. rr_scheduler_find i s = Some r \<and> (\<forall>a. r = Some a \<longleftrightarrow> ids s a = Some i)"
  by (rule find_correct [OF assms, of i]) blast

theorem find_exact_witness: "rr_scheduler_find 3 sample_sched = Some (Some 3) \<and> rr_scheduler_find 9 sample_sched = Some None"
proof -
  obtain r where r: "rr_scheduler_find 3 sample_sched = Some r" "\<And>a. r = Some a \<longleftrightarrow> ids sample_sched a = Some 3" using find_exact [OF sample_reg, of 3] by blast
  obtain q where q: "rr_scheduler_find 9 sample_sched = Some q" "\<And>a. q = Some a \<longleftrightarrow> ids sample_sched a = Some 9" using find_exact [OF sample_reg, of 9] by blast
  have "r = Some 3" using r(2) [of 3] by (simp add: sample_ids)
  moreover have "q = None"
  proof (cases q)
    case (Some a)
    then have "ids sample_sched a = Some 9" using q(2) [of a] by blast
    then show ?thesis by (simp add: sample_ids fun_upd_def split: if_splits)
  qed
  ultimately show ?thesis using r(1) q(1) by simp
qed



end
