(* ===== verification/RR_Wrappers.thy ===== *)
theory RR_Wrappers
  imports RR_Replayable RR_Threads RR_LogFile
begin

text \<open>
  Properties of the intercepted libc functions in their three modes: what replay gives back, where
  it cannot, how far a replayed call writes into the caller's memory, what is submitted to the
  kernel, and that the functions are transparent when the runtime is off.
\<close>

section \<open>Recording and replaying the same call\<close>

lemma demo_recording: "recording demo_os d_log [] demo_rec []"
  by (simp add: recording_def demo_rec_inv demo_event_log)

lemma demo_replaying: "\<forall>ev \<in> set evs. wf_event ev \<Longrightarrow> numbered evs \<Longrightarrow> replaying demo_os d_rest (demo_rpl evs) evs"
  by (simp add: replaying_def demo_replay_log numbered_seq_from)

lemma demo_same_view: "same_view demo_rec (demo_rpl evs)"
  by (simp add: same_view_def demo_rec_def demo_rpl_def)

text \<open>C19. Virtual time: \<open>n\<close> calls of \<^verbatim>\<open>clock_gettime\<close> while recording append \<open>n\<close> events, and a replaying thread that has
  these events before it gets the same return values and the same bytes in memory, whatever its own clock shows.\<close>

theorem clock_replays:
  assumes "recording os1 fl hdr s evs" and "real_struct os1 fl (CClockGettime c p) p sizeof_timespec" and "p \<noteq> 0"
  shows "\<exists>vs s' new. call_n (clock_gettime os1 c p) n s = Some (vs, s') \<and> event_log fl s' hdr (evs @ new) \<and> length new = n
    \<and> (\<forall>t es. same_view s t \<longrightarrow> replaying os2 rest t (new @ es) \<longrightarrow>
         (\<exists>t'. call_n (clock_gettime os2 c p) n t = Some (vs, t') \<and> replaying os2 rest t' es \<and> umem t' = umem s'))"
proof -
  have "struct_logged os1 fl hdr (CClockGettime c p) p sizeof_timespec s evs" using assms by (simp add: struct_logged_def)
  from rp_clock.faithful_n [OF this, of n os2 rest] show ?thesis
    by (fastforce simp: struct_logged_def recording_def dest: same_viewD(2))
qed

theorem clock_replays_witness:
  "\<exists>vs s' new t'. call_n (clock_gettime demo_os 1 4096) 2 (demo_rec :: (unit, dw) rr) = Some (vs, s')
    \<and> call_n (clock_gettime demo_os 1 4096) 2 (demo_rpl new :: (unit, dw) rr) = Some (vs, t') \<and> umem t' = umem s'"
proof -
  have r: "recording demo_os d_log [] (demo_rec :: (unit, dw) rr) []" by (rule demo_recording)
  have st: "real_struct demo_os d_log (CClockGettime 1 4096) 4096 sizeof_timespec"
    by (auto simp: real_struct_def demo_os_def sizeof_timespec_def intro!: exI [of _ "le_bytes 8 (7 :: u64) @ le_bytes 8 (9 :: u64)"])
  from clock_replays [OF r st, where n = 2 and ?os2.0 = demo_os and rest = d_rest]
  obtain vs s' new where c: "call_n (clock_gettime demo_os 1 4096) 2 (demo_rec :: (unit, dw) rr) = Some (vs, s')" "event_log d_log s' [] new"
    "\<And>t es. same_view (demo_rec :: (unit, dw) rr) t \<Longrightarrow> replaying demo_os d_rest t (new @ es) \<Longrightarrow>
      \<exists>t'. call_n (clock_gettime demo_os 1 4096) 2 t = Some (vs, t') \<and> replaying demo_os d_rest t' es \<and> umem t' = umem s'"
    by auto
  have "replaying demo_os d_rest (demo_rpl new :: (unit, dw) rr) new" using c(2) by (intro demo_replaying) (simp_all add: event_log_def)
  moreover have "same_view (demo_rec :: (unit, dw) rr) (demo_rpl new :: (unit, dw) rr)" by (rule demo_same_view)
  ultimately show ?thesis using c(1) c(3) [of "demo_rpl new" "[]"] by (metis append_Nil2)
qed

text \<open>C20. The working directory: while its path has at most 64 bytes, \<open>n\<close> recorded calls of \<^verbatim>\<open>getcwd\<close> with a buffer are
  replayed with the same results, the same path in the buffer and the same error numbers.\<close>

theorem getcwd_replays:
  assumes "recording os1 fl hdr s evs" and "real_getcwd os1 fl buf sz" and "buf \<noteq> 0"
  shows "\<exists>vs s' new. call_n (getcwd os1 buf sz) n s = Some (vs, s') \<and> event_log fl s' hdr (evs @ new) \<and> length new = n
    \<and> (\<forall>t es. same_view s t \<longrightarrow> replaying os2 rest t (new @ es) \<longrightarrow>
         (\<exists>t'. call_n (getcwd os2 buf sz) n t = Some (vs, t') \<and> replaying os2 rest t' es \<and> umem t' = umem s' \<and> errno t' = errno s'))"
proof -
  have "cwd_logged os1 fl hdr buf sz s evs" using assms by (simp add: cwd_logged_def)
  from rp_cwd.faithful_n [OF this, of n os2 rest] show ?thesis
    by (fastforce simp: cwd_logged_def recording_def dest: same_viewD(2,3))
qed

theorem getcwd_replays_witness:
  "\<exists>vs s' new t'. call_n (getcwd demo_os 4096 16) 1 (demo_rec :: (unit, dw) rr) = Some (vs, s')
    \<and> call_n (getcwd demo_os 4096 16) 1 (demo_rpl new :: (unit, dw) rr) = Some (vs, t') \<and> umem t' = umem s'"
proof -
  have r: "recording demo_os d_log [] (demo_rec :: (unit, dw) rr) []" by (rule demo_recording)
  have "\<exists>path. 0 \<notin> set path \<and> length path < 16 \<and> length path \<le> 64 \<and> write_mem 4096 [47, 114, 0] m = write_mem 4096 (path @ [0]) m" for m
    by (intro exI [of _ "[47, 114]"]) simp
  then have g: "real_getcwd demo_os d_log 4096 16" by (simp add: real_getcwd_def demo_os_def)
  from getcwd_replays [OF r g, where n = 1 and ?os2.0 = demo_os and rest = d_rest]
  obtain vs s' new where c: "call_n (getcwd demo_os 4096 16) 1 (demo_rec :: (unit, dw) rr) = Some (vs, s')" "event_log d_log s' [] new"
    "\<And>t es. same_view (demo_rec :: (unit, dw) rr) t \<Longrightarrow> replaying demo_os d_rest t (new @ es) \<Longrightarrow>
      \<exists>t'. call_n (getcwd demo_os 4096 16) 1 t = Some (vs, t') \<and> replaying demo_os d_rest t' es \<and> umem t' = umem s' \<and> errno t' = errno s'"
    by auto
  have "replaying demo_os d_rest (demo_rpl new :: (unit, dw) rr) new" using c(2) by (intro demo_replaying) (simp_all add: event_log_def)
  moreover have "same_view (demo_rec :: (unit, dw) rr) (demo_rpl new :: (unit, dw) rr)" by (rule demo_same_view)
  ultimately show ?thesis using c(1) c(3) [of "demo_rpl new" "[]"] by (metis append_Nil2)
qed

section \<open>Results that do not survive\<close>

text \<open>C36. A user id of \<open>2\<^sup>31\<close> or more is logged as a negative number: the recorded call returns the id, but the call that replays its
  event returns 4294967295.\<close>

theorem getuid_large_lost:
  fixes s :: "('c, 'w) rr" and os2 :: "'v os"
  assumes r: "recording os1 fl hdr s evs" and u: "os_real os1 CGetuid (umem s) (world s) = (Inr v, umem s, w)" "fl w = fl (world s)"
      "2 ^ 31 \<le> v" "v < 2 ^ 32"
  shows "\<exists>s' ev. getuid os1 s = Some (v, s') \<and> event_log fl s' hdr (evs @ [ev])
    \<and> (\<forall>(t :: ('c, 'v) rr) es. current_id t = current_id s \<longrightarrow> replaying os2 rest t (ev # es) \<longrightarrow> (\<exists>t'. getuid os2 t = Some (4294967295, t')))"
proof -
  obtain utid where i: "current_id s = Some utid" using r by (auto simp: recording_def)
  define s1 where "s1 = s\<lparr>umem := umem s, world := w\<rparr>"
  have r1: "recording os1 fl hdr s1 evs" unfolding s1_def using r u(2) by (rule recording_world2)
  have "current_id s1 = Some utid" using i current_id_sch [of s1 s] by (simp add: s1_def)
  then obtain s' where s': "rr_log_syscall os1 NR_getuid (of_int v) 0 0 0 s1 = Some s'"
    "recording os1 fl hdr s' (evs @ [syscall_event (of_nat (Suc (length evs))) utid NR_getuid (of_int v) 0 (logged_data (umem s1) 0 0)])"
    using recording_log [OF r1] by blast
  let ?ev = "syscall_event (of_nat (Suc (length evs))) utid NR_getuid (of_int v) 0 []"
  have "getuid os1 s = Some (v, s')"
    using recording_uid [OF r] s'(1) recording_active [OF r1] u(1) by (simp add: real_call_def s1_def)
  moreover have "event_log fl s' hdr (evs @ [?ev])" using s'(2) by (simp add: recording_def logged_data_def)
  moreover have "\<exists>t'. getuid os2 t = Some (4294967295, t')" if ct: "current_id t = current_id s" and rt: "replaying os2 rest t (?ev # es)"
    for t :: "('c, 'v) rr" and es
  proof -
    have neg: "sint (of_int v :: i32) < 0"
    proof -
      have "(of_int v :: i32) = of_int (v - 2 ^ 32)" by simp
      moreover have "sint (of_int (v - 2 ^ 32) :: i32) = v - 2 ^ 32"
        using u(3,4) by (simp only: sint_sbintrunc') (rule signed_take_bit_int_eq_self, simp_all)
      ultimately have "sint (of_int v :: i32) = v - 2 ^ 32" by (simp only:)
      then show ?thesis using u(4) by simp
    qed
    obtain t' where "replay_get_event os2 NR_getuid t = Some (Some (copy_out ?ev (sc_payload NR_getuid (of_int v) 0 [])), t')"
      using replaying_logged [OF rt] ct i by auto
    then have "replay_scalar os2 NR_getuid t = Some (-1, t'\<lparr>errno := - of_int v\<rparr>)"
      using neg by (simp add: replay_scalar_def copy_out_logged raw_to_int_def)
    then show ?thesis using rt by (simp add: getuid_def replaying_def to_uid_def)
  qed
  ultimately show ?thesis by blast
qed

definition big_uid_rec :: "(unit, dw) rr" where
  "big_uid_rec = demo_rec\<lparr>umem := (\<lambda>_. 0), world := dw0\<lparr>d_uid := 3000000000\<rparr>\<rparr>"

theorem getuid_large_lost_witness:
  "\<exists>s' ev t'. getuid demo_os big_uid_rec = Some (3000000000, s') \<and> getuid demo_os (demo_rpl [ev] :: (unit, dw) rr) = Some (4294967295, t')"
proof -
  have "recording demo_os d_log [] (demo_rec :: (unit, dw) rr) []" by (rule demo_recording)
  from recording_world2 [OF this, of "dw0\<lparr>d_uid := 3000000000\<rparr>" "\<lambda>_. 0"]
  have r: "recording demo_os d_log [] big_uid_rec []" by (simp add: big_uid_rec_def)
  have u: "os_real demo_os CGetuid (umem big_uid_rec) (world big_uid_rec) = (Inr 3000000000, umem big_uid_rec, world big_uid_rec)"
    by (simp add: demo_os_def big_uid_rec_def)
  have "(2 :: int) ^ 31 \<le> 3000000000" "(3000000000 :: int) < 2 ^ 32" by simp_all
  from getuid_large_lost [OF r u refl this, of demo_os d_rest] obtain s' ev where s': "getuid demo_os big_uid_rec = Some (3000000000, s')"
    "event_log d_log s' [] ([] @ [ev])" "\<And>(t :: (unit, dw) rr) es. current_id t = current_id big_uid_rec \<Longrightarrow> replaying demo_os d_rest t (ev # es) \<Longrightarrow>
      \<exists>t'. getuid demo_os t = Some (4294967295, t')" by blast
  have "replaying demo_os d_rest (demo_rpl [ev] :: (unit, dw) rr) [ev]" using s'(2) by (intro demo_replaying) (simp_all add: event_log_def)
  moreover have "current_id (demo_rpl [ev] :: (unit, dw) rr) = current_id big_uid_rec"
    using current_id_sch [of big_uid_rec "demo_rec :: (unit, dw) rr"] by (simp add: big_uid_rec_def)
  ultimately show ?thesis using s'(1) s'(3) by blast
qed

text \<open>C33. Only the first 64 of the 144 bytes of \<^verbatim>\<open>struct stat\<close> are logged: the replayed \<^verbatim>\<open>stat\<close> returns 0 like the recorded one
  and restores these 64 bytes, but leaves the rest of the caller's buffer, from \<^verbatim>\<open>st_blocks\<close> on, as it happened to be.\<close>

theorem stat_replay_partial:
  assumes r: "replaying os rest t (syscall_event sq utid NR_stat 0 path (logged_data m st (of_nat sizeof_stat)) # es)"
    and i: "current_id t = Some utid" and st: "st \<noteq> 0"
  shows "\<exists>t'. stat os path st t = Some (0, t') \<and> (\<forall>k < 64. umem t' (st + of_nat k) = m (st + of_nat k))
    \<and> (\<forall>k. 64 \<le> k \<and> k < sizeof_stat \<longrightarrow> umem t' (st + of_nat k) = umem t (st + of_nat k))"
proof -
  let ?bs = "read_mem m st 64"
  have d: "logged_data m st (of_nat sizeof_stat) = ?bs" using st by (simp add: logged_data_def sizeof_stat_def sizeofs)
  obtain t' where t': "replay_get_event os NR_stat t = Some (Some (copy_out (syscall_event sq utid NR_stat 0 path ?bs) (sc_payload NR_stat 0 path ?bs)), t')"
    "log_only t t'"
    using replaying_logged [OF r [unfolded d] i] by blast
  have "stat os path st t = Some (0, t'\<lparr>umem := write_mem st ?bs (umem t')\<rparr>)"
    using r t'(1) st copy_out_logged [of ?bs] unfolding stat_def stat_like_def fill_struct_def
    by (simp add: replaying_def sizeof_stat_def copy_to_def memcpy_def raw_to_int_def)
  moreover have "unat (st + of_nat k - st) = k" if "k < sizeof_stat" for k using that by (simp add: unat_of_nat sizeof_stat_def)
  ultimately show ?thesis using log_onlyD(6) [OF t'(2)] by (auto simp: write_mem_def read_mem_def sizeof_stat_def)
qed

theorem stat_replay_partial_witness:
  "\<exists>t'. stat demo_os 77 4096 (demo_rpl [syscall_event 1 1 NR_stat 0 77 (logged_data (\<lambda>_. 1) 4096 (of_nat sizeof_stat))] :: (unit, dw) rr) = Some (0, t')
    \<and> umem t' 4159 = 1 \<and> umem t' 4160 = 0"
proof -
  let ?ev = "syscall_event 1 1 NR_stat 0 77 (logged_data (\<lambda>_. 1) 4096 (of_nat sizeof_stat))"
  have "replaying demo_os d_rest (demo_rpl [?ev] :: (unit, dw) rr) [?ev]"
    by (intro demo_replaying) (simp_all add: numbered_def)
  from stat_replay_partial [OF this] obtain t' where t': "stat demo_os 77 4096 (demo_rpl [?ev] :: (unit, dw) rr) = Some (0, t')"
    "\<forall>k < 64. umem t' (4096 + of_nat k) = 1" "\<forall>k. 64 \<le> k \<and> k < sizeof_stat \<longrightarrow> umem t' (4096 + of_nat k) = 0"
    by auto
  have "umem t' 4159 = 1" using spec [OF t'(2), of 63] by simp
  moreover have "umem t' 4160 = 0" using spec [OF t'(3), of 64] by (simp add: sizeof_stat_def)
  ultimately show ?thesis using t'(1) by blast
qed

text \<open>A read while recording: one submission entry, then the caller is switched out.\<close>

lemma read_suspends:
  assumes act: "rr_active s" and r: "refines (sch s) A" "arunning A c" "g_sched_running (sch s)" "ids (sch s) c = Some i" and n: "count \<noteq> 0"
    and sq: "os_get_sqe os (world s) = (Some slot, w)"
    and sub: "os_submit os (os_prep_sqe os slot \<lparr> sq_op = SqRead fd buf (ucast count) 0, sq_user_data = i \<rparr> w) = (rc, w')" "0 \<le> sint rc"
  obtains x where "read os ctx fd buf count s = Some (Suspended, s\<lparr>world := w', sch := x\<rparr>)"
    "rr_scheduler_block_current ctx (sch s) = Some (True, x)" "refines x (spec_block c A)"
proof -
  obtain u where u: "ut_heap (sch s) c = Some u" "g_current (sch s) = Some c" using refines_running [OF r(1,2)] by metis
  have "ut_id u = i" using r(4) u(1) by (simp add: ids_def)
  moreover obtain x where x: "rr_scheduler_block_current ctx (sch s) = Some (True, x)" "refines x (spec_block c A)"
    using block_refines [OF r(1-3)] by blast
  ultimately have "read os ctx fd buf count s = Some (Suspended, s\<lparr>world := w', sch := x\<rparr>)"
    using act n sq u sub
    by (simp add: read_def rr_io_submit_read_and_wait_def submit_op_def rr_scheduler_current_def kcall_def kdo_def submit_and_block_def
        on_sched_ret_def then_finish_def Let_def)
  with x that show ?thesis by blast
qed



text \<open>C35. When the submission queue is full, the program sees the wrong error: \<^verbatim>\<open>submit\<close> sets \<^verbatim>\<open>EAGAIN\<close> and returns -1, which
  the wrapper takes for the negated error number 1, so \<^verbatim>\<open>read\<close> fails with \<^verbatim>\<open>EPERM\<close> (1), and that is also what is
  logged.\<close>

theorem full_queue_wrong_errno:
  assumes r: "recording os fl hdr s evs" and n: "count \<noteq> 0" and sq: "os_get_sqe os (world s) = (None, w)" "fl w = fl (world s)"
    and i: "current_id s = Some utid"
  shows "\<exists>s'. read os ctx fd buf count s = Some (Ret (-1), s') \<and> errno s' = 1
    \<and> event_log fl s' hdr (evs @ [syscall_event (of_nat (Suc (length evs))) utid NR_read (-1) (of_int fd) []])"
proof -
  define s1 where "s1 = s\<lparr>world := w, errno := 1\<rparr>"
  have "s1 = s\<lparr>errno := 1, umem := umem s, world := w\<rparr>" by (simp add: s1_def)
  then have r1: "recording os fl hdr s1 evs" using recording_world [OF r sq(2), where e = 1 and m = "umem s"] by simp
  have "current_id s1 = Some utid" using i current_id_sch [of s1 s] by (simp add: s1_def)
  then obtain s' where s': "rr_log_syscall os NR_read (-1) (of_int fd) buf 0 s1 = Some s'"
    "recording os fl hdr s' (evs @ [syscall_event (of_nat (Suc (length evs))) utid NR_read (-1) (of_int fd) (logged_data (umem s1) buf 0)])" "log_only s1 s'"
    using recording_log [OF r1] by blast
  have "read os ctx fd buf count s = Some (Ret (-1), s')"
    using recording_active [OF r] n sq s'(1)
    by (simp add: read_def rr_io_submit_read_and_wait_def submit_op_def kcall_def then_finish_def read_finish_def raw_to_ssize_def immediate_def s1_def Let_def)
  then show ?thesis using s'(2) log_onlyD(7) [OF s'(3)] by (auto simp: recording_def logged_data_def s1_def)
qed

definition full_queue :: "dw os" where
  "full_queue = demo_os\<lparr>os_get_sqe := (\<lambda>w. (None, w))\<rparr>"

theorem full_queue_wrong_errno_witness:
  "\<exists>s'. read full_queue () 4 4096 16 (demo_rec :: (unit, dw) rr) = Some (Ret (-1), s') \<and> errno s' = 1"
proof -
  have "write_ok full_queue 3 d_log (\<lambda>_. 0)" using demo_write_ok by (simp add: write_ok_def full_queue_def)
  then have "rec_inv full_queue d_log (\<lambda>_. 0) (demo_rec :: (unit, dw) rr)" by (simp add: rec_inv_def demo_defs)
  then have r: "recording full_queue d_log [] (demo_rec :: (unit, dw) rr) []" by (simp add: recording_def demo_event_log)
  have n: "(16 :: u64) \<noteq> 0" by simp
  have sq: "os_get_sqe full_queue (world (demo_rec :: (unit, dw) rr)) = (None, dw0)" by (simp add: full_queue_def)
  from full_queue_wrong_errno [OF r n sq, where utid = 1 and ctx = "()" and fd = 4 and buf = 4096] show ?thesis by auto
qed

section \<open>Bounds\<close>

lemma next_event_umem: "rr_replay_next_event os t = Some (r, t') \<Longrightarrow> umem t' = umem t"
  by (auto simp: rr_replay_next_event_def rr_read_full_def Let_def split: if_splits)

lemma next_syscall_bounds:
  assumes "rr_replay_next_syscall os nr i t = Some (r, t')"
  shows "umem t' = umem t \<and> (case r of None \<Rightarrow> True | Some ev \<Rightarrow> unat (re_data_len ev) \<le> 64 \<and> length (re_data ev) = 64)"
proof (cases "\<not> g_replay_header_ok (rpl t) \<or> g_replay_fd (rpl t) < 0")
  case True
  then show ?thesis using assms by (auto simp: rr_replay_next_syscall_def)
next
  case False
  then obtain oev t1 where n: "rr_replay_next_event os t = Some (oev, t1)"
    using assms by (auto simp: rr_replay_next_syscall_def)
  from next_event_umem [OF n] show ?thesis
    using assms False n copy_out_bounds by (cases oev) (auto simp: rr_replay_next_syscall_def sizeofs split: if_splits rr_payload.splits)
qed

text \<open>C24. A replayed \<^verbatim>\<open>read\<close> or \<^verbatim>\<open>recv\<close> never writes outside the caller's buffer, whatever the log holds: beyond the first
  \<open>count\<close> bytes, and beyond the first 64, memory is unchanged, and after a failed call all of it is.\<close>

theorem replay_read_in_bounds:
  assumes "replay_into os nr buf count t = Some (v, t')"
  shows "(\<forall>a. min (unat count) 64 \<le> unat (a - buf) \<longrightarrow> umem t' a = umem t a) \<and> (v = -1 \<longrightarrow> umem t' = umem t)"
proof -
  obtain oev t1 where g: "replay_get_event os nr t = Some (oev, t1)" using assms by (auto simp: replay_into_def)
  have b: "umem t1 = umem t" "\<And>ev. oev = Some ev \<Longrightarrow> unat (re_data_len ev) \<le> 64 \<and> length (re_data ev) = 64"
    using g by (auto simp: replay_get_event_def dest: next_syscall_bounds)
  show ?thesis
  proof (cases oev)
    case None
    then show ?thesis using assms g b by (auto simp: replay_into_def)
  next
    case (Some ev)
    define k where "k = min (min (nat (sint (re_retval ev))) (unat count)) (unat (re_data_len ev))"
    have k: "k \<le> min (unat count) 64" using b(2) [OF Some] by (auto simp: k_def)
    have "v = fst (raw_to_ssize (re_retval ev) t1) \<and> (umem t' = umem t1 \<or> 0 < sint (re_retval ev) \<and> umem t' = write_mem buf (take k (re_data ev)) (umem t1))"
      using assms g Some
      by (auto simp: replay_into_def raw_to_ssize_def copy_to_def memcpy_def k_def min_def Let_def split: if_splits)
    then show ?thesis using b(1) k by (auto simp: raw_to_ssize_def write_mem_def)
  qed
qed

theorem replay_read_in_bounds_witness:
  "\<exists>v t'. replay_into demo_os NR_read 4096 2 (demo_rpl [syscall_event 1 1 NR_read 5 4 [1, 2, 3, 4, 5]] :: (unit, dw) rr) = Some (v, t')
    \<and> umem t' 4098 = 0"
proof -
  let ?ev = "syscall_event 1 1 NR_read 5 4 [1, 2, 3, 4, 5]"
  have r: "replaying demo_os d_rest (demo_rpl [?ev] :: (unit, dw) rr) [?ev]" by (intro demo_replaying) (simp_all add: numbered_def)
  from replaying_logged [OF r] obtain t1 where "replay_get_event demo_os NR_read (demo_rpl [?ev] :: (unit, dw) rr)
      = Some (Some (copy_out ?ev (sc_payload NR_read 5 4 [1, 2, 3, 4, 5])), t1)" by auto
  then have "\<exists>v t'. replay_into demo_os NR_read 4096 2 (demo_rpl [?ev] :: (unit, dw) rr) = Some (v, t')"
    by (simp add: replay_into_def copy_out_logged raw_to_ssize_def copy_to_def memcpy_def Let_def)
  then obtain v t' where vt: "replay_into demo_os NR_read 4096 2 (demo_rpl [?ev] :: (unit, dw) rr) = Some (v, t')" by blast
  from replay_read_in_bounds [OF this] have "umem t' 4098 = umem (demo_rpl [?ev] :: (unit, dw) rr) 4098" by simp
  then show ?thesis using vt by simp
qed

section \<open>Submission and passthrough\<close>

text \<open>C32. What \<^verbatim>\<open>read\<close> asks the kernel for while recording: one operation, tagged with the id of the calling thread, that reads at file
  offset 0, not at the current file position, and only \<open>count\<close> modulo \<open>2\<^sup>32\<close> bytes; then the caller blocks.\<close>

theorem read_submission:
  assumes act: "rr_active s" and r: "refines (sch s) A" "arunning A c" "g_sched_running (sch s)" "ids (sch s) c = Some i"
    and n: "count \<noteq> 0" and sq: "os_get_sqe os (world s) = (Some slot, w)"
    and sub: "os_submit os (os_prep_sqe os slot \<lparr> sq_op = SqRead fd buf (of_nat (unat count mod 2 ^ 32)) 0, sq_user_data = i \<rparr> w) = (rc, w')" "0 \<le> sint rc"
  shows "\<exists>s'. read os ctx fd buf count s = Some (Suspended, s') \<and> world s' = w' \<and> refines (sch s') (spec_block c A)"
proof -
  have len: "(of_nat (unat count mod 2 ^ 32) :: u32) = ucast count"
    by (rule unsigned_word_eqI [where ?'a = nat]) (simp add: unsigned_of_nat unsigned_ucast_eq take_bit_eq_mod)
  obtain x where "read os ctx fd buf count s = Some (Suspended, s\<lparr>world := w', sch := x\<rparr>)" "refines x (spec_block c A)"
    by (rule read_suspends [OF act r n sq sub [unfolded len]])
  then show ?thesis by simp
qed

theorem read_submission_witness:
  "\<exists>s'. read demo_os 0 4 4096 4294967297 sample_rec = Some (Suspended, s')
    \<and> d_sqes (world s') = [\<lparr> sq_op = SqRead 4 4096 1 0, sq_user_data = 1 \<rparr>]"
proof -
  have r: "refines (sch sample_rec) (sched_abs sample_sched [2])" "g_sched_running (sch sample_rec)" "ids (sch sample_rec) 1 = Some 1"
    using sample_refines sample_ids by simp_all
  have sq: "os_get_sqe demo_os (world sample_rec) = (Some 0, dw0)" by (simp add: demo_os_def dw0_def)
  have n: "(4294967297 :: u64) \<noteq> 0" by simp
  have sub: "os_submit demo_os (os_prep_sqe demo_os 0 \<lparr> sq_op = SqRead 4 4096 (of_nat (unat (4294967297 :: u64) mod 2 ^ 32)) 0, sq_user_data = 1 \<rparr> dw0)
      = (1, dw0\<lparr>d_sqes := [\<lparr> sq_op = SqRead 4 4096 1 0, sq_user_data = 1 \<rparr>]\<rparr>)"
    by (simp add: demo_os_def dw0_def)
  have "\<exists>s'. read demo_os 0 4 4096 4294967297 sample_rec = Some (Suspended, s') \<and> world s' = dw0\<lparr>d_sqes := [\<lparr> sq_op = SqRead 4 4096 1 0, sq_user_data = 1 \<rparr>]\<rparr>
      \<and> refines (sch s') (spec_block 1 (sched_abs sample_sched [2]))"
    by (rule read_submission [OF _ r(1) sample_running r(2,3) n sq sub]) simp_all
  then show ?thesis by auto
qed

text \<open>The call of libc's function that the wrapper makes, and what that function returns on failure.\<close>

fun libc_args :: "libc_call \<Rightarrow> libc_call" where
  "libc_args (COpenat d p fl m) = COpenat d p fl (if bit fl 6 then Some (case m of None \<Rightarrow> 0 | Some x \<Rightarrow> x) else None)"
| "libc_args c = c"

fun fail_value :: "libc_call \<Rightarrow> int" where
  "fail_value (CGetcwd buf n) = 0"
| "fail_value c = -1"

text \<open>C25. While the runtime is not ready every intercepted function is transparent: it makes exactly the call of libc's own function
  with the caller's arguments and returns its result; for \<^verbatim>\<open>openat\<close> the mode is passed on exactly when \<^verbatim>\<open>O_CREAT\<close> is set.\<close>

theorem passthrough_transparent:
  assumes "\<not> runtime_ready (cfg s)"
  shows "do_call os k call s = Some (Ret (fst (real_call os (libc_args call) (fail_value call) s)), snd (real_call os (libc_args call) (fail_value call) s))"
proof -
  have a: "\<not> rr_active x" "\<not> rr_replay_active x" if "cfg x = cfg s" for x :: "('a ctx, 'b) rr"
    using assms that by (simp_all add: rr_active_def rr_replay_active_def cfg_active_def cfg_replay_active_def)
  obtain r s' where r: "real_call os (libc_args call) (fail_value call) s = (r, s')" by (cases "real_call os (libc_args call) (fail_value call) s")
  have "cfg s' = cfg s" using r by (auto simp: real_call_def split: prod.splits sum.splits)
  note act = a [OF refl] a [OF this]
  show ?thesis using r act
    by (cases call) (simp_all add: do_call_def read_def write_fn_def recv_def send_def accept_def connect_def openat_def close_def nanosleep_def
        clock_gettime_def gettimeofday_def getpid_def getuid_def uname_def stat_def fstat_def lstat_def stat_like_def getcwd_def
        record_struct_def passthrough_def immediate_def Let_def split: if_splits)
qed

theorem passthrough_transparent_witness:
  "do_call demo_os (\<lambda>v e. v) CGetpid ((rr_load (\<lambda>_. 0) dw0) :: (int ctx, dw) rr) = Some (Ret 42, rr_load (\<lambda>_. 0) dw0)"
proof -
  have "\<not> runtime_ready (cfg ((rr_load (\<lambda>_. 0) dw0) :: (int ctx, dw) rr))" by (simp add: rr_load_def g_rr_config_init_def)
  from passthrough_transparent [OF this, of demo_os "\<lambda>v e. v" CGetpid] show ?thesis
    by (simp add: real_call_def demo_os_def rr_load_def)
qed

end
