(* ===== verification/RR_BlockingIO.thy ===== *)
theory RR_BlockingIO
  imports RR_Wrappers RR_Boot
begin

text \<open>
  A blocking call from beginning to end, through all the layers it involves: the wrapper submits the operation and
  the thread is switched out, the dispatcher finds nothing to run and waits, the completion wakes the thread, the dispatcher
  resumes it, and the wrapper returns the result to the program and logs it.
\<close>

section \<open>Results of completions\<close>

definition iores :: "'c sched \<Rightarrow> nat \<Rightarrow> i32 option" where
  "iores s a = map_option ut_io_result (ut_heap s a)"

lemma iores_pop: "runq_pop_front s = Some (p, s') \<Longrightarrow> iores s' = iores s"
  by (auto simp: runq_pop_front_def iores_def Let_def fun_eq_iff split: if_splits)

lemma iores_make_current: "make_current p s = Some s' \<Longrightarrow> iores s' = iores s"
  by (cases p) (auto simp: make_current_def rr_scheduler_set_current_def ut_upd_def iores_def fun_eq_iff split: option.splits)

section \<open>The two passes of the dispatcher\<close>

text \<open>The only thread is blocked: the pass waits and ends with the thread in the queue.\<close>

lemma pass_waits:
  assumes r: "reg_ok (sch s)" "refines (sch s) A" "ainv A" "g_sched_running (sch s)" "aq A = []"
    and a: "ids (sch s) a = Some i" "ast A a = Some UT_BLOCKED"
    and c: "g_ring_ready (iou s)" "os_wait_cqe os (world s) = ((rc, Some cqe), w)" "0 \<le> sint rc" "cq_user_data cqe = i" "i \<noteq> RR_SIGNAL_SENTINEL"
  obtains x where "sys_step os user start (InSched s)
      = Some (InSched (s\<lparr>world := os_cqe_seen os w, umem := apply_stores (cq_stores cqe) (umem s), sch := x\<rparr>))"
    "reg x = reg (sch s)" "ctxof x = ctxof (sch s)" "refines x (spec_wake a A)" "iores x a = Some (cq_res cqe)"
proof -
  obtain x where x: "rr_io_wait os s = Some ((0, None), s\<lparr>world := os_cqe_seen os w, umem := apply_stores (cq_stores cqe) (umem s), sch := x\<rparr>)"
    "rr_scheduler_wake_by_id i (cq_res cqe) None 0 (sch s) = Some x" "refines x (spec_wake a A)"
    "map_option ut_io_result (ut_heap x a) = Some (cq_res cqe)"
    by (rule io_wait_wake [OF r(1-3) a c])
  have "scheduler_iter os s = Some (Continue, s\<lparr>world := os_cqe_seen os w, umem := apply_stores (cq_stores cqe) (umem s), sch := x\<rparr>)"
    using pop_refines_empty [OF r(2,5)] x(1) r(4) by (simp add: scheduler_iter_def on_sched_ret_def)
  then show ?thesis using that x reg_wake [OF x(2)] ctxof_wake [OF x(2)] by (simp add: sys_step_def iores_def)
qed

text \<open>The thread that ran last is first in the queue: nothing is logged, and it continues in the library function it was
  switched out in.\<close>

lemma pass_resumes:
  assumes r: "refines (sch s) A" "ainv A" "g_sched_running (sch s)" "aq A = c # xs" "acur A = Some c" "reg_ok (sch s)"
    and ctx: "ctxof (sch s) c = Some (CIo pt (Some c) k)" and res: "iores (sch s) c = Some raw"
  obtains b y where "sys_step os user start (InSched s) = do {
      (v, s) \<leftarrow> finish os pt raw (snd (rr_set_fs_base os b (s\<lparr>sch := y\<rparr>)));
      Some (User (k v (errno s)) s) }"
    "refines y (spec_dispatch c A)" "reg y = reg (sch s)"
proof -
  obtain x u i where x: "runq_pop_front (sch s) = Some (Some c, x)" "refines x (A\<lparr>aq := xs\<rparr>)" "reg x = reg (sch s)"
    "ut_heap x c = Some u" "ids (sch s) c = Some (ut_id u)" "current_id s = Some i"
    and eq: "scheduler_iter os s = do {
       (ok, s) \<leftarrow> note_switch os i (ut_id u) (s\<lparr>sch := x\<rparr>);
       if \<not> ok then Some (End Aborted, s)
       else do {
         s \<leftarrow> on_sched (make_current (Some c)) s;
         u \<leftarrow> deref (sch s) (Some c);
         Some (Dispatch (Some c), snd (rr_set_fs_base os (ut_tls_block u) s))
       }
     }"
    by (rule iter_pop [OF r(3,1,2,4)])
  have "g_current (sch s) = Some c" using refinesD(2) [OF r(1)] r(5) by simp
  then have i: "i = ut_id u" using x(5,6) by (auto simp: current_id_def rr_scheduler_current_def ids_def split: option.splits)
  have pre: "refines (sch (s\<lparr>sch := x\<rparr>)) (A\<lparr>aq := xs\<rparr>)" "c \<in> dom (ut_heap (sch (s\<lparr>sch := x\<rparr>)))" using x(2,4) by auto
  obtain y v where y: "make_current (Some c) x = Some y" "refines y (spec_dispatch c A)" "reg y = reg x" "ctxof y = ctxof x" "ut_heap y c = Some v"
    and eq2: "do {
         s \<leftarrow> on_sched (make_current (Some c)) (s\<lparr>sch := x\<rparr>);
         u \<leftarrow> deref (sch s) (Some c);
         Some (Dispatch (Some c), snd (rr_set_fs_base os (ut_tls_block u) s))
       } = Some (Dispatch (Some c), snd (rr_set_fs_base os (ut_tls_block v) (s\<lparr>sch := y\<rparr>)))"
    by (rule iter_switch [OF pre(1) r(4) pre(2), where os = os]) simp
  let ?s = "snd (rr_set_fs_base os (ut_tls_block v) (s\<lparr>sch := y\<rparr>))"
  have "scheduler_iter os s = Some (Dispatch (Some c), ?s)" using eq eq2 i by (simp add: note_switch_def)
  moreover have "ctxof y c = Some (CIo pt (Some c) k)" "iores y c = Some raw"
    using ctx y(4) ctxof_pop [OF x(1)] res iores_pop [OF x(1)] iores_make_current [OF y(1)] by simp_all
  then have "ut_ctx v = Some (CIo pt (Some c) k)" "ut_io_result v = raw" using y(5) by (simp_all add: ctxof_def iores_def)
  ultimately have "sys_step os user start (InSched s) = do { (v, s) \<leftarrow> finish os pt raw ?s; Some (User (k v (errno s)) s) }"
    using y(5) by (simp add: sys_step_def resume_def io_resume_def del: bind_Some_conv)
  then show ?thesis using that y(2,3) x(3) by simp
qed

section \<open>A read from call to return\<close>

text \<open>What the wrapper does when the thread continues: it converts the result and logs it with the first bytes read.\<close>

lemma read_finish_recorded:
  assumes r: "recording os fl hdr s evs" and i: "current_id s = Some i"
  obtains s' where "finish os (PtRead fd buf) raw s = Some (if sint raw < 0 then -1 else sint raw, s')"
    "recording os fl hdr s' (evs @ [syscall_event (of_nat (Suc (length evs))) i NR_read raw (of_int fd)
       (logged_data (umem s) buf (if sint raw > 0 then raw else 0))])"
    "umem s' = umem s" "sch s' = sch s" "errno s' = (if sint raw < 0 then - raw else errno s)"
proof -
  define s1 where "s1 = (if sint raw < 0 then s\<lparr>errno := - raw\<rparr> else s)"
  have "s\<lparr>errno := - raw, umem := umem s, world := world s\<rparr> = s\<lparr>errno := - raw\<rparr>" by simp
  then have r1: "recording os fl hdr s1 evs"
    using r recording_world [OF r refl, where e = "- raw" and m = "umem s"] by (auto simp: s1_def)
  have "current_id s1 = Some i" using i current_id_sch [of s1 s] by (simp add: s1_def)
  then obtain s' where s': "rr_log_syscall os NR_read raw (of_int fd) buf (if sint raw > 0 then raw else 0) s1 = Some s'"
    "recording os fl hdr s' (evs @ [syscall_event (of_nat (Suc (length evs))) i NR_read raw (of_int fd)
       (logged_data (umem s1) buf (if sint raw > 0 then raw else 0))])" "log_only s1 s'"
    using recording_log [OF r1] by blast
  have "raw_to_ssize raw s = (if sint raw < 0 then -1 else sint raw, s1)" by (simp add: raw_to_ssize_def s1_def)
  then have "finish os (PtRead fd buf) raw s = Some (if sint raw < 0 then -1 else sint raw, s')"
    using s'(1) by (simp add: finish_def read_finish_def Let_def)
  moreover have "umem s1 = umem s" "sch s1 = sch s" "errno s1 = (if sint raw < 0 then - raw else errno s)" by (simp_all add: s1_def)
  ultimately show ?thesis using that s'(2) log_onlyD [OF s'(3)] by simp
qed

lemma current_is: "refines (sch s) A \<Longrightarrow> acur A = Some c \<Longrightarrow> ids (sch s) c = Some i \<Longrightarrow> current_id s = Some i"
  using refinesD(2) [of "sch s" A] by (auto simp: current_id_def rr_scheduler_current_def ids_def)

lemma set_fs_world: "world (snd (rr_set_fs_base os b s)) = snd (os_set_fs os b (world s))"
  by (cases rule: kres_cases [of "os_set_fs os b" s]) (auto simp: rr_set_fs_base_def)

text \<open>The first step: the thread is blocked in the wrapper, nothing is logged.\<close>

lemma read_call_step:
  assumes rec: "recording os fl hdr s evs" "log_private os fl" and th: "thread_inv N s A" "arunning A c" "ids (sch s) c = Some i"
    and call: "user x (umem s) = (m, RCall (CRead fd buf n), k)" "n \<noteq> 0"
    and submit: "os_get_sqe os (world s) = (Some slot, w1)"
      "os_submit os (os_prep_sqe os slot \<lparr> sq_op = SqRead fd buf (ucast n) 0, sq_user_data = i \<rparr> w1) = (rc, w2)" "0 \<le> sint rc"
  obtains s1 where "sys_step os user start (User x s) = Some (InSched s1)" "refines (sch s1) (spec_block c A)" "reg (sch s1) = reg (sch s)"
    "ctxof (sch s1) c = Some (CIo (PtRead fd buf) (Some c) k)" "iou s1 = iou s" "umem s1 = m" "recording os fl hdr s1 evs"
    "world s1 = snd (os_set_fs os (rr_scheduler_tls_base s) w2)"
proof -
  let ?ctx = "CIo (PtRead fd buf) (Some c) k" and ?s = "s\<lparr>umem := m\<rparr>"
  note inv = thread_invD(1-4) [OF th(1)]
  have act: "rr_active ?s" using recording_active [OF rec(1)] by (simp add: rr_active_def)
  have cur: "g_current (sch s) = Some c" using refinesD(2) [OF inv(1)] th(2) by (simp add: arunning_def)
  obtain y where y: "read os ?ctx fd buf n ?s = Some (Suspended, ?s\<lparr>world := w2, sch := y\<rparr>)"
    "rr_scheduler_block_current ?ctx (sch ?s) = Some (True, y)" "refines y (spec_block c A)"
    by (rule read_suspends [OF act, of A c i n os slot w1 fd buf rc w2 ?ctx]) (use inv th call(2) submit in simp_all)
  have y': "ctxof y c = Some ?ctx" "reg y = reg (sch s)" using ctxof_block [OF y(2)] reg_block [OF y(2)] cur by simp_all
  define s1 where "s1 = snd (rr_set_fs_base os (rr_scheduler_tls_base s) (?s\<lparr>world := w2, sch := y\<rparr>))"
  have step: "sys_step os user start (User x s) = Some (InSched s1)"
    using call(1) y(1) cur by (simp add: sys_step_def request_def do_call_def reply_def enter_sched_def rr_scheduler_current_def
        rr_scheduler_tls_base_def s1_def)
  have s1: "sch s1 = y" "iou s1 = iou s" "umem s1 = m" "cfg s1 = cfg s" "rcd s1 = rcd s" by (simp_all add: s1_def)
  let ?w = "os_prep_sqe os slot \<lparr> sq_op = SqRead fd buf (ucast n) 0, sq_user_data = i \<rparr> w1"
  have "quiet os (world s) w1" "quiet os ?w w2" using submit(1,2) by (auto dest: quiet_calls)
  then have "quiet os (world s) w2" using quiet_trans [of os "world s" ?w w2] by simp
  then have "quiet os (world s) (world s1)"
    using set_fs_quiet [of os "?s\<lparr>world := w2, sch := y\<rparr>"] by (auto simp: s1_def intro: quiet_trans)
  moreover have "current_id s1 = Some i"
    using y(3) th(2,3) reg_ids [OF y'(2)] by (intro current_is [where A = "spec_block c A"]) (simp_all add: s1 spec_block_def arunning_def)
  ultimately have "recording os fl hdr s1 evs" using recording_env [OF rec s1(4,5)] by simp
  then show ?thesis using that step y(3) y' s1 set_fs_world [of os "rr_scheduler_tls_base s" "?s\<lparr>world := w2, sch := y\<rparr>"] by (simp add: s1_def)
qed

text \<open>The other two: the completion makes the thread runnable, and it leaves the wrapper.\<close>

lemma read_wait_resume:
  assumes rec: "recording os fl hdr s evs" "log_private os fl"
    and th: "refines (sch s) A" "ainv A" "reg_ok (sch s)" "g_sched_running (sch s)" "aq A = []" "acur A = Some c" "ast A c = Some UT_BLOCKED"
      "ids (sch s) c = Some i" "ctxof (sch s) c = Some (CIo (PtRead fd buf) (Some c) k)"
    and completion: "g_ring_ready (iou s)" "os_wait_cqe os (world s) = ((rc, Some cqe), w)" "0 \<le> sint rc"
      "cq_user_data cqe = i" "i \<noteq> RR_SIGNAL_SENTINEL"
  obtains s' where "sys_run os user start 2 (InSched s)
      = Some (User (k (if sint (cq_res cqe) < 0 then -1 else sint (cq_res cqe)) (errno s')) s')"
    "sint (cq_res cqe) < 0 \<longrightarrow> errno s' = - cq_res cqe" "umem s' = apply_stores (cq_stores cqe) (umem s)"
    "refines (sch s') (spec_dispatch c (spec_wake c A))"
    "recording os fl hdr s' (evs @ [syscall_event (of_nat (Suc (length evs))) i NR_read (cq_res cqe) (of_int fd)
       (logged_data (umem s') buf (if sint (cq_res cqe) > 0 then cq_res cqe else 0))])"
proof -
  obtain y where y: "sys_step os user start (InSched s)
      = Some (InSched (s\<lparr>world := os_cqe_seen os w, umem := apply_stores (cq_stores cqe) (umem s), sch := y\<rparr>))"
    "reg y = reg (sch s)" "ctxof y = ctxof (sch s)" "refines y (spec_wake c A)" "iores y c = Some (cq_res cqe)"
    by (rule pass_waits [OF th(3,1,2,4,5,8,7) completion])
  define s1 where "s1 = s\<lparr>world := os_cqe_seen os w, umem := apply_stores (cq_stores cqe) (umem s), sch := y\<rparr>"
  have A: "aq (spec_wake c A) = [c]" "acur (spec_wake c A) = Some c" using th(5-7) by (simp_all add: spec_wake_def)
  have run: "g_sched_running (sch s1)" "reg_ok (sch s1)" using y(2) th(3,4) reg_ok_frame [OF y(2)] by (simp_all add: s1_def reg_def)
  obtain b z where z: "sys_step os user start (InSched s1) = do {
      (v, s) \<leftarrow> finish os (PtRead fd buf) (cq_res cqe) (snd (rr_set_fs_base os b (s1\<lparr>sch := z\<rparr>)));
      Some (User (k v (errno s)) s) }"
    "refines z (spec_dispatch c (spec_wake c A))" "reg z = reg (sch s1)"
    by (rule pass_resumes [OF _ ainv_wake [OF th(2)] run(1) A run(2), of "PtRead fd buf" k "cq_res cqe" os user start])
      (use y(3-5) th(9) in \<open>simp_all add: s1_def\<close>)
  define s2 where "s2 = snd (rr_set_fs_base os b (s1\<lparr>sch := z\<rparr>))"
  have s2: "sch s2 = z" "umem s2 = umem s1" "cfg s2 = cfg s" "rcd s2 = rcd s" by (simp_all add: s2_def s1_def)
  have "ids z = ids (sch s)" using reg_ids [OF z(3)] reg_ids [OF y(2)] by (simp add: s1_def)
  then have i: "current_id s2 = Some i"
    using z(2) th(8) by (intro current_is [where A = "spec_dispatch c (spec_wake c A)"]) (simp_all add: s2 spec_dispatch_def)
  have "quiet os (world s) w" using completion(2) by (auto dest: quiet_calls)
  then have "quiet os (world s) (world s2)"
    using set_fs_quiet [of os "s1\<lparr>sch := z\<rparr>" b] quiet_trans [of os "world s" "os_cqe_seen os w" "world s2"] by (simp add: s2_def s1_def)
  then have "recording os fl hdr s2 evs" using recording_env [OF rec s2(3,4)] i by simp
  then obtain s' where "finish os (PtRead fd buf) (cq_res cqe) s2 = Some (if sint (cq_res cqe) < 0 then -1 else sint (cq_res cqe), s')"
    "recording os fl hdr s' (evs @ [syscall_event (of_nat (Suc (length evs))) i NR_read (cq_res cqe) (of_int fd)
       (logged_data (umem s2) buf (if sint (cq_res cqe) > 0 then cq_res cqe else 0))])"
    "umem s' = umem s2" "sch s' = sch s2" "errno s' = (if sint (cq_res cqe) < 0 then - cq_res cqe else errno s2)"
    by (rule read_finish_recorded [OF _ i])
  moreover from this(1) have "sys_run os user start 2 (InSched s)
      = Some (User (k (if sint (cq_res cqe) < 0 then -1 else sint (cq_res cqe)) (errno s')) s')"
    using y(1) z(1) by (simp add: eval_nat_numeral s1_def [symmetric] s2_def [symmetric])
  ultimately show ?thesis using that z(2) s2 by (simp add: s1_def)
qed

text \<open>C12. A blocking read, end to end: a thread of a recorded process in which no other thread is runnable calls
  \<^verbatim>\<open>read\<close>, and the kernel completes the operation. Three steps of the system later (the call that suspends the thread, the wait that the completion
  ends, the dispatch) the program continues with the number of bytes that the kernel reported, or with -1 and
  \<^verbatim>\<open>errno\<close>; memory holds what the kernel stored; the thread runs again and the queue is empty; and the log has got exactly one more
  event, with the result and the first 64 of the bytes read.\<close>

theorem blocking_read_completes:
  assumes rec: "recording os fl hdr s evs" "log_private os fl"
    and th: "thread_inv N s A" "arunning A c" "aq A = []" "ids (sch s) c = Some i"
    and call: "user x (umem s) = (m, RCall (CRead fd buf n), k)" "n \<noteq> 0"
    and submit: "os_get_sqe os (world s) = (Some slot, w1)"
      "os_submit os (os_prep_sqe os slot \<lparr> sq_op = SqRead fd buf (ucast n) 0, sq_user_data = i \<rparr> w1) = (rc, w2)" "0 \<le> sint rc"
    and completion: "g_ring_ready (iou s)" "os_wait_cqe os (snd (os_set_fs os (rr_scheduler_tls_base s) w2)) = ((rc', Some cqe), w3)" "0 \<le> sint rc'"
      "cq_user_data cqe = i" "i \<noteq> RR_SIGNAL_SENTINEL"
  shows "\<exists>s'. sys_run os user start 3 (User x s) = Some (User (k (if sint (cq_res cqe) < 0 then -1 else sint (cq_res cqe)) (errno s')) s')
    \<and> (sint (cq_res cqe) < 0 \<longrightarrow> errno s' = - cq_res cqe) \<and> umem s' = apply_stores (cq_stores cqe) m
    \<and> runq (sch s') [] \<and> g_current (sch s') = Some c \<and> map_option ut_state (ut_heap (sch s') c) = Some UT_RUNNING
    \<and> event_log fl s' hdr (evs @ [syscall_event (of_nat (Suc (length evs))) i NR_read (cq_res cqe) (of_int fd)
        (logged_data (umem s') buf (if sint (cq_res cqe) > 0 then cq_res cqe else 0))])"
proof -
  note inv = thread_invD(1-4) [OF th(1)]
  obtain s1 where s1: "sys_step os user start (User x s) = Some (InSched s1)" "refines (sch s1) (spec_block c A)" "reg (sch s1) = reg (sch s)"
    "ctxof (sch s1) c = Some (CIo (PtRead fd buf) (Some c) k)" "iou s1 = iou s" "umem s1 = m" "recording os fl hdr s1 evs"
    "world s1 = snd (os_set_fs os (rr_scheduler_tls_base s) w2)"
    by (rule read_call_step [where user = user and x = x and k = k, OF rec th(1,2,4) call submit])
  let ?A = "spec_block c A"
  have A: "ainv ?A" "aq ?A = []" "acur ?A = Some c" "ast ?A c = Some UT_BLOCKED"
    using ainv_block [OF inv(2) th(2)] th(2,3) by (simp_all add: spec_block_def arunning_def)
  have r: "reg_ok (sch s1)" "g_sched_running (sch s1)" "ids (sch s1) c = Some i"
    using s1(3) reg_ok_frame [OF s1(3)] inv(3,4) th(4) by (simp_all add: reg_def)
  obtain s' where s': "sys_run os user start 2 (InSched s1)
      = Some (User (k (if sint (cq_res cqe) < 0 then -1 else sint (cq_res cqe)) (errno s')) s')"
    "sint (cq_res cqe) < 0 \<longrightarrow> errno s' = - cq_res cqe" "umem s' = apply_stores (cq_stores cqe) (umem s1)"
    "refines (sch s') (spec_dispatch c (spec_wake c ?A))"
    "recording os fl hdr s' (evs @ [syscall_event (of_nat (Suc (length evs))) i NR_read (cq_res cqe) (of_int fd)
       (logged_data (umem s') buf (if sint (cq_res cqe) > 0 then cq_res cqe else 0))])"
    by (rule read_wait_resume [OF s1(7) rec(2) s1(2) A(1) r(1,2) A(2-4) r(3) s1(4) completion(1) [folded s1(5)]
          completion(2) [folded s1(8)] completion(3-5)])
  have "sys_run os user start 3 (User x s) = sys_run os user start 2 (InSched s1)" using s1(1) by (simp add: numeral_3_eq_3 numeral_2_eq_2)
  moreover have "aq (spec_dispatch c (spec_wake c ?A)) = []" "acur (spec_dispatch c (spec_wake c ?A)) = Some c"
    "ast (spec_dispatch c (spec_wake c ?A)) c = Some UT_RUNNING"
    using A by (simp_all add: spec_dispatch_def spec_wake_def)
  ultimately show ?thesis using s' s1(6) refinesD(1,2,3) [OF s'(4)] by (auto simp: recording_def)
qed

text \<open>An instance: the main thread alone reads two bytes.\<close>

definition two_bytes :: cqe where
  "two_bytes = \<lparr> cq_user_data = 1, cq_res = 2, cq_stores = [(4096, [104, 105])] \<rparr>"

definition reading_state :: "(nat ctx, dw) rr" where
  "reading_state = demo_rec\<lparr>sch := main_sched 0 4096 16, uth := main_uth 4096 16, iou := \<lparr> g_ring_ready = True, g_signal_fd = 5 \<rparr>,
     world := dw0\<lparr>d_cqes := [two_bytes]\<rparr>\<rparr>"

definition reading_user :: "nat user" where
  "reading_user x m = (m, RCall (CRead 4 4096 16), \<lambda>v e. nat v)"

lemma reading_recording: "recording demo_os d_log [] reading_state []"
proof -
  have "recording demo_os d_log [] (demo_rec :: (nat ctx, dw) rr) []" by (rule demo_recording)
  then show ?thesis
    by (simp add: recording_def reading_state_def rec_inv_def event_log_def contents_def rr_active_def rr_replay_active_def current_id_def
        rr_scheduler_current_def main_sched_def dw0_def)
qed

theorem blocking_read_completes_witness:
  "\<exists>s'. sys_run demo_os reading_user demo_start 3 (User 0 reading_state) = Some (User 2 s') \<and> umem s' 4097 = 105
    \<and> event_log d_log s' [] [syscall_event 1 1 NR_read 2 4 [104, 105]]"
proof -
  have sc: "sch reading_state = main_sched 0 4096 16" "uth reading_state = main_uth 4096 16" by (simp_all add: reading_state_def)
  have "(0 :: nat) + 2 < 2 ^ 64" by simp
  then obtain A where A: "thread_inv 0 reading_state A" "arunning A 1" using main_thread_inv [OF sc] by blast
  have "runq (main_sched 0 4096 16 :: nat ctx sched) (aq A)" using refinesD(1) [OF thread_invD(1) [OF A(1)]] sc(1) by simp
  then have q: "aq A = []" by (cases "aq A") (simp_all add: runq_def main_sched_def sched_init_def)
  have i: "ids (sch reading_state) 1 = Some 1" by (simp add: sc ids_def main_sched_def main_ut_def)
  have u: "reading_user 0 (umem reading_state) = (\<lambda>_. 0, RCall (CRead 4 4096 16), \<lambda>v e. nat v)"
    by (simp add: reading_user_def reading_state_def)
  let ?w = "dw0\<lparr>d_cqes := [two_bytes], d_sqes := [\<lparr> sq_op = SqRead 4 4096 (ucast (16 :: u64)) 0, sq_user_data = 1 \<rparr>]\<rparr>"
  have sub: "os_get_sqe demo_os (world reading_state) = (Some 0, world reading_state)"
    "os_submit demo_os (os_prep_sqe demo_os 0 \<lparr> sq_op = SqRead 4 4096 (ucast (16 :: u64)) 0, sq_user_data = 1 \<rparr> (world reading_state)) = (1, ?w)"
    "(0 :: int) \<le> sint (1 :: i32)" "(16 :: u64) \<noteq> 0"
    by (simp_all add: demo_os_def reading_state_def dw0_def)
  have comp: "g_ring_ready (iou reading_state)" "os_wait_cqe demo_os (snd (os_set_fs demo_os (rr_scheduler_tls_base reading_state) ?w)) = ((0, Some two_bytes), ?w)"
    "(0 :: int) \<le> sint (0 :: i32)" "cq_user_data two_bytes = 1" "(1 :: u64) \<noteq> RR_SIGNAL_SENTINEL"
    by (simp_all add: demo_os_def reading_state_def two_bytes_def RR_SIGNAL_SENTINEL_def)
  from blocking_read_completes [where user = reading_user and x = 0 and start = demo_start, OF reading_recording demo_log_private A q i u sub(4,1-3) comp]
  obtain s' where s': "sys_run demo_os reading_user demo_start 3 (User 0 reading_state) = Some (User 2 s')"
    "umem s' = write_mem 4096 [104, 105] (\<lambda>_. 0)" "event_log d_log s' [] [syscall_event 1 1 NR_read 2 4 (logged_data (umem s') 4096 2)]"
    by (auto simp: two_bytes_def)
  have "read_mem (umem s') 4096 (length [104 :: u8, 105]) = [104, 105]" unfolding s'(2) by (rule read_write_mem) simp
  then have "read_mem (umem s') 4096 2 = [104, 105]" by (simp add: numeral_2_eq_2)
  then have "logged_data (umem s') 4096 2 = [104, 105]" by (simp add: logged_data_def sizeofs)
  then show ?thesis using s' by (simp add: write_mem_def)
qed

end
